(* ===== verification/Wscall_Prelude.thy ===== *)
theory Wscall_Prelude
  imports Main "HOL-Library.Word" "HOL-Library.Char_ord" "HOL-Library.List_Lexorder"
begin

section \<open>Prelude of the wscall development\<close>

text \<open>
  The vocabulary every component shares: the machine integers and byte strings of the Rust
  sources, the \<open>Result\<close> type with the \<open>?\<close> operator, big-endian \<open>u32\<close> values, the bytes of a
  string, and the generic facts on lists and words the component proofs use.
  The collections declared here are \<open>result_simps\<close> (evaluation of \<open>Result\<close> chains) and
  \<open>wire_simps\<close> (lengths and slices of encoded data).
\<close>

unbundle bit_operations_syntax

named_theorems result_simps "evaluation of Result chains"
named_theorems wire_simps "lengths and slices of encoded data"

subsection \<open>Types\<close>

text \<open>
  Rust's fixed-width integers are words; \<open>usize\<close> values are lengths of in-memory buffers
  and are natural numbers; \<open>Vec<u8>\<close>, \<open>&[u8]\<close> and \<open>Bytes\<close> are lists of bytes. A Rust
  \<open>String\<close> is the list of its UTF-8 bytes, each byte a \<^typ>\<open>char\<close>, so \<open>len()\<close> is \<^const>\<open>length\<close>.
\<close>

type_synonym u8 = "8 word"
type_synonym u16 = "16 word"
type_synonym u32 = "32 word"
type_synonym u64 = "64 word"
type_synonym bytes = "u8 list"
type_synonym duration = nat
type_synonym instant = nat

subsection \<open>Results\<close>

text \<open>\<open>Result<T, E>\<close> is \<open>'e + 't\<close>; \<open>rbind\<close> is the \<open>?\<close> operator followed by the rest of the body.\<close>

fun rbind :: "'e + 'a \<Rightarrow> ('a \<Rightarrow> 'e + 'b) \<Rightarrow> 'e + 'b" where
  "rbind (Inl e) f = Inl e"
| "rbind (Inr x) f = f x"

fun map_err :: "('e \<Rightarrow> 'f) \<Rightarrow> 'e + 'a \<Rightarrow> 'f + 'a" where
  "map_err f (Inl e) = Inl (f e)"
| "map_err f (Inr x) = Inr x"

fun ok_or :: "'e \<Rightarrow> 'a option \<Rightarrow> 'e + 'a" where
  "ok_or e None = Inl e"
| "ok_or e (Some x) = Inr x"

lemma rbind_eq_Inr [simp]: "rbind m f = Inr y \<longleftrightarrow> (\<exists>x. m = Inr x \<and> f x = Inr y)"
  by (cases m) auto

lemma rbind_eq_Inl: "rbind m f = Inl e \<longleftrightarrow> m = Inl e \<or> (\<exists>x. m = Inr x \<and> f x = Inl e)"
  by (cases m) auto

lemma map_err_eq_Inr [simp]: "map_err f m = Inr y \<longleftrightarrow> m = Inr y"
  by (cases m) auto

lemma ok_or_eq_Inr [simp]: "ok_or e m = Inr y \<longleftrightarrow> m = Some y"
  by (cases m) auto

lemma rbind_assoc: "rbind (rbind m f) g = rbind m (\<lambda>x. rbind (f x) g)"
  by (cases m) auto

declare rbind.simps [result_simps] map_err.simps [result_simps] ok_or.simps [result_simps]

subsection \<open>Outcomes of user code\<close>

text \<open>
  Handlers run under \<open>catch_unwind\<close>: they return a value or panic.
\<close>

datatype 'a outcome = Returned 'a | Panicked

subsection \<open>Integer casts\<close>

text \<open>\<open>n as u8\<close> and \<open>n as u32\<close> on a \<open>usize\<close> keep the low bits.\<close>

abbreviation as_u8 :: "nat \<Rightarrow> u8" where "as_u8 n \<equiv> word_of_nat n"
abbreviation as_u32 :: "nat \<Rightarrow> u32" where "as_u32 n \<equiv> word_of_nat n"
abbreviation as_u64 :: "nat \<Rightarrow> u64" where "as_u64 n \<equiv> word_of_nat n"

lemma unat_as_u8 [simp]: "n < 256 \<Longrightarrow> unat (as_u8 n) = n"
  by (simp add: unat_of_nat take_bit_nat_eq_self_iff)

lemma unat_as_u32 [simp]: "n < 2 ^ 32 \<Longrightarrow> unat (as_u32 n) = n"
  by (simp add: unat_of_nat take_bit_nat_eq_self_iff)

lemma unat_as_u8_mod: "unat (as_u8 n) = n mod 256"
  by (simp add: unat_of_nat take_bit_eq_mod)

lemma unat_u8_less [simp]: "unat (b :: u8) < 256"
  using unsigned_less [where ?'a = nat, of b] by simp

lemma unat_u32_less [simp]: "unat (w :: u32) < 2 ^ 32"
  using unsigned_less [where ?'a = nat, of w] by simp

lemma unat_u64_less [simp]: "unat (w :: u64) < 2 ^ 64"
  using unsigned_less [where ?'a = nat, of w] by simp

lemma unat_u16_less [simp]: "unat (w :: u16) < 65536"
  using unsigned_less [where ?'a = nat, of w] by simp

lemma unat_ucast_u8_u64 [simp]: "unat (ucast (b :: u8) :: u64) = unat b"
  using unat_u8_less [of b] by (simp add: unsigned_ucast_eq take_bit_nat_eq_self_iff del: unat_u8_less)

lemma unat_ucast_u16_u64 [simp]: "unat (ucast (w :: u16) :: u64) = unat w"
  using unat_u16_less [of w] by (simp add: unsigned_ucast_eq take_bit_nat_eq_self_iff del: unat_u16_less)

subsection \<open>Big-endian words\<close>

text \<open>\<open>u32::to_be_bytes\<close> and \<open>u32::from_be_bytes\<close>.\<close>

definition to_be_bytes :: "u32 \<Rightarrow> bytes" where
  "to_be_bytes w = [ucast (drop_bit 24 w), ucast (drop_bit 16 w), ucast (drop_bit 8 w), ucast w]"

definition from_be_bytes :: "u8 \<Rightarrow> u8 \<Rightarrow> u8 \<Rightarrow> u8 \<Rightarrow> u32" where
  "from_be_bytes a b c d =
     push_bit 24 (ucast a) OR push_bit 16 (ucast b) OR push_bit 8 (ucast c) OR ucast d"

lemma from_to_be_bytes [simp]:
  "from_be_bytes (ucast (drop_bit 24 w)) (ucast (drop_bit 16 w)) (ucast (drop_bit 8 w)) (ucast w) = w"
proof (rule bit_word_eqI)
  fix n
  assume "n < LENGTH(32)"
  then consider "n < 8" | "8 \<le> n" "n < 16" | "16 \<le> n" "n < 24" | "24 \<le> n" "n < 32"
    by fastforce
  then show "bit (from_be_bytes (ucast (drop_bit 24 w)) (ucast (drop_bit 16 w))
      (ucast (drop_bit 8 w)) (ucast w)) n = bit w n"
    by cases (auto simp: from_be_bytes_def bit_simps)
qed

lemma to_from_be_bytes: "to_be_bytes (from_be_bytes a b c d) = [a, b, c, d]"
proof -
  let ?w = "from_be_bytes a b c d"
  have "ucast (drop_bit 24 ?w) = a" "ucast (drop_bit 16 ?w) = b"
      "ucast (drop_bit 8 ?w) = c" "ucast ?w = d"
    by (rule bit_word_eqI; auto simp: from_be_bytes_def bit_simps dest: bit_imp_le_length)+
  then show ?thesis by (simp add: to_be_bytes_def)
qed

lemma length_to_be_bytes [simp, wire_simps]: "length (to_be_bytes w) = 4"
  by (simp add: to_be_bytes_def)

text \<open>Reading the four bytes at the front of a buffer; callers check the length first.\<close>

definition be_u32_at :: "bytes \<Rightarrow> nat \<Rightarrow> u32" where
  "be_u32_at bs i = from_be_bytes (bs ! i) (bs ! (i + 1)) (bs ! (i + 2)) (bs ! (i + 3))"

lemma be_u32_at_0 [simp, wire_simps]: "be_u32_at (to_be_bytes w @ rest) 0 = w"
  by (simp add: be_u32_at_def to_be_bytes_def)

lemma be_u32_at_append [simp, wire_simps]: "be_u32_at (xs @ ys) (length xs) = be_u32_at ys 0"
  by (simp add: be_u32_at_def nth_append numeral_2_eq_2)

subsection \<open>Strings and bytes\<close>

definition as_bytes :: "string \<Rightarrow> bytes" where
  "as_bytes s = map (\<lambda>c. as_u8 (of_char c)) s"

definition from_bytes :: "bytes \<Rightarrow> string" where
  "from_bytes bs = map (\<lambda>b. char_of (unat b)) bs"

lemma from_bytes_as_bytes [simp]: "from_bytes (as_bytes s) = s"
  by (simp add: from_bytes_def as_bytes_def comp_def)

lemma as_bytes_from_bytes [simp]: "as_bytes (from_bytes bs) = bs"
  by (simp add: from_bytes_def as_bytes_def comp_def unat_of_nat map_idI)

lemma length_as_bytes [simp, wire_simps]: "length (as_bytes s) = length s"
  by (simp add: as_bytes_def)

lemma length_from_bytes [simp, wire_simps]: "length (from_bytes bs) = length bs"
  by (simp add: from_bytes_def)

lemma as_bytes_eq_iff [simp]: "as_bytes s = as_bytes t \<longleftrightarrow> s = t"
  by (metis from_bytes_as_bytes)

text \<open>Formatting with \<open>{}\<close>: decimal numbers, and a name between single quotes.\<close>

fun show_nat :: "nat \<Rightarrow> string" where
  "show_nat n = (if n < 10 then [char_of (48 + n)] else show_nat (n div 10) @ [char_of (48 + n mod 10)])"

declare show_nat.simps [simp del]

definition quoted :: "string \<Rightarrow> string" where
  "quoted s = CHR 0x27 # s @ [CHR 0x27]"

subsection \<open>Slices\<close>

text \<open>\<open>&data[i..j]\<close> and \<open>data.slice(i..j)\<close>; callers check \<open>j \<le> len\<close> first.\<close>

definition subslice :: "nat \<Rightarrow> nat \<Rightarrow> 'a list \<Rightarrow> 'a list" where
  "subslice i j xs = take (j - i) (drop i xs)"

lemma subslice_append [simp, wire_simps]:
  "subslice (length xs) (length xs + length ys) (xs @ ys @ zs) = ys"
  by (simp add: subslice_def)

lemma length_subslice [simp, wire_simps]: "j \<le> length xs \<Longrightarrow> length (subslice i j xs) = j - i"
  by (simp add: subslice_def)

subsection \<open>Step relations\<close>

text \<open>The contract of an invariant of a step relation: every step keeps it, so every run does.\<close>

locale step_invariant =
  fixes step :: "'s \<Rightarrow> 's \<Rightarrow> bool"
    and inv :: "'s \<Rightarrow> bool"
  assumes step_kept: "step s s' \<Longrightarrow> inv s \<Longrightarrow> inv s'"
begin

lemma run_kept: "step\<^sup>*\<^sup>* s s' \<Longrightarrow> inv s \<Longrightarrow> inv s'"
  by (induction rule: rtranclp_induct) (simp_all add: step_kept)

end

end
