(* ===== verification/Utf8.thy ===== *)
theory Utf8
  imports Wscall_Prelude
begin

section \<open>UTF-8 strings of the Rust standard library\<close>

text \<open>
  A Rust \<open>String\<close> is a byte buffer that holds valid UTF-8, an invariant of the type. The
  codec builds strings out of untrusted bytes with \<open>String::from_utf8_lossy\<close>, which keeps
  the valid sequences and replaces every maximal ill-formed subsequence by U+FFFD. This
  theory models that function after the chunk loop of \<open>core::str::lossy\<close>, defines the
  validity invariant \<open>utf8_valid\<close>, and shows that the conversion always yields a valid string
  and is the identity on valid ones. \<open>chars\<close> is the iterator over the scalar values.
\<close>

definition is_cont :: "u8 \<Rightarrow> bool" where
  "is_cont b \<longleftrightarrow> 0x80 \<le> b \<and> b \<le> 0xBF"

definition utf8_char_width :: "u8 \<Rightarrow> nat" where
  "utf8_char_width b =
     (if b < 0x80 then 1
      else if 0xC2 \<le> b \<and> b \<le> 0xDF then 2
      else if 0xE0 \<le> b \<and> b \<le> 0xEF then 3
      else if 0xF0 \<le> b \<and> b \<le> 0xF4 then 4
      else 0)"

definition second3_ok :: "u8 \<Rightarrow> u8 \<Rightarrow> bool" where
  "second3_ok b c \<longleftrightarrow>
     (b = 0xE0 \<and> 0xA0 \<le> c \<and> c \<le> 0xBF) \<or>
     (0xE1 \<le> b \<and> b \<le> 0xEC \<and> 0x80 \<le> c \<and> c \<le> 0xBF) \<or>
     (b = 0xED \<and> 0x80 \<le> c \<and> c \<le> 0x9F) \<or>
     (0xEE \<le> b \<and> b \<le> 0xEF \<and> 0x80 \<le> c \<and> c \<le> 0xBF)"

definition second4_ok :: "u8 \<Rightarrow> u8 \<Rightarrow> bool" where
  "second4_ok b c \<longleftrightarrow>
     (b = 0xF0 \<and> 0x90 \<le> c \<and> c \<le> 0xBF) \<or>
     (0xF1 \<le> b \<and> b \<le> 0xF3 \<and> 0x80 \<le> c \<and> c \<le> 0xBF) \<or>
     (b = 0xF4 \<and> 0x80 \<le> c \<and> c \<le> 0x8F)"

text \<open>
  One step of the chunk loop: whether the buffer starts with a well-formed sequence, and how
  many bytes the sequence (or the ill-formed prefix that one U+FFFD replaces) has. A read past
  the end yields byte 0, which is no continuation byte (\<open>safe_get\<close>).
\<close>

definition safe_get :: "bytes \<Rightarrow> nat \<Rightarrow> u8" where
  "safe_get bs i = (if i < length bs then bs ! i else 0)"

fun utf8_chunk :: "bytes \<Rightarrow> bool \<times> nat" where
  "utf8_chunk [] = (True, 0)"
| "utf8_chunk (b # bs) =
     (if b < 0x80 then (True, 1)
      else case utf8_char_width b of
        n \<Rightarrow>
          if n = 2 then
            (if \<not> is_cont (safe_get bs 0) then (False, 1) else (True, 2))
          else if n = 3 then
            (if \<not> second3_ok b (safe_get bs 0) then (False, 1)
             else if \<not> is_cont (safe_get bs 1) then (False, 2) else (True, 3))
          else if n = 4 then
            (if \<not> second4_ok b (safe_get bs 0) then (False, 1)
             else if \<not> is_cont (safe_get bs 1) then (False, 2)
             else if \<not> is_cont (safe_get bs 2) then (False, 3) else (True, 4))
          else (False, 1))"

definition replacement_character :: bytes where
  "replacement_character = [0xEF, 0xBF, 0xBD]"

lemma is_cont_0 [simp]: "\<not> is_cont 0"
  by (simp add: is_cont_def)

lemma second_ok_0 [simp]: "\<not> second3_ok b 0" "\<not> second4_ok b 0"
  by (simp_all add: second3_ok_def second4_ok_def)

lemma utf8_chunk_pos: "0 < snd (utf8_chunk (b # bs))"
  by (auto simp: Let_def)

lemma utf8_chunk_pos': "utf8_chunk (b # bs) = (v, n) \<Longrightarrow> 0 < n"
  using utf8_chunk_pos [of b bs] by simp

declare utf8_chunk.simps(2) [simp del]

lemma safe_get_cont: "is_cont (safe_get cs i) \<Longrightarrow> Suc i \<le> length cs"
  by (cases "i < length cs") (auto simp: safe_get_def)

lemma safe_get_second:
  "second3_ok b (safe_get cs i) \<Longrightarrow> Suc i \<le> length cs"
  "second4_ok b (safe_get cs i) \<Longrightarrow> Suc i \<le> length cs"
  by (cases "i < length cs"; auto simp: safe_get_def)+

lemma utf8_chunk_len:
  assumes "utf8_chunk bs = (True, n)"
  shows "n \<le> length bs"
proof (cases bs)
  case Nil
  with assms show ?thesis by simp
next
  case (Cons b cs)
  from assms Cons consider "n = 1" | "n = 2" "is_cont (safe_get cs 0)"
    | "n = 3" "is_cont (safe_get cs 1)" | "n = 4" "is_cont (safe_get cs 2)"
    by (auto simp: utf8_chunk.simps(2) split: if_splits)
  then show ?thesis using Cons by cases (auto dest: safe_get_cont)
qed

text \<open>\<open>Utf8Chunks\<close>: the whole buffer cut into well-formed sequences and ill-formed pieces.\<close>

function utf8_chunks :: "bytes \<Rightarrow> (bool \<times> bytes) list" where
  "utf8_chunks [] = []"
| "utf8_chunks (b # bs) =
     (let (valid, n) = utf8_chunk (b # bs)
      in (valid, take n (b # bs)) # utf8_chunks (drop n (b # bs)))"
  by pat_completeness auto
termination
  by (relation "measure length") (auto dest: utf8_chunk_pos' [OF sym])

text \<open>\<open>String::from_utf8_lossy(..).into_owned()\<close> and the invariant of \<open>String\<close>.\<close>

definition from_utf8_lossy_bytes :: "bytes \<Rightarrow> bytes" where
  "from_utf8_lossy_bytes bs =
     concat (map (\<lambda>(valid, c). if valid then c else replacement_character) (utf8_chunks bs))"

definition from_utf8_lossy :: "bytes \<Rightarrow> string" where
  "from_utf8_lossy bs = from_bytes (from_utf8_lossy_bytes bs)"

definition utf8_valid_bytes :: "bytes \<Rightarrow> bool" where
  "utf8_valid_bytes bs \<longleftrightarrow> list_all fst (utf8_chunks bs)"

definition utf8_valid :: "string \<Rightarrow> bool" where
  "utf8_valid s \<longleftrightarrow> utf8_valid_bytes (as_bytes s)"

lemma concat_utf8_chunks: "concat (map snd (utf8_chunks bs)) = bs"
  by (induction bs rule: utf8_chunks.induct) (auto split: prod.splits)

lemma lossy_valid_id: "utf8_valid_bytes bs \<Longrightarrow> from_utf8_lossy_bytes bs = bs"
proof -
  assume "utf8_valid_bytes bs"
  then have "map (\<lambda>(valid, c). if valid then c else replacement_character) (utf8_chunks bs)
      = map snd (utf8_chunks bs)"
    by (auto simp: utf8_valid_bytes_def list_all_iff)
  then show ?thesis
    unfolding from_utf8_lossy_bytes_def by (simp only: concat_utf8_chunks)
qed

text \<open>A well-formed first sequence is recognised whatever follows it.\<close>

lemma utf8_chunk_prefix:
  assumes "utf8_chunk xs = (True, n)" "0 < n"
  shows "utf8_chunk (take n xs @ ys) = (True, n)"
proof (cases xs)
  case Nil
  with assms show ?thesis by simp
next
  case (Cons b cs)
  have len: "n \<le> length xs" using assms(1) by (rule utf8_chunk_len)
  have get: "safe_get (take (n - 1) cs @ ys) i = safe_get cs i" if "i < n - 1" for i
    using that len Cons by (auto simp: nth_append safe_get_def)
  have tk: "take n xs = b # take (n - 1) cs"
    using Cons assms(2) by (cases n) auto
  show ?thesis
    using assms(1) get Cons unfolding tk
    by (simp add: utf8_chunk.simps(2) split: if_splits)
qed

lemma utf8_valid_chunk_append:
  assumes "utf8_chunk xs = (True, n)" "0 < n" "utf8_valid_bytes ys"
  shows "utf8_valid_bytes (take n xs @ ys)"
proof -
  have len: "n \<le> length xs" using assms(1) by (rule utf8_chunk_len)
  with assms(2) obtain b cs where tk: "take n xs @ ys = b # cs"
    by (cases xs; cases n) auto
  have "utf8_chunk (take n xs @ ys) = (True, n)"
    using assms(1,2) by (rule utf8_chunk_prefix)
  moreover have "drop n (take n xs @ ys) = ys" using len by simp
  ultimately show ?thesis
    using assms(3) unfolding utf8_valid_bytes_def tk by simp
qed

text \<open>The output of the conversion is a valid string, whatever the input.\<close>

lemma utf8_valid_concat:
  assumes "\<forall>c \<in> set cs. utf8_chunk c = (True, length c)" "\<forall>c \<in> set cs. c \<noteq> []"
  shows "utf8_valid_bytes (concat cs)"
  using assms
proof (induction cs)
  case (Cons c cs)
  then have "utf8_valid_bytes (take (length c) c @ concat cs)"
    by (intro utf8_valid_chunk_append) auto
  then show ?case by simp
qed (simp add: utf8_valid_bytes_def)

lemma utf8_chunk_replacement: "utf8_chunk replacement_character = (True, length replacement_character)"
  by (simp add: replacement_character_def utf8_chunk.simps utf8_char_width_def
      second3_ok_def is_cont_def safe_get_def)

lemma utf8_chunks_valid:
  "(True, c) \<in> set (utf8_chunks bs) \<Longrightarrow> utf8_chunk c = (True, length c) \<and> c \<noteq> []"
proof (induction bs rule: utf8_chunks.induct)
  case (2 b bs)
  obtain v n where ch: "utf8_chunk (b # bs) = (v, n)" by fastforce
  then have n: "0 < n" by (rule utf8_chunk_pos')
  show ?case
  proof (cases "(True, c) = (v, take n (b # bs))")
    case True
    with ch have "n \<le> length (b # bs)" by (auto dest: utf8_chunk_len)
    then show ?thesis
      using True ch n utf8_chunk_prefix [of "b # bs" n "[]"] by auto
  next
    case False
    with 2 ch show ?thesis by auto
  qed
qed simp

lemma lossy_is_valid: "utf8_valid_bytes (from_utf8_lossy_bytes bs)"
proof -
  let ?f = "\<lambda>(valid, c). if valid then c else replacement_character"
  have "utf8_chunk c = (True, length c) \<and> c \<noteq> []" if c: "c \<in> set (map ?f (utf8_chunks bs))" for c
  proof -
    from c obtain v d where "(v, d) \<in> set (utf8_chunks bs)" "c = ?f (v, d)" by auto
    then show ?thesis
      by (cases v) (auto dest: utf8_chunks_valid simp: utf8_chunk_replacement, simp add: replacement_character_def)
  qed
  then show ?thesis
    unfolding from_utf8_lossy_bytes_def by (intro utf8_valid_concat) blast+
qed

text \<open>ASCII bytes are valid on their own, so the literals of the sources are valid strings.\<close>

lemma utf8_valid_ascii: "\<forall>b \<in> set bs. b < 0x80 \<Longrightarrow> utf8_valid_bytes bs"
  by (induction bs) (simp_all add: utf8_valid_bytes_def utf8_chunk.simps(2))

lemma utf8_valid_literal: "list_all (\<lambda>c. of_char c < (128 :: nat)) s \<Longrightarrow> utf8_valid s"
  unfolding utf8_valid_def as_bytes_def
  by (rule utf8_valid_ascii) (auto simp: list_all_iff word_less_nat_alt unat_of_nat)

lemma from_utf8_lossy_as_bytes [simp]:
  "utf8_valid s \<Longrightarrow> from_utf8_lossy (as_bytes s) = s"
  by (simp add: utf8_valid_def from_utf8_lossy_def lossy_valid_id)

lemma utf8_valid_from_utf8_lossy [simp]: "utf8_valid (from_utf8_lossy bs)"
  by (simp add: utf8_valid_def from_utf8_lossy_def lossy_is_valid)

subsection \<open>Scalar values\<close>

text \<open>
  \<open>str::chars\<close>: the scalar value of each sequence. On a valid string every chunk is one
  character; ill-formed bytes do not occur.
\<close>

fun utf8_decode :: "bytes \<Rightarrow> nat" where
  "utf8_decode [a] = unat a"
| "utf8_decode [a, b] = (unat a mod 32) * 64 + unat b mod 64"
| "utf8_decode [a, b, c] = (unat a mod 16) * 4096 + (unat b mod 64) * 64 + unat c mod 64"
| "utf8_decode [a, b, c, d] =
     (unat a mod 8) * 262144 + (unat b mod 64) * 4096 + (unat c mod 64) * 64 + unat d mod 64"
| "utf8_decode _ = 0xFFFD"

definition chars :: "string \<Rightarrow> nat list" where
  "chars s = map (\<lambda>(valid, c). utf8_decode c) (utf8_chunks (as_bytes s))"

lemma utf8_chunks_eq_Nil [simp]: "utf8_chunks bs = [] \<longleftrightarrow> bs = []"
  by (cases bs) (auto simp: Let_def split: prod.splits)

lemma chars_eq_Nil [simp]: "chars s = [] \<longleftrightarrow> s = []"
  by (simp add: chars_def as_bytes_def)

lemma chars_Nil [simp]: "chars [] = []"
  by (simp add: chars_def as_bytes_def)

lemma length_utf8_chunks_le: "length (utf8_chunks bs) \<le> length bs"
proof (induction bs rule: utf8_chunks.induct)
  case (2 b bs)
  obtain v n where ch: "utf8_chunk (b # bs) = (v, n)" by fastforce
  then have n: "0 < n" by (rule utf8_chunk_pos')
  have "length (utf8_chunks (drop n (b # bs))) \<le> length (drop n (b # bs))"
    using 2 ch by simp
  also have "\<dots> \<le> length bs" using n by simp
  finally show ?case using ch by simp
qed simp

lemma length_chars_le: "length (chars s) \<le> length s"
  using length_utf8_chunks_le [of "as_bytes s"] by (simp add: chars_def)

end
