(* ===== verification/Json.thy ===== *)
theory Json
  imports Utf8
begin

section \<open>JSON values\<close>

text \<open>
  The data model of \<open>serde_json\<close> the sources compute with: \<open>Value\<close>, \<open>Number\<close> and \<open>Map\<close>.
  A \<open>Number\<close> holds an unsigned, a negative or a floating-point number; the last is kept as its
  IEEE bit pattern, since the sources never compute with it. \<open>Map\<close> is the crate's default
  ordered map: an association list whose keys ascend in byte order. The theory gives the map
  operations the sources use, their laws (through the interface \<open>keyed_store\<close>), and \<open>canon\<close>, the
  value a parser builds from an object whose members were emitted in some other order.
\<close>

datatype number = PosInt u64 | NegInt u64 | Float u64

datatype jvalue =
    Null
  | Bool bool
  | Number number
  | String string
  | Array "jvalue list"
  | Object "(string \<times> jvalue) list"

type_synonym json_map = "(string \<times> jvalue) list"

subsection \<open>The interface of a keyed store\<close>

text \<open>
  What the sources rely on of their maps (\<open>serde_json::Map\<close>, and \<open>DashMap\<close> and \<open>HashMap\<close> later
  on): lookups after an insertion and after a removal, and an invariant every operation keeps.
\<close>

locale keyed_store =
  fixes empty :: "'m"
    and insert :: "'k \<Rightarrow> 'v \<Rightarrow> 'm \<Rightarrow> 'm"
    and remove :: "'k \<Rightarrow> 'm \<Rightarrow> 'm"
    and get :: "'m \<Rightarrow> 'k \<Rightarrow> 'v option"
    and invar :: "'m \<Rightarrow> bool"
  assumes get_empty: "get empty = Map.empty"
    and get_insert: "get (insert k v m) = (get m)(k \<mapsto> v)"
    and get_remove: "invar m \<Longrightarrow> get (remove k m) = (get m)(k := None)"
    and invar_empty: "invar empty"
    and invar_insert: "invar m \<Longrightarrow> invar (insert k v m)"
    and invar_remove: "invar m \<Longrightarrow> invar (remove k m)"
begin

definition insert_all :: "('k \<times> 'v) list \<Rightarrow> 'm \<Rightarrow> 'm" where
  "insert_all kvs m = fold (\<lambda>(k, v). insert k v) kvs m"

lemma get_insert_all: "get (insert_all kvs m) = get m ++ map_of (rev kvs)"
proof (induction kvs arbitrary: m)
  case (Cons kv kvs)
  obtain k v where kv: "kv = (k, v)" by fastforce
  have "get (insert_all (kv # kvs) m) = get (insert_all kvs (insert k v m))"
    by (simp add: insert_all_def kv)
  also have "\<dots> = (get m)(k \<mapsto> v) ++ map_of (rev kvs)"
    by (simp only: Cons.IH get_insert)
  finally show ?case
    by (auto simp: kv map_add_def fun_eq_iff split: option.splits)
qed (simp add: insert_all_def)

lemma get_insert_all_distinct:
  "distinct (map fst kvs) \<Longrightarrow> get (insert_all kvs empty) = map_of kvs"
proof -
  assume "distinct (map fst kvs)"
  then have "map_of (rev kvs) = map_of kvs"
    by (intro map_of_inject_set [THEN iffD2]) (auto simp: rev_map [symmetric])
  then show ?thesis by (simp add: get_insert_all get_empty)
qed

lemma invar_insert_all: "invar m \<Longrightarrow> invar (insert_all kvs m)"
  by (induction kvs arbitrary: m) (auto simp: insert_all_def invar_insert)

lemma remove_insert_get: "invar m \<Longrightarrow> get (remove k (insert k v m)) k = None"
  by (simp add: get_remove invar_insert)

lemma remove_twice: "invar m \<Longrightarrow> get (remove k (remove k m)) = get (remove k m)"
  by (simp add: get_remove invar_remove)

end

subsection \<open>The ordered map\<close>

fun map_insert :: "string \<Rightarrow> 'v \<Rightarrow> (string \<times> 'v) list \<Rightarrow> (string \<times> 'v) list" where
  "map_insert k v [] = [(k, v)]"
| "map_insert k v ((k', v') # m) =
     (if k < k' then (k, v) # (k', v') # m
      else if k = k' then (k, v) # m
      else (k', v') # map_insert k v m)"

definition map_remove :: "string \<Rightarrow> (string \<times> 'v) list \<Rightarrow> (string \<times> 'v) list" where
  "map_remove k m = filter (\<lambda>(k', v). k' \<noteq> k) m"

text \<open>The invariant of an ordered map: strictly ascending keys.\<close>

definition map_ok :: "(string \<times> 'v) list \<Rightarrow> bool" where
  "map_ok m \<longleftrightarrow> sorted_wrt (<) (map fst m)"

lemma map_of_map_insert [simp]: "map_of (map_insert k v m) = (map_of m)(k \<mapsto> v)"
  by (induction m) auto

lemma map_of_map_remove [simp]: "map_of (map_remove k m) = (map_of m)(k := None)"
  by (induction m) (auto simp: map_remove_def fun_eq_iff)

lemma fst_map_insert: "fst ` set (map_insert k v m) = insert k (fst ` set m)"
  by (induction k v m rule: map_insert.induct) (simp_all add: insert_commute)

lemma map_ok_map_insert: "map_ok m \<Longrightarrow> map_ok (map_insert k v m)"
proof (induction m)
  case (Cons kv m)
  obtain k' v' where kv: "kv = (k', v')" by fastforce
  from Cons have IH: "map_ok (map_insert k v m)" by (simp add: map_ok_def)
  have "\<forall>x \<in> fst ` set (map_insert k v m). k' < x" if "\<not> k < k'" "k \<noteq> k'"
    using Cons.prems that unfolding fst_map_insert by (auto simp: map_ok_def kv)
  then show ?case
    using Cons.prems IH by (auto simp: map_ok_def kv)
qed (simp add: map_ok_def)

lemma map_ok_map_remove: "map_ok m \<Longrightarrow> map_ok (map_remove k m)"
  by (induction m) (auto simp: map_ok_def map_remove_def)

text \<open>\<open>Map::get\<close> is \<^const>\<open>map_of\<close>.\<close>

interpretation json_store: keyed_store "[]" map_insert map_remove map_of map_ok
  by unfold_locales
     (simp_all add: map_ok_map_insert map_ok_map_remove fun_eq_iff, simp add: map_ok_def)

text \<open>\<open>Map::from_iter\<close>, and what a parser does with the members of an object: later members win.\<close>

definition map_from_members :: "(string \<times> 'v) list \<Rightarrow> (string \<times> 'v) list" where
  "map_from_members kvs = fold (\<lambda>(k, v). map_insert k v) kvs []"

lemma map_of_from_members:
  "distinct (map fst kvs) \<Longrightarrow> map_of (map_from_members kvs) = map_of kvs"
  using json_store.get_insert_all_distinct [of kvs]
  by (simp add: json_store.insert_all_def map_from_members_def)

lemma map_ok_from_members: "map_ok (map_from_members kvs)"
  using json_store.invar_insert_all [OF json_store.invar_empty, of kvs]
  by (simp add: json_store.insert_all_def map_from_members_def)

lemma map_insert_last: "map_ok (m @ [(k, v)]) \<Longrightarrow> map_insert k v m = m @ [(k, v)]"
  by (induction m) (auto simp: map_ok_def)

lemma map_from_members_id: "map_ok m \<Longrightarrow> map_from_members m = m"
proof (induction m rule: rev_induct)
  case (snoc kv m)
  obtain k v where kv: "kv = (k, v)" by fastforce
  from snoc.prems have "map_ok m" by (simp add: map_ok_def sorted_wrt_append)
  then have "map_from_members m = m" by (rule snoc.IH)
  moreover have "map_insert k v m = m @ [(k, v)]"
    using snoc.prems by (simp add: kv map_insert_last)
  ultimately show ?case by (simp add: map_from_members_def kv)
qed (simp add: map_from_members_def)

subsection \<open>Accessors\<close>

fun value_as_u64 :: "jvalue \<Rightarrow> u64 option" where
  "value_as_u64 (Number (PosInt n)) = Some n"
| "value_as_u64 _ = None"

fun value_as_bool :: "jvalue \<Rightarrow> bool option" where
  "value_as_bool (Bool b) = Some b"
| "value_as_bool _ = None"

fun value_as_object :: "jvalue \<Rightarrow> json_map option" where
  "value_as_object (Object m) = Some m"
| "value_as_object _ = None"

definition json_u64 :: "u64 \<Rightarrow> jvalue" where
  "json_u64 n = Number (PosInt n)"

lemma value_as_u64_json [simp]: "value_as_u64 (json_u64 n) = Some n"
  by (simp add: json_u64_def)

subsection \<open>Canonical values\<close>

text \<open>
  \<open>canon v\<close> is the \<open>Value\<close> a parser returns for the text of \<open>v\<close>: the same value with the
  members of every object collected into an ordered map. \<open>value_ok\<close> is the invariant of \<open>Value\<close>:
  ordered maps and valid strings throughout; on such values \<open>canon\<close> is the identity.
\<close>

primrec canon :: "jvalue \<Rightarrow> jvalue" where
  "canon Null = Null"
| "canon (Bool b) = Bool b"
| "canon (Number n) = Number n"
| "canon (String s) = String s"
| "canon (Array vs) = Array (map canon vs)"
| "canon (Object kvs) = Object (map_from_members (map (map_prod id canon) kvs))"

primrec value_ok :: "jvalue \<Rightarrow> bool" where
  "value_ok Null = True"
| "value_ok (Bool b) = True"
| "value_ok (Number n) = True"
| "value_ok (String s) = utf8_valid s"
| "value_ok (Array vs) = list_all id (map value_ok vs)"
| "value_ok (Object kvs) =
     (map_ok kvs \<and> list_all (\<lambda>(k, ok). utf8_valid k \<and> ok) (map (map_prod id value_ok) kvs))"

text \<open>
  What \<open>serde_json\<close> writes and reads back exactly: no floating-point number (their default
  parser may be off by one unit in the last place) and at most 127 nested containers (its
  recursion limit).
\<close>

primrec no_float :: "jvalue \<Rightarrow> bool" where
  "no_float Null = True"
| "no_float (Bool b) = True"
| "no_float (Number n) = (case n of Float _ \<Rightarrow> False | _ \<Rightarrow> True)"
| "no_float (String s) = True"
| "no_float (Array vs) = list_all id (map no_float vs)"
| "no_float (Object kvs) = list_all snd (map (map_prod id no_float) kvs)"

primrec nesting :: "jvalue \<Rightarrow> nat" where
  "nesting Null = 0"
| "nesting (Bool b) = 0"
| "nesting (Number n) = 0"
| "nesting (String s) = 0"
| "nesting (Array vs) = Suc (fold max (map nesting vs) 0)"
| "nesting (Object kvs) = Suc (fold max (map snd (map (map_prod id nesting) kvs)) 0)"

lemma canon_id: "value_ok v \<Longrightarrow> canon v = v"
proof (induction v)
  case (Array vs)
  then have "map canon vs = vs" by (intro map_idI) (auto simp: list_all_iff)
  then show ?case by simp
next
  case (Object kvs)
  have "map (map_prod id canon) kvs = kvs"
  proof (rule map_idI)
    fix kv
    assume kv: "kv \<in> set kvs"
    obtain k v where "kv = (k, v)" by fastforce
    with kv Object show "map_prod id canon kv = kv"
      by (auto simp: list_all_iff)
  qed
  with Object show ?case by (simp add: map_from_members_id)
qed auto

end
