(* ===== verification/Packet.thy ===== *)
theory Packet
  imports Json
begin

section \<open>Packets of the wscall protocol\<close>

text \<open>
  The message model of \<open>crates/wscall-protocol/src/lib.rs\<close>: message types, encryption kinds,
  attachments with their binary sections, error payloads, packet bodies and envelopes, and the
  hand-written JSON serialisation of bodies with its short keys. The lemmas show that an
  attachment section is read back exactly with the bytes after it untouched, and that a
  body is read back from its JSON up to what the wire format drops on purpose.
\<close>

subsection \<open>Errors\<close>

text \<open>
  Errors of \<open>serde\<close>: a message of the code (\<open>Custom\<close>), the crate's own kinds, and a syntax error
  of the JSON parser.
\<close>

datatype de_error =
    Custom string
  | MissingField string
  | UnknownField string
  | InvalidType
  | InvalidValue
  | InvalidLength nat
  | JsonSyntax string

datatype protocol_error =
    FrameTooShort
  | FrameLengthMismatch nat nat
  | PayloadTooLarge nat nat
  | FrameTooLarge nat nat
  | UnknownMessageType u8
  | UnknownEncryption u8
  | UnsupportedEncryption u8
  | MissingEncryptionKey string
  | InvalidEncryptionKey string
  | Random string
  | EncryptedPayloadTooShort string nat nat
  | EncryptionFailed string
  | DecryptionFailed string
  | InvalidEcdhPublicKey nat nat
  | EcdhHandshake string
  | MessageTypeMismatch
  | InvalidAttachmentEncoding string
  | JsonError de_error

subsection \<open>Message types and encryption kinds\<close>

datatype message_type = Api | Event | Auth

fun message_type_u8 :: "message_type \<Rightarrow> u8" where
  "message_type_u8 Api = 0x00"
| "message_type_u8 Event = 0x01"
| "message_type_u8 Auth = 0x02"

definition message_type_try_from :: "u8 \<Rightarrow> protocol_error + message_type" where
  "message_type_try_from b =
     (if b = 0x00 then Inr Api
      else if b = 0x01 then Inr Event
      else if b = 0x02 then Inr Auth
      else Inl (UnknownMessageType b))"

datatype encryption_kind = NoEncryption | ChaCha20 | Aes256

fun encryption_kind_u8 :: "encryption_kind \<Rightarrow> u8" where
  "encryption_kind_u8 NoEncryption = 0x00"
| "encryption_kind_u8 ChaCha20 = 0x01"
| "encryption_kind_u8 Aes256 = 0x02"

definition encryption_kind_try_from :: "u8 \<Rightarrow> protocol_error + encryption_kind" where
  "encryption_kind_try_from b =
     (if b = 0x00 then Inr NoEncryption
      else if b = 0x01 then Inr ChaCha20
      else if b = 0x02 then Inr Aes256
      else Inl (UnknownEncryption b))"

lemma message_type_roundtrip [simp]: "message_type_try_from (message_type_u8 t) = Inr t"
  by (cases t) (simp_all add: message_type_try_from_def)

lemma encryption_kind_roundtrip [simp]: "encryption_kind_try_from (encryption_kind_u8 e) = Inr e"
  by (cases e) (simp_all add: encryption_kind_try_from_def)

lemma message_type_try_from_Inr:
  "message_type_try_from b = Inr t \<longleftrightarrow> b = message_type_u8 t"
  by (cases t) (auto simp: message_type_try_from_def)

subsection \<open>File attachments\<close>

record file_attachment =
  fa_id :: string
  fa_name :: string
  fa_content_type :: string
  fa_data :: bytes

definition inline_bytes :: "string \<Rightarrow> string \<Rightarrow> string \<Rightarrow> bytes \<Rightarrow> file_attachment" where
  "inline_bytes i n ct bs = \<lparr>fa_id = i, fa_name = n, fa_content_type = ct, fa_data = bs\<rparr>"

definition inline_text :: "string \<Rightarrow> string \<Rightarrow> string \<Rightarrow> string \<Rightarrow> file_attachment" where
  "inline_text i n ct t = inline_bytes i n ct (as_bytes t)"

definition attachment_size :: "file_attachment \<Rightarrow> nat" where
  "attachment_size a = length (fa_data a)"

definition param_ref :: "string \<Rightarrow> jvalue" where
  "param_ref i = Object [(''$file'', String i)]"

definition wire_size :: "file_attachment \<Rightarrow> nat" where
  "wire_size a = 1 + length (fa_id a) + 1 + length (fa_name a) + 1 + length (fa_content_type a)
     + 4 + length (fa_data a)"

definition write_wire :: "file_attachment \<Rightarrow> bytes \<Rightarrow> bytes" where
  "write_wire a buf =
     buf @ [as_u8 (length (fa_id a))] @ as_bytes (fa_id a)
         @ [as_u8 (length (fa_name a))] @ as_bytes (fa_name a)
         @ [as_u8 (length (fa_content_type a))] @ as_bytes (fa_content_type a)
         @ to_be_bytes (as_u32 (length (fa_data a))) @ fa_data a"

text \<open>
  \<open>read_wire\<close> reads three length-prefixed strings in the same way and then the payload; the
  position \<open>pos\<close> is threaded through. \<open>read_short\<close> is the part the source repeats for \<open>id\<close>,
  \<open>name\<close> and \<open>content_type\<close>, with the two messages of each.
\<close>

definition read_short ::
  "string \<Rightarrow> string \<Rightarrow> bytes \<Rightarrow> nat \<Rightarrow> protocol_error + (string \<times> nat)" where
  "read_short err_len err_str data pos =
     (if length data \<le> pos then Inl (InvalidAttachmentEncoding err_len)
      else let len = unat (data ! pos); pos = pos + 1 in
        if pos + len > length data then Inl (InvalidAttachmentEncoding err_str)
        else Inr (from_utf8_lossy (subslice pos (pos + len) data), pos + len))"

definition read_wire :: "bytes \<Rightarrow> protocol_error + (file_attachment \<times> bytes)" where
  "read_wire data =
     rbind (read_short ''truncated id_len'' ''truncated id'' data 0) (\<lambda>(i, pos).
     rbind (read_short ''truncated name_len'' ''truncated name'' data pos) (\<lambda>(n, pos).
     rbind (read_short ''truncated ct_len'' ''truncated content_type'' data pos) (\<lambda>(ct, pos).
       if pos + 4 > length data then Inl (InvalidAttachmentEncoding ''truncated data_len'')
       else let data_len = unat (be_u32_at data pos); pos = pos + 4 in
         if pos + data_len > length data then Inl (InvalidAttachmentEncoding ''truncated data'')
         else Inr (\<lparr>fa_id = i, fa_name = n, fa_content_type = ct,
                    fa_data = subslice pos (pos + data_len) data\<rparr>,
                   drop (pos + data_len) data))))"

text \<open>
  What an attachment must satisfy for its section to carry it: the length prefixes are one
  byte and four bytes wide, and the strings satisfy the invariant of \<open>String\<close>.
\<close>

definition attachment_ok :: "file_attachment \<Rightarrow> bool" where
  "attachment_ok a \<longleftrightarrow>
     length (fa_id a) < 256 \<and> length (fa_name a) < 256 \<and> length (fa_content_type a) < 256 \<and>
     length (fa_data a) < 2 ^ 32 \<and>
     utf8_valid (fa_id a) \<and> utf8_valid (fa_name a) \<and> utf8_valid (fa_content_type a)"

lemma length_write_wire [wire_simps]: "length (write_wire a buf) = length buf + wire_size a"
  by (simp add: write_wire_def wire_size_def)

lemma write_wire_append: "write_wire a buf = buf @ write_wire a []"
  by (simp add: write_wire_def)

lemma read_short_append:
  assumes "length s < 256" "utf8_valid s"
  shows "read_short e1 e2 (pre @ as_u8 (length s) # as_bytes s @ rest) (length pre)
    = Inr (s, length pre + 1 + length s)"
proof -
  let ?data = "pre @ as_u8 (length s) # as_bytes s @ rest"
  have "subslice (length (pre @ [as_u8 (length s)]))
      (length (pre @ [as_u8 (length s)]) + length (as_bytes s))
      ((pre @ [as_u8 (length s)]) @ as_bytes s @ rest) = as_bytes s"
    by (rule subslice_append)
  then have "subslice (length pre + 1) (length pre + 1 + length s) ?data = as_bytes s"
    by simp
  then show ?thesis using assms by (simp add: read_short_def Let_def)
qed

lemma read_short_at:
  assumes "length s < 256" "utf8_valid s"
    and "data = pre @ as_u8 (length s) # as_bytes s @ rest" "pos = length pre"
  shows "read_short e1 e2 data pos = Inr (s, pos + 1 + length s)"
  using read_short_append [OF assms(1,2), of e1 e2 pre rest] assms(3,4) by simp

lemma be_u32_at_pos:
  "data = pre @ to_be_bytes w @ rest \<Longrightarrow> pos = length pre \<Longrightarrow> be_u32_at data pos = w"
  by simp

lemma subslice_at:
  "data = pre @ mid @ rest \<Longrightarrow> pos = length pre \<Longrightarrow> n = length mid \<Longrightarrow> subslice pos (pos + n) data = mid"
  by simp

lemma drop_at: "data = pre @ rest \<Longrightarrow> n = length pre \<Longrightarrow> drop n data = rest"
  by simp

lemma read_wire_write_wire:
  assumes ok: "attachment_ok a"
  shows "read_wire (write_wire a [] @ rest) = Inr (a, rest)"
proof -
  let ?i = "as_u8 (length (fa_id a)) # as_bytes (fa_id a)"
  let ?n = "as_u8 (length (fa_name a)) # as_bytes (fa_name a)"
  let ?c = "as_u8 (length (fa_content_type a)) # as_bytes (fa_content_type a)"
  let ?l = "to_be_bytes (as_u32 (length (fa_data a)))"
  define data where "data = write_wire a [] @ rest"
  have data: "data = ?i @ ?n @ ?c @ ?l @ fa_data a @ rest"
    by (simp add: data_def write_wire_def)
  define p1 where "p1 = 0 + 1 + length (fa_id a)"
  define p2 where "p2 = p1 + 1 + length (fa_name a)"
  define p3 where "p3 = p2 + 1 + length (fa_content_type a)"
  have r1: "read_short e1 e2 data 0 = Inr (fa_id a, p1)" for e1 e2
    unfolding p1_def using ok
    by (intro read_short_at [where pre = "[]" and rest = "?n @ ?c @ ?l @ fa_data a @ rest"])
       (auto simp: attachment_ok_def data)
  have r2: "read_short e1 e2 data p1 = Inr (fa_name a, p2)" for e1 e2
    unfolding p2_def using ok
    by (intro read_short_at [where pre = "?i" and rest = "?c @ ?l @ fa_data a @ rest"])
       (auto simp: attachment_ok_def data p1_def)
  have r3: "read_short e1 e2 data p2 = Inr (fa_content_type a, p3)" for e1 e2
    unfolding p3_def using ok
    by (intro read_short_at [where pre = "?i @ ?n" and rest = "?l @ fa_data a @ rest"])
       (auto simp: attachment_ok_def data p1_def p2_def)
  have p3: "p3 = length (?i @ ?n @ ?c)" by (simp add: p1_def p2_def p3_def)
  have l: "be_u32_at data p3 = as_u32 (length (fa_data a))"
    by (rule be_u32_at_pos [where pre = "?i @ ?n @ ?c" and rest = "fa_data a @ rest"])
       (simp_all add: data p3)
  have d: "subslice (p3 + 4) (p3 + 4 + length (fa_data a)) data = fa_data a"
    by (rule subslice_at [where pre = "?i @ ?n @ ?c @ ?l" and rest = rest])
       (simp_all add: data p3)
  have dr: "drop (p3 + 4 + length (fa_data a)) data = rest"
    by (rule drop_at [where pre = "?i @ ?n @ ?c @ ?l @ fa_data a"]) (simp_all add: data p3)
  have len: "length data = p3 + 4 + length (fa_data a) + length rest"
    by (simp add: data p3)
  have n: "unat (as_u32 (length (fa_data a))) = length (fa_data a)"
    using ok by (simp add: attachment_ok_def)
  show ?thesis
    unfolding data_def [symmetric] read_wire_def
    by (simp add: r1 r2 r3 l n len d dr Let_def)
qed

text \<open>
  Whatever bytes arrive, a successful read consumes a non-empty prefix of the buffer, and the
  strings it builds satisfy the invariant of \<open>String\<close>.
\<close>

lemma read_short_bounds:
  "read_short e1 e2 data pos = Inr (s, pos') \<Longrightarrow> pos < pos' \<and> pos' \<le> length data \<and> utf8_valid s"
  by (auto simp: read_short_def Let_def split: if_splits)

lemma read_wire_consumes:
  assumes "read_wire data = Inr (a, rest)"
  shows "\<exists>n. 7 \<le> n \<and> n \<le> length data \<and> rest = drop n data \<and>
    utf8_valid (fa_id a) \<and> utf8_valid (fa_name a) \<and> utf8_valid (fa_content_type a)"
proof -
  from assms obtain i p1 n p2 ct p3 where
      r: "read_short ''truncated id_len'' ''truncated id'' data 0 = Inr (i, p1)"
         "read_short ''truncated name_len'' ''truncated name'' data p1 = Inr (n, p2)"
         "read_short ''truncated ct_len'' ''truncated content_type'' data p2 = Inr (ct, p3)"
    and fin: "p3 + 4 + unat (be_u32_at data p3) \<le> length data"
      "rest = drop (p3 + 4 + unat (be_u32_at data p3)) data"
      "fa_id a = i" "fa_name a = n" "fa_content_type a = ct"
    unfolding read_wire_def Let_def
    by (auto split: if_splits)
  have "0 < p1" "p1 < p2" "p2 < p3" "utf8_valid i" "utf8_valid n" "utf8_valid ct"
    using r by (auto dest!: read_short_bounds)
  with fin show ?thesis
    by (intro exI [of _ "p3 + 4 + unat (be_u32_at data p3)"]) auto
qed

subsection \<open>Reading attachments and errors from JSON values\<close>

text \<open>Primitive targets of \<open>serde_json::from_value\<close>.\<close>

fun de_string :: "jvalue \<Rightarrow> de_error + string" where
  "de_string (String s) = Inr s"
| "de_string _ = Inl InvalidType"

fun de_uint :: "nat \<Rightarrow> jvalue \<Rightarrow> de_error + nat" where
  "de_uint bound (Number (PosInt n)) = (if unat n < bound then Inr (unat n) else Inl InvalidValue)"
| "de_uint bound (Number (NegInt n)) = Inl InvalidValue"
| "de_uint bound _ = Inl InvalidType"

fun de_list :: "(jvalue \<Rightarrow> de_error + 'a) \<Rightarrow> jvalue list \<Rightarrow> de_error + 'a list" where
  "de_list f [] = Inr []"
| "de_list f (v # vs) = rbind (f v) (\<lambda>x. rbind (de_list f vs) (\<lambda>xs. Inr (x # xs)))"

fun de_vec :: "(jvalue \<Rightarrow> de_error + 'a) \<Rightarrow> jvalue \<Rightarrow> de_error + 'a list" where
  "de_vec f (Array vs) = de_list f vs"
| "de_vec f _ = Inl InvalidType"

definition de_bytes :: "jvalue \<Rightarrow> de_error + bytes" where
  "de_bytes v = rbind (de_vec (de_uint 256) v) (\<lambda>ns. Inr (map as_u8 ns))"

definition ser_bytes :: "bytes \<Rightarrow> jvalue" where
  "ser_bytes bs = Array (map (\<lambda>b. json_u64 (ucast b)) bs)"

text \<open>
  The hand-written \<open>Serialize\<close> and \<open>Deserialize\<close> of \<open>FileAttachment\<close>: \<open>visit_map\<close> reads the
  members in the order of the map and refuses unknown keys, \<open>visit_seq\<close> reads four elements.
\<close>

definition attachment_to_json :: "file_attachment \<Rightarrow> jvalue" where
  "attachment_to_json a = Object
     [(''id'', String (fa_id a)), (''name'', String (fa_name a)),
      (''content_type'', String (fa_content_type a)), (''data'', ser_bytes (fa_data a))]"

fun attachment_visit_map ::
  "json_map \<Rightarrow> string option \<Rightarrow> string option \<Rightarrow> string option \<Rightarrow> bytes option
     \<Rightarrow> de_error + file_attachment" where
  "attachment_visit_map [] i n ct d =
     rbind (ok_or (MissingField ''id'') i) (\<lambda>i.
     rbind (ok_or (MissingField ''name'') n) (\<lambda>n.
     rbind (ok_or (MissingField ''content_type'') ct) (\<lambda>ct.
     rbind (ok_or (MissingField ''data'') d) (\<lambda>d.
       Inr \<lparr>fa_id = i, fa_name = n, fa_content_type = ct, fa_data = d\<rparr>))))"
| "attachment_visit_map ((k, v) # m) i n ct d =
     (if k = ''id'' then rbind (de_string v) (\<lambda>s. attachment_visit_map m (Some s) n ct d)
      else if k = ''name'' then rbind (de_string v) (\<lambda>s. attachment_visit_map m i (Some s) ct d)
      else if k = ''content_type'' then rbind (de_string v) (\<lambda>s. attachment_visit_map m i n (Some s) d)
      else if k = ''data'' then rbind (de_bytes v) (\<lambda>bs. attachment_visit_map m i n ct (Some bs))
      else Inl (UnknownField k))"

definition attachment_visit_seq :: "jvalue list \<Rightarrow> de_error + file_attachment" where
  "attachment_visit_seq vs =
     (if length vs < 1 then Inl (InvalidLength 0)
      else rbind (de_string (vs ! 0)) (\<lambda>i.
      if length vs < 2 then Inl (InvalidLength 1)
      else rbind (de_string (vs ! 1)) (\<lambda>n.
      if length vs < 3 then Inl (InvalidLength 2)
      else rbind (de_string (vs ! 2)) (\<lambda>ct.
      if length vs < 4 then Inl (InvalidLength 3)
      else rbind (de_bytes (vs ! 3)) (\<lambda>d.
      if length vs > 4 then Inl (InvalidLength (length vs))
      else Inr \<lparr>fa_id = i, fa_name = n, fa_content_type = ct, fa_data = d\<rparr>)))))"

fun attachment_from_json :: "jvalue \<Rightarrow> de_error + file_attachment" where
  "attachment_from_json (Object m) = attachment_visit_map m None None None None"
| "attachment_from_json (Array vs) = attachment_visit_seq vs"
| "attachment_from_json _ = Inl InvalidType"

lemma de_list_bytes:
  "de_list (de_uint 256) (map (\<lambda>b. json_u64 (ucast b)) (bs :: bytes)) = Inr (map unat bs)"
  by (induction bs) (auto simp: json_u64_def)

lemma de_ser_bytes [simp]: "de_bytes (ser_bytes bs) = Inr bs"
  by (simp add: de_bytes_def ser_bytes_def de_list_bytes comp_def)

text \<open>\<open>ErrorPayload\<close> derives both traits; \<open>details\<close> is skipped when \<open>None\<close>, and null reads as \<open>None\<close>.\<close>

record error_payload =
  ep_code :: string
  ep_message :: string
  ep_status :: u16
  ep_details :: "jvalue option"

definition error_payload_to_json :: "error_payload \<Rightarrow> jvalue" where
  "error_payload_to_json e = Object
     ([(''code'', String (ep_code e)), (''message'', String (ep_message e)),
       (''status'', json_u64 (ucast (ep_status e)))] @
      (case ep_details e of None \<Rightarrow> [] | Some d \<Rightarrow> [(''details'', d)]))"

definition de_option_value :: "jvalue \<Rightarrow> jvalue option" where
  "de_option_value v = (if v = Null then None else Some v)"

definition de_u16 :: "jvalue \<Rightarrow> de_error + u16" where
  "de_u16 v = rbind (de_uint 65536 v) (\<lambda>n. Inr (word_of_nat n))"

fun error_payload_visit_map ::
  "json_map \<Rightarrow> string option \<Rightarrow> string option \<Rightarrow> u16 option \<Rightarrow> jvalue option
     \<Rightarrow> de_error + error_payload" where
  "error_payload_visit_map [] c m st d =
     rbind (ok_or (MissingField ''code'') c) (\<lambda>c.
     rbind (ok_or (MissingField ''message'') m) (\<lambda>m.
     rbind (ok_or (MissingField ''status'') st) (\<lambda>st.
       Inr \<lparr>ep_code = c, ep_message = m, ep_status = st, ep_details = d\<rparr>)))"
| "error_payload_visit_map ((k, v) # kvs) c m st d =
     (if k = ''code'' then rbind (de_string v) (\<lambda>s. error_payload_visit_map kvs (Some s) m st d)
      else if k = ''message'' then rbind (de_string v) (\<lambda>s. error_payload_visit_map kvs c (Some s) st d)
      else if k = ''status'' then rbind (de_u16 v) (\<lambda>n. error_payload_visit_map kvs c m (Some n) d)
      else if k = ''details'' then error_payload_visit_map kvs c m st (de_option_value v)
      else error_payload_visit_map kvs c m st d)"

definition error_payload_visit_seq :: "jvalue list \<Rightarrow> de_error + error_payload" where
  "error_payload_visit_seq vs =
     (if length vs < 1 then Inl (InvalidLength 0)
      else rbind (de_string (vs ! 0)) (\<lambda>c.
      if length vs < 2 then Inl (InvalidLength 1)
      else rbind (de_string (vs ! 1)) (\<lambda>m.
      if length vs < 3 then Inl (InvalidLength 2)
      else rbind (de_u16 (vs ! 2)) (\<lambda>st.
      if length vs < 4 then Inl (InvalidLength 3)
      else if length vs > 4 then Inl (InvalidLength (length vs))
      else Inr \<lparr>ep_code = c, ep_message = m, ep_status = st,
                ep_details = de_option_value (vs ! 3)\<rparr>))))"

fun error_payload_from_json :: "jvalue \<Rightarrow> de_error + error_payload" where
  "error_payload_from_json (Object m) = error_payload_visit_map m None None None None"
| "error_payload_from_json (Array vs) = error_payload_visit_seq vs"
| "error_payload_from_json _ = Inl InvalidType"

text \<open>Reading an error back gives it with \<open>details: null\<close> turned into no details.\<close>

definition error_payload_norm :: "error_payload \<Rightarrow> error_payload" where
  "error_payload_norm e = e\<lparr>ep_details := Option.bind (ep_details e) de_option_value\<rparr>"

lemma de_u16_json [simp]: "de_u16 (json_u64 (ucast (w :: u16))) = Inr w"
  by (simp add: de_u16_def json_u64_def)

lemma canon_json_u64 [simp]: "canon (json_u64 n) = json_u64 n"
  by (simp add: json_u64_def)

lemma error_payload_roundtrip:
  assumes "\<forall>d. ep_details e = Some d \<longrightarrow> value_ok d"
  shows "error_payload_from_json (canon (error_payload_to_json e)) = Inr (error_payload_norm e)"
proof (cases "ep_details e")
  case None
  then show ?thesis
    by (simp add: error_payload_to_json_def map_from_members_def error_payload_norm_def
        de_option_value_def)
next
  case (Some d)
  with assms have "canon d = d" by (simp add: canon_id)
  with Some show ?thesis
    by (simp add: error_payload_to_json_def map_from_members_def error_payload_norm_def)
qed

subsection \<open>Packet bodies\<close>

definition K_API_REQUEST :: u8 where "K_API_REQUEST = 0"
definition K_EVENT_EMIT :: u8 where "K_EVENT_EMIT = 1"
definition K_API_RESPONSE :: u8 where "K_API_RESPONSE = 2"
definition K_EVENT_ACK :: u8 where "K_EVENT_ACK = 3"
definition K_AUTH_REQUEST :: u8 where "K_AUTH_REQUEST = 4"
definition K_AUTH_RESPONSE :: u8 where "K_AUTH_RESPONSE = 5"

lemmas K_defs = K_API_REQUEST_def K_EVENT_EMIT_def K_API_RESPONSE_def K_EVENT_ACK_def
  K_AUTH_REQUEST_def K_AUTH_RESPONSE_def

text \<open>
  The fields of each variant are in the order of the source:
  \<open>ApiRequest request_id route params attachments metadata\<close>,
  \<open>ApiResponse request_id ok status data error metadata\<close>,
  \<open>EventEmit event_id name data attachments metadata expect_ack\<close>,
  \<open>EventAck event_id ok receipt error\<close>, \<open>AuthRequest credential\<close>,
  \<open>AuthResponse ok session_timeout_secs error\<close>.
\<close>

datatype packet_body =
    ApiRequest u64 string jvalue "file_attachment list" jvalue
  | ApiResponse u64 bool u16 jvalue "error_payload option" jvalue
  | EventEmit u64 string json_map "file_attachment list" jvalue bool
  | EventAck u64 bool jvalue "error_payload option"
  | AuthRequest string
  | AuthResponse bool "u64 option" "error_payload option"

fun metadata_is_empty :: "jvalue \<Rightarrow> bool" where
  "metadata_is_empty v = (v = Null \<or> (case value_as_object v of Some m \<Rightarrow> m = [] | None \<Rightarrow> False))"

definition json_tag :: "u8 \<Rightarrow> string \<times> jvalue" where
  "json_tag k = (''k'', json_u64 (ucast k))"

text \<open>Members are listed in the order \<open>serialize_entry\<close> emits them.\<close>

definition opt_meta :: "jvalue \<Rightarrow> json_map" where
  "opt_meta meta = (if \<not> metadata_is_empty meta then [(''m'', meta)] else [])"

definition opt_error :: "error_payload option \<Rightarrow> json_map" where
  "opt_error err = (case err of Some e \<Rightarrow> [(''er'', error_payload_to_json e)] | None \<Rightarrow> [])"

fun body_serialize :: "packet_body \<Rightarrow> jvalue" where
  "body_serialize (ApiRequest request_id route params attachments meta) = Object
     ([json_tag K_API_REQUEST, (''i'', json_u64 request_id), (''r'', String route), (''p'', params)]
      @ opt_meta meta)"
| "body_serialize (ApiResponse request_id okay status data err meta) = Object
     ([json_tag K_API_RESPONSE, (''i'', json_u64 request_id), (''o'', Bool okay),
       (''s'', json_u64 (ucast status)), (''d'', data)] @ opt_error err @ opt_meta meta)"
| "body_serialize (EventEmit event_id name data attachments meta expect_ack) = Object
     ([json_tag K_EVENT_EMIT, (''i'', json_u64 event_id), (''n'', String name), (''d'', Object data)]
      @ opt_meta meta @ [(''e'', Bool expect_ack)])"
| "body_serialize (EventAck event_id okay receipt err) = Object
     ([json_tag K_EVENT_ACK, (''i'', json_u64 event_id), (''o'', Bool okay), (''rc'', receipt)]
      @ opt_error err)"
| "body_serialize (AuthRequest credential) = Object
     [json_tag K_AUTH_REQUEST, (''c'', String credential)]"
| "body_serialize (AuthResponse okay session_timeout_secs err) = Object
     ([json_tag K_AUTH_RESPONSE, (''o'', Bool okay)]
      @ (case session_timeout_secs of Some st \<Rightarrow> [(''st'', json_u64 st)] | None \<Rightarrow> [])
      @ opt_error err)"

text \<open>
  The \<open>take_*\<close> helpers move a field out of the map: each returns its value and the map
  without the key.
\<close>

definition take_u64 :: "json_map \<Rightarrow> string \<Rightarrow> de_error + (u64 \<times> json_map)" where
  "take_u64 m key =
     rbind (ok_or (Custom (''missing or non-numeric '' @ quoted key @ '' field in packet body''))
              (Option.bind (map_of m key) value_as_u64))
       (\<lambda>n. Inr (n, map_remove key m))"

definition take_string :: "json_map \<Rightarrow> string \<Rightarrow> de_error + (string \<times> json_map)" where
  "take_string m key =
     (case map_of m key of
        Some (String s) \<Rightarrow> Inr (s, map_remove key m)
      | _ \<Rightarrow> Inl (Custom (''missing or non-string '' @ quoted key @ '' field in packet body'')))"

definition take_object :: "json_map \<Rightarrow> string \<Rightarrow> de_error + (json_map \<times> json_map)" where
  "take_object m key =
     (case map_of m key of
        None \<Rightarrow> Inr ([], map_remove key m)
      | Some (Object obj) \<Rightarrow> Inr (obj, map_remove key m)
      | Some _ \<Rightarrow> Inl (Custom (quoted key @ '' field must be a JSON object'')))"

definition take_bool :: "json_map \<Rightarrow> string \<Rightarrow> bool \<times> json_map" where
  "take_bool m key =
     ((case Option.bind (map_of m key) value_as_bool of Some b \<Rightarrow> b | None \<Rightarrow> False),
      map_remove key m)"

definition take_u16 :: "json_map \<Rightarrow> string \<Rightarrow> u16 \<times> json_map" where
  "take_u16 m key =
     (ucast (case Option.bind (map_of m key) value_as_u64 of Some n \<Rightarrow> n | None \<Rightarrow> 0),
      map_remove key m)"

definition take_value :: "json_map \<Rightarrow> string \<Rightarrow> jvalue \<times> json_map" where
  "take_value m key =
     ((case map_of m key of Some v \<Rightarrow> v | None \<Rightarrow> Null), map_remove key m)"

definition take_attachments :: "json_map \<Rightarrow> de_error + (file_attachment list \<times> json_map)" where
  "take_attachments m =
     (case map_of m ''a'' of
        None \<Rightarrow> Inr ([], map_remove ''a'' m)
      | Some v \<Rightarrow> rbind (de_vec attachment_from_json v) (\<lambda>as. Inr (as, map_remove ''a'' m)))"

definition take_error :: "json_map \<Rightarrow> de_error + (error_payload option \<times> json_map)" where
  "take_error m =
     (case map_of m ''er'' of
        None \<Rightarrow> Inr (None, map_remove ''er'' m)
      | Some v \<Rightarrow> rbind (error_payload_from_json v) (\<lambda>e. Inr (Some e, map_remove ''er'' m)))"

lemmas take_defs = take_u64_def take_string_def take_object_def take_bool_def take_u16_def
  take_value_def take_attachments_def take_error_def

definition body_deserialize :: "jvalue \<Rightarrow> de_error + packet_body" where
  "body_deserialize v =
     rbind (ok_or (Custom ''packet body must be a JSON object'') (value_as_object v)) (\<lambda>m.
     rbind (ok_or (Custom (''missing or non-numeric '' @ quoted ''k'' @ '' field in packet body''))
              (Option.bind (map_of m ''k'') value_as_u64)) (\<lambda>k64.
     if unat k64 \<ge> 256 then Inl (Custom (quoted ''k'' @ '' value '' @ show_nat (unat k64) @ '' is outside the valid range''))
     else let k = ucast k64 :: u8 in
       if k = K_API_REQUEST then
         rbind (take_u64 m ''i'') (\<lambda>(request_id, m).
         rbind (take_string m ''r'') (\<lambda>(route, m).
         let (params, m) = take_value m ''p'' in
         rbind (take_attachments m) (\<lambda>(attachments, m).
         let (meta, m) = take_value m ''m'' in
         Inr (ApiRequest request_id route params attachments meta))))
       else if k = K_EVENT_EMIT then
         rbind (take_u64 m ''i'') (\<lambda>(event_id, m).
         rbind (take_string m ''n'') (\<lambda>(name, m).
         rbind (take_object m ''d'') (\<lambda>(data, m).
         rbind (take_attachments m) (\<lambda>(attachments, m).
         let (meta, m) = take_value m ''m''; (expect_ack, m) = take_bool m ''e'' in
         Inr (EventEmit event_id name data attachments meta expect_ack)))))
       else if k = K_API_RESPONSE then
         rbind (take_u64 m ''i'') (\<lambda>(request_id, m).
         let (okay, m) = take_bool m ''o''; (status, m) = take_u16 m ''s'';
             (data, m) = take_value m ''d'' in
         rbind (take_error m) (\<lambda>(err, m).
         let (meta, m) = take_value m ''m'' in
         Inr (ApiResponse request_id okay status data err meta)))
       else if k = K_EVENT_ACK then
         rbind (take_u64 m ''i'') (\<lambda>(event_id, m).
         let (okay, m) = take_bool m ''o''; (receipt, m) = take_value m ''rc'' in
         rbind (take_error m) (\<lambda>(err, m). Inr (EventAck event_id okay receipt err)))
       else if k = K_AUTH_REQUEST then
         rbind (take_string m ''c'') (\<lambda>(credential, m). Inr (AuthRequest credential))
       else if k = K_AUTH_RESPONSE then
         (let (okay, m) = take_bool m ''o'';
              st = Option.bind (map_of m ''st'') value_as_u64;
              m = map_remove ''st'' m in
          rbind (take_error m) (\<lambda>(err, m). Inr (AuthResponse okay st err)))
       else Inl (Custom (''unknown '' @ quoted ''k'' @ '' value: '' @ show_nat (unat k)))))"

text \<open>
  What reading back changes: attachments travel outside the JSON, empty metadata is not
  written and reads as null, and error details of null read as absent.
\<close>

definition meta_norm :: "jvalue \<Rightarrow> jvalue" where
  "meta_norm meta = (if metadata_is_empty meta then Null else meta)"

fun body_norm :: "packet_body \<Rightarrow> packet_body" where
  "body_norm (ApiRequest i r p as m) = ApiRequest i r p [] (meta_norm m)"
| "body_norm (ApiResponse i b s d e m) = ApiResponse i b s d (map_option error_payload_norm e) (meta_norm m)"
| "body_norm (EventEmit i n d as m x) = EventEmit i n d [] (meta_norm m) x"
| "body_norm (EventAck i b rc e) = EventAck i b rc (map_option error_payload_norm e)"
| "body_norm (AuthRequest c) = AuthRequest c"
| "body_norm (AuthResponse b st e) = AuthResponse b st (map_option error_payload_norm e)"

text \<open>The invariants of the Rust types of the fields.\<close>

definition payload_ok :: "error_payload \<Rightarrow> bool" where
  "payload_ok e \<longleftrightarrow> utf8_valid (ep_code e) \<and> utf8_valid (ep_message e) \<and>
     (case ep_details e of None \<Rightarrow> True | Some d \<Rightarrow> value_ok d)"

fun body_ok :: "packet_body \<Rightarrow> bool" where
  "body_ok (ApiRequest i r p as m) \<longleftrightarrow> utf8_valid r \<and> value_ok p \<and> value_ok m"
| "body_ok (ApiResponse i b s d e m) \<longleftrightarrow> value_ok d \<and> pred_option payload_ok e \<and> value_ok m"
| "body_ok (EventEmit i n d as m x) \<longleftrightarrow> utf8_valid n \<and> value_ok (Object d) \<and> value_ok m"
| "body_ok (EventAck i b rc e) \<longleftrightarrow> value_ok rc \<and> pred_option payload_ok e"
| "body_ok (AuthRequest c) \<longleftrightarrow> utf8_valid c"
| "body_ok (AuthResponse b st e) \<longleftrightarrow> pred_option payload_ok e"

lemma canon_Object:
  "canon (Object kvs) = Object (map_from_members (map (map_prod id canon) kvs))"
  by simp

lemma ucast_u16_u64_u16 [simp]: "ucast (ucast (w :: u16) :: u64) = w"
  by (rule bit_word_eqI) (auto simp: bit_simps dest: bit_imp_le_length)

lemma payload_read_back:
  "payload_ok e \<Longrightarrow>
   error_payload_from_json (canon (error_payload_to_json e)) = Inr (error_payload_norm e)"
  by (rule error_payload_roundtrip) (auto simp: payload_ok_def)

lemmas body_read_simps = take_defs map_of_from_members json_tag_def opt_meta_def opt_error_def
  meta_norm_def body_deserialize_def K_defs Let_def canon_id payload_read_back

lemma canon_members: "value_ok (Object d) \<Longrightarrow> map_from_members (map (map_prod id canon) d) = d"
  using canon_id [of "Object d"] by simp

lemma body_roundtrip:
  assumes "body_ok b"
  shows "body_deserialize (canon (body_serialize b)) = Inr (body_norm b)"
  using assms
proof (cases b)
  case (ApiRequest i r p as m)
  with assms show ?thesis
    by (simp add: body_read_simps del: metadata_is_empty.simps)
next
  case (ApiResponse i ok st d e m)
  with assms show ?thesis
    by (cases e) (simp_all add: body_read_simps del: metadata_is_empty.simps)
next
  case (EventEmit i n d as m x)
  with assms have "map_from_members (map (map_prod id canon) d) = d"
    by (intro canon_members) simp
  with EventEmit assms show ?thesis
    by (simp add: body_read_simps del: metadata_is_empty.simps)
next
  case (EventAck i ok rc e)
  with assms show ?thesis by (cases e) (simp_all add: body_read_simps)
next
  case (AuthRequest c)
  with assms show ?thesis by (simp add: body_read_simps)
next
  case (AuthResponse ok st e)
  with assms show ?thesis by (cases e; cases st) (simp_all add: body_read_simps)
qed

subsection \<open>Message type and attachments of a body; envelopes\<close>

fun body_message_type :: "packet_body \<Rightarrow> message_type" where
  "body_message_type (ApiRequest _ _ _ _ _) = Api"
| "body_message_type (ApiResponse _ _ _ _ _ _) = Api"
| "body_message_type (EventEmit _ _ _ _ _ _) = Event"
| "body_message_type (EventAck _ _ _ _) = Event"
| "body_message_type (AuthRequest _) = Auth"
| "body_message_type (AuthResponse _ _ _) = Auth"

fun body_attachments :: "packet_body \<Rightarrow> file_attachment list" where
  "body_attachments (ApiRequest _ _ _ attachments _) = attachments"
| "body_attachments (EventEmit _ _ _ attachments _ _) = attachments"
| "body_attachments _ = []"

fun set_attachments :: "file_attachment list \<Rightarrow> packet_body \<Rightarrow> packet_body" where
  "set_attachments attachments (ApiRequest i r p _ m) = ApiRequest i r p attachments m"
| "set_attachments attachments (EventEmit i n d _ m x) = EventEmit i n d attachments m x"
| "set_attachments attachments b = b"

record packet_envelope =
  pe_message_type :: message_type
  pe_encryption :: encryption_kind
  pe_body :: packet_body

definition envelope_new :: "packet_body \<Rightarrow> packet_envelope" where
  "envelope_new body =
     \<lparr>pe_message_type = body_message_type body, pe_encryption = NoEncryption, pe_body = body\<rparr>"

definition with_encryption :: "packet_body \<Rightarrow> encryption_kind \<Rightarrow> packet_envelope" where
  "with_encryption body encryption =
     \<lparr>pe_message_type = body_message_type body, pe_encryption = encryption, pe_body = body\<rparr>"

lemma body_message_type_norm [simp]: "body_message_type (body_norm b) = body_message_type b"
  by (cases b) auto

lemma body_message_type_set [simp]: "body_message_type (set_attachments as b) = body_message_type b"
  by (cases b) auto

lemma envelope_new_simps [simp]:
  "pe_message_type (envelope_new b) = body_message_type b"
  "pe_encryption (envelope_new b) = NoEncryption" "pe_body (envelope_new b) = b"
  by (simp_all add: envelope_new_def)

lemma with_encryption_simps [simp]:
  "pe_message_type (with_encryption b e) = body_message_type b"
  "pe_encryption (with_encryption b e) = e" "pe_body (with_encryption b e) = b"
  by (simp_all add: with_encryption_def)

text \<open>A received body: what \<open>body_norm\<close> keeps, with the attachments of the sender.\<close>

definition body_received :: "packet_body \<Rightarrow> packet_body" where
  "body_received b = set_attachments (body_attachments b) (body_norm b)"

lemma body_received_simps [simp]:
  "body_received (ApiRequest i r p as m) = ApiRequest i r p as (meta_norm m)"
  "body_received (ApiResponse i okay s d e m) =
     ApiResponse i okay s d (map_option error_payload_norm e) (meta_norm m)"
  "body_received (EventEmit i n obj as m x) = EventEmit i n obj as (meta_norm m) x"
  "body_received (EventAck i okay rc e) = EventAck i okay rc (map_option error_payload_norm e)"
  "body_received (AuthRequest c) = AuthRequest c"
  "body_received (AuthResponse okay st e) = AuthResponse okay st (map_option error_payload_norm e)"
  by (simp_all add: body_received_def)

subsection \<open>Correlation\<close>

text \<open>Requests and events carry an id of the sender, and their answers repeat it.\<close>

datatype msg_key = RequestKey u64 | EventKey u64

fun key_of :: "packet_body \<Rightarrow> msg_key option" where
  "key_of (ApiRequest i _ _ _ _) = Some (RequestKey i)"
| "key_of (EventEmit i _ _ _ _ _) = Some (EventKey i)"
| "key_of _ = None"

fun reply_key :: "packet_body \<Rightarrow> msg_key option" where
  "reply_key (ApiResponse i _ _ _ _ _) = Some (RequestKey i)"
| "reply_key (EventAck i _ _ _) = Some (EventKey i)"
| "reply_key _ = None"

end
