(* ===== verification/Externals.thy ===== *)
theory Externals
  imports Packet
begin

section \<open>The packages wscall calls\<close>

text \<open>
  The JSON text format (\<open>serde_json\<close>), the two AEAD ciphers (\<open>chacha20poly1305\<close>, \<open>aes_gcm\<close>),
  X25519 and SHA-256 are other packages: they are one argument \<open>X\<close> of type \<open>externals\<close> of the
  definitions that call them. \<open>json_law\<close>, \<open>cipher_law\<close> and \<open>x25519_law\<close> state the documented
  behaviour the theorems rely on. \<open>sample_externals\<close> is a concrete instance that satisfies all three
  laws (a prefix-free value format, a cipher that only appends a tag, a commutative key agreement):
  it stands for no real package and only shows that the laws can hold together.
\<close>

record externals =
  json_to_vec :: "jvalue \<Rightarrow> de_error + bytes"
  json_from_slice :: "bytes \<Rightarrow> de_error + jvalue"
  chacha20_seal :: "bytes \<Rightarrow> bytes \<Rightarrow> bytes \<Rightarrow> bytes option"
  chacha20_open :: "bytes \<Rightarrow> bytes \<Rightarrow> bytes \<Rightarrow> bytes option"
  aes256_seal :: "bytes \<Rightarrow> bytes \<Rightarrow> bytes \<Rightarrow> bytes option"
  aes256_open :: "bytes \<Rightarrow> bytes \<Rightarrow> bytes \<Rightarrow> bytes option"
  x25519_public :: "bytes \<Rightarrow> bytes"
  x25519_dh :: "bytes \<Rightarrow> bytes \<Rightarrow> bytes"
  sha256 :: "bytes \<Rightarrow> bytes"

text \<open>The result of \<open>getrandom\<close> on a buffer: the error's text or the bytes written.\<close>

type_synonym random = "string + bytes"

subsection \<open>Documented behaviour of the external packages\<close>

text \<open>
  Values whose text reads back as the same value: every string is a Rust \<open>String\<close>, no
  floating-point number occurs, and the nesting stays below the parser's recursion limit.
\<close>

primrec strings_ok :: "jvalue \<Rightarrow> bool" where
  "strings_ok Null = True"
| "strings_ok (Bool b) = True"
| "strings_ok (Number n) = True"
| "strings_ok (String s) = utf8_valid s"
| "strings_ok (Array vs) = list_all id (map strings_ok vs)"
| "strings_ok (Object kvs) =
     list_all (\<lambda>(k, ok). utf8_valid k \<and> ok) (map (map_prod id strings_ok) kvs)"

definition textual :: "jvalue \<Rightarrow> bool" where
  "textual v \<longleftrightarrow> strings_ok v \<and> no_float v \<and> nesting v \<le> 127"

definition json_law :: "externals \<Rightarrow> bool" where
  "json_law X \<longleftrightarrow>
     (\<forall>v bs. textual v \<longrightarrow> json_to_vec X v = Inr bs \<longrightarrow> json_from_slice X bs = Inr (canon v))"

definition aead_law ::
  "(bytes \<Rightarrow> bytes \<Rightarrow> bytes \<Rightarrow> bytes option) \<Rightarrow> (bytes \<Rightarrow> bytes \<Rightarrow> bytes \<Rightarrow> bytes option) \<Rightarrow> bool" where
  "aead_law seal unseal \<longleftrightarrow>
     (\<forall>key nonce msg c. length key = 32 \<longrightarrow> length nonce = 12 \<longrightarrow>
        seal key nonce msg = Some c \<longrightarrow> unseal key nonce c = Some msg)"

definition cipher_law :: "externals \<Rightarrow> bool" where
  "cipher_law X \<longleftrightarrow> aead_law (chacha20_seal X) (chacha20_open X) \<and>
     aead_law (aes256_seal X) (aes256_open X)"

definition x25519_law :: "externals \<Rightarrow> bool" where
  "x25519_law X \<longleftrightarrow>
     (\<forall>a. length a = 32 \<longrightarrow> length (x25519_public X a) = 32) \<and>
     (\<forall>a b. length a = 32 \<longrightarrow> length b = 32 \<longrightarrow>
        x25519_dh X a (x25519_public X b) = x25519_dh X b (x25519_public X a)) \<and>
     (\<forall>m. length (sha256 X m) = 32)"

subsection \<open>An instance of the laws\<close>

text \<open>A prefix-free byte format for values, and its reader; the fuel bounds the nesting.\<close>

definition put_u64 :: "u64 \<Rightarrow> bytes" where
  "put_u64 w = map (\<lambda>i. of_bool (bit w i)) [0..<64]"

definition get_u64 :: "bytes \<Rightarrow> u64" where
  "get_u64 bs = horner_sum of_bool 2 (map (\<lambda>b. b = 1) bs)"

definition put_string :: "string \<Rightarrow> bytes" where
  "put_string s = concat (map (\<lambda>b. [1, b]) (as_bytes s)) @ [0]"

fun get_string :: "bytes \<Rightarrow> (string \<times> bytes) option" where
  "get_string (t # bs) =
     (if t = 0 then Some ([], bs)
      else case bs of [] \<Rightarrow> None | b # bs' \<Rightarrow> map_option (map_prod ((#) (char_of (unat b))) id) (get_string bs'))"
| "get_string [] = None"

primrec put_value :: "jvalue \<Rightarrow> bytes" where
  "put_value Null = [0]"
| "put_value (Bool b) = [1, of_bool b]"
| "put_value (Number n) =
     (case n of PosInt w \<Rightarrow> 2 # put_u64 w | NegInt w \<Rightarrow> 3 # put_u64 w | Float w \<Rightarrow> 4 # put_u64 w)"
| "put_value (String s) = 5 # put_string s"
| "put_value (Array vs) = 6 # concat (map ((#) 1) (map put_value vs)) @ [0]"
| "put_value (Object kvs) =
     7 # concat (map (\<lambda>(k, bs). 1 # put_string k @ bs) (map (map_prod id put_value) kvs)) @ [0]"

fun get_value :: "nat \<Rightarrow> bytes \<Rightarrow> (jvalue \<times> bytes) option"
  and get_values :: "nat \<Rightarrow> bytes \<Rightarrow> (jvalue list \<times> bytes) option"
  and get_members :: "nat \<Rightarrow> bytes \<Rightarrow> (json_map \<times> bytes) option" where
  "get_value (Suc f) (t # bs) =
     (if t = 0 then Some (Null, bs)
      else if t = 1 then (case bs of [] \<Rightarrow> None | b # bs' \<Rightarrow> Some (Bool (b = 1), bs'))
      else if t = 2 then Some (Number (PosInt (get_u64 (take 64 bs))), drop 64 bs)
      else if t = 3 then Some (Number (NegInt (get_u64 (take 64 bs))), drop 64 bs)
      else if t = 4 then Some (Number (Float (get_u64 (take 64 bs))), drop 64 bs)
      else if t = 5 then map_option (map_prod String id) (get_string bs)
      else if t = 6 then map_option (map_prod Array id) (get_values f bs)
      else if t = 7 then map_option (map_prod Object id) (get_members f bs)
      else None)"
| "get_value _ _ = None"
| "get_values (Suc f) (t # bs) =
     (if t = 0 then Some ([], bs)
      else Option.bind (get_value f bs) (\<lambda>(v, bs).
           Option.bind (get_values f bs) (\<lambda>(vs, bs). Some (v # vs, bs))))"
| "get_values _ _ = None"
| "get_members (Suc f) (t # bs) =
     (if t = 0 then Some ([], bs)
      else Option.bind (get_string bs) (\<lambda>(k, bs).
           Option.bind (get_value f bs) (\<lambda>(v, bs).
           Option.bind (get_members f bs) (\<lambda>(kvs, bs). Some ((k, v) # kvs, bs)))))"
| "get_members _ _ = None"

lemma get_put_u64 [simp]: "get_u64 (put_u64 w) = w"
proof -
  have "get_u64 (put_u64 w) = horner_sum of_bool 2 (map (bit w) [0..<64])"
    by (simp add: get_u64_def put_u64_def comp_def)
  also have "\<dots> = take_bit 64 w" by (simp add: horner_sum_bit_eq_take_bit)
  finally show ?thesis by (simp add: take_bit_word_eq_self)
qed

lemma length_put_u64 [simp]: "length (put_u64 w) = 64"
  by (simp add: put_u64_def)

lemma get_put_string [simp]: "get_string (put_string s @ rest) = Some (s, rest)"
  by (induction s) (simp_all add: put_string_def as_bytes_def unat_of_nat)

lemma get_put_values:
  assumes "\<And>v f rest. v \<in> set vs \<Longrightarrow> length (put_value v) < f \<Longrightarrow>
      get_value f (put_value v @ rest) = Some (v, rest)"
    and "length (concat (map ((#) 1) (map put_value vs))) < f"
  shows "get_values f (concat (map ((#) 1) (map put_value vs)) @ 0 # rest) = Some (vs, rest)"
  using assms
proof (induction vs arbitrary: f)
  case Nil
  then show ?case by (cases f) auto
next
  case (Cons v vs)
  then obtain g where "f = Suc g" by (cases f) auto
  with Cons show ?case by simp
qed

lemma get_put_members:
  assumes "\<And>k v f rest. (k, v) \<in> set kvs \<Longrightarrow> length (put_value v) < f \<Longrightarrow>
      get_value f (put_value v @ rest) = Some (v, rest)"
    and "length (concat (map (\<lambda>(k, bs). 1 # put_string k @ bs) (map (map_prod id put_value) kvs))) < f"
  shows "get_members f (concat (map (\<lambda>(k, bs). 1 # put_string k @ bs) (map (map_prod id put_value) kvs))
      @ 0 # rest) = Some (kvs, rest)"
  using assms
proof (induction kvs arbitrary: f)
  case Nil
  then show ?case by (cases f) auto
next
  case (Cons kv kvs)
  obtain k v where kv: "kv = (k, v)" by fastforce
  let ?tail = "concat (map (\<lambda>(k, bs). 1 # put_string k @ bs) (map (map_prod id put_value) kvs)) @ 0 # rest"
  from Cons.prems obtain g where f: "f = Suc g" by (cases f) auto
  have "get_value g (put_value v @ ?tail) = Some (v, ?tail)"
    using Cons.prems f by (intro Cons.prems(1) [of k]) (auto simp: kv)
  moreover have "get_members g ?tail = Some (kvs, rest)"
    using Cons.prems f by (intro Cons.IH) (auto simp: kv)
  ultimately show ?case using f by (simp add: kv id_def)
qed

lemma get_put_value: "length (put_value v) < f \<Longrightarrow> get_value f (put_value v @ rest) = Some (v, rest)"
proof (induction v arbitrary: f rest)
  case (Array vs)
  then obtain g where f: "f = Suc g" by (cases f) auto
  have "get_values g (concat (map ((#) 1) (map put_value vs)) @ 0 # rest) = Some (vs, rest)"
    using Array f by (intro get_put_values) (auto simp: comp_def)
  with f show ?case by simp
next
  case (Object kvs)
  then obtain g where f: "f = Suc g" by (cases f) auto
  have "get_members g (concat (map (\<lambda>(k, bs). 1 # put_string k @ bs) (map (map_prod id put_value) kvs))
      @ 0 # rest) = Some (kvs, rest)"
    using Object f by (intro get_put_members) (auto simp: comp_def)
  with f show ?case by simp
next
  case Null
  then show ?case by (cases f) auto
next
  case (Bool b)
  then show ?case by (cases f) auto
next
  case (Number n)
  then show ?case by (cases f; cases n) auto
next
  case (String s)
  then show ?case by (cases f) auto
qed

definition sample_seal :: "bytes \<Rightarrow> bytes \<Rightarrow> bytes \<Rightarrow> bytes option" where
  "sample_seal key nonce msg = Some (msg @ replicate 16 0)"

definition sample_open :: "bytes \<Rightarrow> bytes \<Rightarrow> bytes \<Rightarrow> bytes option" where
  "sample_open key nonce c =
     (if 16 \<le> length c \<and> drop (length c - 16) c = replicate 16 0
      then Some (take (length c - 16) c) else None)"

definition sample_externals :: externals where
  "sample_externals =
     \<lparr>json_to_vec = (\<lambda>v. Inr (put_value v)),
      json_from_slice = (\<lambda>bs. case get_value (Suc (length bs)) bs of
         Some (v, []) \<Rightarrow> Inr (canon v) | _ \<Rightarrow> Inl (JsonSyntax ''expected value'')),
      chacha20_seal = sample_seal, chacha20_open = sample_open,
      aes256_seal = sample_seal, aes256_open = sample_open,
      x25519_public = (\<lambda>a. a), x25519_dh = (\<lambda>a b. map (\<lambda>(x, y). x + y) (zip a b)),
      sha256 = (\<lambda>m. take 32 (m @ replicate 32 0))\<rparr>"

lemma sample_json_law: "json_law sample_externals"
  using get_put_value [where rest = "[]"]
  by (auto simp: json_law_def sample_externals_def)

lemma sample_cipher_law: "cipher_law sample_externals"
  by (simp add: cipher_law_def aead_law_def sample_externals_def sample_seal_def sample_open_def)

lemma sample_x25519_law: "x25519_law sample_externals"
proof -
  have "map (\<lambda>(x, y). x + y) (zip a b) = map (\<lambda>(x, y). x + y) (zip b a)" for a b :: bytes
    by (induction a b rule: list_induct2') (auto simp: add.commute)
  then show ?thesis by (simp add: x25519_law_def sample_externals_def min_def)
qed

end
