(* ===== verification/Frame_Codec.thy ===== *)
theory Frame_Codec
  imports Externals
begin

section \<open>The frame codec\<close>

text \<open>
  \<open>FrameCodec\<close> of \<open>crates/wscall-protocol/src/lib.rs\<close>: the binary frame around a packet, in
  plaintext or sealed with ChaCha20-Poly1305 or AES-256-GCM, and the ECDH key agreement.
  The argument \<open>X\<close> stands for the packages the crate calls (theory \<open>Externals\<close>), and the bytes
  \<open>getrandom\<close> returns are an argument too.
  The lemmas compute the frame the encoder builds, bound its size, and show that the decoder
  returns the packet that was encoded, in every mode.
\<close>

subsection \<open>ECDH key agreement\<close>

definition ECDH_DOMAIN_TAG :: bytes where
  "ECDH_DOMAIN_TAG = as_bytes ''wscall-ecdh-v1''"

definition ECDH_KEY_LEN :: nat where
  "ECDH_KEY_LEN = 32"

record ecdh_keypair =
  kp_secret :: bytes
  kp_public :: bytes

definition ecdh_generate :: "externals \<Rightarrow> random \<Rightarrow> protocol_error + ecdh_keypair" where
  "ecdh_generate X rnd =
     rbind (map_err Random rnd) (\<lambda>secret.
       Inr \<lparr>kp_secret = secret, kp_public = x25519_public X secret\<rparr>)"

definition public_bytes :: "ecdh_keypair \<Rightarrow> bytes" where
  "public_bytes kp = kp_public kp"

definition derive_session_key :: "externals \<Rightarrow> bytes \<Rightarrow> bytes" where
  "derive_session_key X shared_secret = sha256 X (ECDH_DOMAIN_TAG @ shared_secret)"

definition keypair_derive_session_key :: "externals \<Rightarrow> ecdh_keypair \<Rightarrow> bytes \<Rightarrow> bytes" where
  "keypair_derive_session_key X kp peer_public =
     derive_session_key X (x25519_dh X (kp_secret kp) peer_public)"

definition parse_peer_public :: "bytes \<Rightarrow> protocol_error + bytes" where
  "parse_peer_public bs =
     (if length bs \<noteq> ECDH_KEY_LEN then Inl (InvalidEcdhPublicKey ECDH_KEY_LEN (length bs))
      else Inr bs)"

subsection \<open>Codec configuration\<close>

definition AES256_NONCE_LEN :: nat where "AES256_NONCE_LEN = 12"
definition CHACHA20_NONCE_LEN :: nat where "CHACHA20_NONCE_LEN = 12"
definition DEFAULT_MAX_FRAME_BYTES :: nat where "DEFAULT_MAX_FRAME_BYTES = 100 * 1024 * 1024"

text \<open>A configured cipher is represented by its key.\<close>

record frame_codec =
  aes256_cipher :: "bytes option"
  chacha20_cipher :: "bytes option"
  wire_encryption :: encryption_kind
  max_frame_bytes :: nat

definition codec_plaintext :: frame_codec where
  "codec_plaintext =
     \<lparr>aes256_cipher = None, chacha20_cipher = None, wire_encryption = NoEncryption,
      max_frame_bytes = DEFAULT_MAX_FRAME_BYTES\<rparr>"

definition codec_with_chacha20_key :: "bytes \<Rightarrow> frame_codec \<Rightarrow> frame_codec" where
  "codec_with_chacha20_key key c = c\<lparr>chacha20_cipher := Some key, wire_encryption := ChaCha20\<rparr>"

definition codec_with_aes256_key :: "bytes \<Rightarrow> frame_codec \<Rightarrow> frame_codec" where
  "codec_with_aes256_key key c = c\<lparr>aes256_cipher := Some key, wire_encryption := Aes256\<rparr>"

definition codec_with_max_frame_bytes :: "nat \<Rightarrow> frame_codec \<Rightarrow> frame_codec" where
  "codec_with_max_frame_bytes m c = c\<lparr>max_frame_bytes := m\<rparr>"

text \<open>Keys have 32 bytes, and the cipher of the mode is there: what the builders establish.\<close>

definition codec_ok :: "frame_codec \<Rightarrow> bool" where
  "codec_ok c \<longleftrightarrow>
     pred_option (\<lambda>k. length k = 32) (aes256_cipher c) \<and>
     pred_option (\<lambda>k. length k = 32) (chacha20_cipher c) \<and>
     (wire_encryption c = ChaCha20 \<longrightarrow> chacha20_cipher c \<noteq> None) \<and>
     (wire_encryption c = Aes256 \<longrightarrow> aes256_cipher c \<noteq> None)"

lemma codec_ok_builders:
  "codec_ok codec_plaintext"
  "codec_ok c \<Longrightarrow> length key = 32 \<Longrightarrow> codec_ok (codec_with_chacha20_key key c)"
  "codec_ok c \<Longrightarrow> length key = 32 \<Longrightarrow> codec_ok (codec_with_aes256_key key c)"
  "codec_ok c \<Longrightarrow> codec_ok (codec_with_max_frame_bytes m c)"
  by (simp_all add: codec_ok_def codec_plaintext_def codec_with_chacha20_key_def
      codec_with_aes256_key_def codec_with_max_frame_bytes_def)

subsection \<open>Encryption of a payload\<close>

definition encrypt_chacha20 :: "externals \<Rightarrow> random \<Rightarrow> frame_codec \<Rightarrow> bytes \<Rightarrow> protocol_error + bytes" where
  "encrypt_chacha20 X rnd c payload =
     rbind (ok_or (MissingEncryptionKey ''chacha20'') (chacha20_cipher c)) (\<lambda>cipher.
     rbind (map_err Random rnd) (\<lambda>nonce.
     rbind (ok_or (EncryptionFailed ''chacha20'') (chacha20_seal X cipher nonce payload)) (\<lambda>ciphertext.
       Inr (nonce @ ciphertext))))"

definition decrypt_chacha20 :: "externals \<Rightarrow> frame_codec \<Rightarrow> bytes \<Rightarrow> protocol_error + bytes" where
  "decrypt_chacha20 X c payload =
     (if length payload < CHACHA20_NONCE_LEN
      then Inl (EncryptedPayloadTooShort ''chacha20'' CHACHA20_NONCE_LEN (length payload))
      else
        rbind (ok_or (MissingEncryptionKey ''chacha20'') (chacha20_cipher c)) (\<lambda>cipher.
          ok_or (DecryptionFailed ''chacha20'')
            (chacha20_open X cipher (take CHACHA20_NONCE_LEN payload) (drop CHACHA20_NONCE_LEN payload))))"

definition encrypt_aes256 :: "externals \<Rightarrow> random \<Rightarrow> frame_codec \<Rightarrow> bytes \<Rightarrow> protocol_error + bytes" where
  "encrypt_aes256 X rnd c payload =
     rbind (ok_or (MissingEncryptionKey ''aes256'') (aes256_cipher c)) (\<lambda>cipher.
     rbind (map_err Random rnd) (\<lambda>nonce.
     rbind (ok_or (EncryptionFailed ''aes256'') (aes256_seal X cipher nonce payload)) (\<lambda>ciphertext.
       Inr (nonce @ ciphertext))))"

definition decrypt_aes256 :: "externals \<Rightarrow> frame_codec \<Rightarrow> bytes \<Rightarrow> protocol_error + bytes" where
  "decrypt_aes256 X c payload =
     (if length payload < AES256_NONCE_LEN
      then Inl (EncryptedPayloadTooShort ''aes256'' AES256_NONCE_LEN (length payload))
      else
        rbind (ok_or (MissingEncryptionKey ''aes256'') (aes256_cipher c)) (\<lambda>cipher.
          ok_or (DecryptionFailed ''aes256'')
            (aes256_open X cipher (take AES256_NONCE_LEN payload) (drop AES256_NONCE_LEN payload))))"

subsection \<open>Encoding\<close>

text \<open>\<open>frame[i..j].copy_from_slice(..)\<close> overwrites in place.\<close>

definition patch :: "nat \<Rightarrow> bytes \<Rightarrow> bytes \<Rightarrow> bytes" where
  "patch i new buf = take i buf @ new @ drop (i + length new) buf"

definition encode :: "externals \<Rightarrow> random \<Rightarrow> frame_codec \<Rightarrow> packet_envelope \<Rightarrow> protocol_error + bytes" where
  "encode X rnd c packet =
     (let max_payload = max_frame_bytes c - 5;
          attachments = body_attachments (pe_body packet);
          message_type = message_type_u8 (pe_message_type packet)
      in
      if wire_encryption c = NoEncryption then
        rbind (map_err JsonError (json_to_vec X (body_serialize (pe_body packet)))) (\<lambda>json.
          let frame = [0, 0, 0, 0] @ [message_type] @ [0, 0, 0, 0] @ json;
              json_len = length frame - 9;
              frame = fold write_wire attachments (frame @ [as_u8 (length attachments)]);
              payload_len = length frame - 5
          in if payload_len > max_payload then Inl (PayloadTooLarge payload_len max_payload)
             else
               let frame_len = as_u32 (length frame - 4);
                   frame = patch 0 (to_be_bytes frame_len) frame;
                   frame = patch 5 (to_be_bytes (as_u32 json_len)) frame
               in Inr frame)
      else
        rbind (map_err JsonError (json_to_vec X (body_serialize (pe_body packet)))) (\<lambda>json.
          let composite = [0, 0, 0, 0] @ json;
              json_len = length composite - 4;
              composite = patch 0 (to_be_bytes (as_u32 json_len)) composite;
              composite = fold write_wire attachments (composite @ [as_u8 (length attachments)])
          in if length composite > max_payload
             then Inl (PayloadTooLarge (length composite) max_payload)
             else
               rbind (if wire_encryption c = ChaCha20 then encrypt_chacha20 X rnd c composite
                      else encrypt_aes256 X rnd c composite) (\<lambda>payload.
               if length payload > max_payload
               then Inl (PayloadTooLarge (length payload) max_payload)
               else
                 let frame_len = 1 + length payload
                 in Inr (to_be_bytes (as_u32 frame_len) @ [message_type] @ payload))))"

subsection \<open>Decoding\<close>

fun read_attachments :: "nat \<Rightarrow> bytes \<Rightarrow> protocol_error + (file_attachment list \<times> bytes)" where
  "read_attachments 0 att_data = Inr ([], att_data)"
| "read_attachments (Suc n) att_data =
     rbind (read_wire att_data) (\<lambda>(att, rest).
     rbind (read_attachments n rest) (\<lambda>(atts, rest). Inr (att # atts, rest)))"

definition decode_composite :: "externals \<Rightarrow> message_type \<Rightarrow> encryption_kind \<Rightarrow> bytes
    \<Rightarrow> protocol_error + packet_envelope" where
  "decode_composite X message_type encryption composite =
     (if length composite < 5 then Inl FrameTooShort
      else let meta_len = unat (be_u32_at composite 0) in
        if length composite < 4 + meta_len + 1 then Inl FrameTooShort
        else
          let json_slice = subslice 4 (4 + meta_len) composite;
              att_count = unat (composite ! (4 + meta_len));
              att_data = drop (4 + meta_len + 1) composite
          in
          rbind (read_attachments att_count att_data) (\<lambda>(attachments, _).
          rbind (map_err JsonError (rbind (json_from_slice X json_slice) body_deserialize)) (\<lambda>body.
            let body = set_attachments attachments body in
            if body_message_type body \<noteq> message_type then Inl MessageTypeMismatch
            else Inr \<lparr>pe_message_type = message_type, pe_encryption = encryption, pe_body = body\<rparr>)))"

definition decode :: "externals \<Rightarrow> frame_codec \<Rightarrow> bytes \<Rightarrow> protocol_error + packet_envelope" where
  "decode X c frame =
     (if length frame < 5 then Inl FrameTooShort
      else
        let declared = unat (be_u32_at frame 0);
            actual = length frame - 4
        in
        if declared \<noteq> actual then Inl (FrameLengthMismatch declared actual)
        else if length frame > max_frame_bytes c
        then Inl (FrameTooLarge (length frame) (max_frame_bytes c))
        else
          rbind (message_type_try_from (frame ! 4)) (\<lambda>message_type.
          rbind (case wire_encryption c of
                   NoEncryption \<Rightarrow> Inr (drop 5 frame)
                 | ChaCha20 \<Rightarrow> decrypt_chacha20 X c (drop 5 frame)
                 | Aes256 \<Rightarrow> decrypt_aes256 X c (drop 5 frame)) (\<lambda>composite.
            decode_composite X message_type (wire_encryption c) composite)))"

definition encode_frame :: "externals \<Rightarrow> random \<Rightarrow> packet_envelope \<Rightarrow> protocol_error + bytes" where
  "encode_frame X rnd packet = encode X rnd codec_plaintext packet"

definition decode_frame :: "externals \<Rightarrow> bytes \<Rightarrow> protocol_error + packet_envelope" where
  "decode_frame X frame = decode X codec_plaintext frame"

subsection \<open>The frame the encoder builds\<close>

text \<open>The composite payload of a body: metadata length, JSON, attachment count, sections.\<close>

definition composite_of :: "bytes \<Rightarrow> file_attachment list \<Rightarrow> bytes" where
  "composite_of json atts =
     to_be_bytes (as_u32 (length json)) @ json @ as_u8 (length atts) # concat (map (\<lambda>a. write_wire a []) atts)"

definition header_of :: "message_type \<Rightarrow> bytes \<Rightarrow> bytes" where
  "header_of t payload = to_be_bytes (as_u32 (1 + length payload)) @ [message_type_u8 t] @ payload"

lemma fold_write_wire: "fold write_wire as buf = buf @ concat (map (\<lambda>a. write_wire a []) as)"
proof (induction as arbitrary: buf)
  case (Cons a as)
  have "fold write_wire (a # as) buf = fold write_wire as (buf @ write_wire a [])"
    by (simp add: write_wire_append [of a buf])
  then show ?case by (simp add: Cons.IH)
qed simp

lemma length_concat_write_wire:
  "length (concat (map (\<lambda>a. write_wire a []) as)) = sum_list (map wire_size as)"
  by (induction as) (simp_all add: length_write_wire)

lemma length_composite_of [wire_simps]:
  "length (composite_of json as) = 5 + length json + sum_list (map wire_size as)"
  by (simp add: composite_of_def length_concat_write_wire)

lemma patch_0 [simp]: "length new = 4 \<Longrightarrow> patch 0 new (a # b # c # d # rest) = new @ rest"
  by (simp add: patch_def)

lemma patch_5:
  "length hd4 = 4 \<Longrightarrow> length new = 4 \<Longrightarrow> patch 5 new (hd4 @ t # a # b # c # d # rest) = hd4 @ t # new @ rest"
  by (simp add: patch_def)

definition size_ok :: "frame_codec \<Rightarrow> bytes \<Rightarrow> bool" where
  "size_ok c payload \<longleftrightarrow> length payload \<le> max_frame_bytes c - 5"

lemma encode_plaintext:
  assumes "wire_encryption c = NoEncryption"
    and "json_to_vec X (body_serialize (pe_body p)) = Inr json"
  shows "encode X rnd c p =
    (let composite = composite_of json (body_attachments (pe_body p)) in
     if size_ok c composite then Inr (header_of (pe_message_type p) composite)
     else Inl (PayloadTooLarge (length composite) (max_frame_bytes c - 5)))"
  using assms
  by (simp add: encode_def Let_def fold_write_wire composite_of_def header_of_def size_ok_def
      patch_5 length_concat_write_wire not_less)

lemma encode_sealed:
  assumes "wire_encryption c \<noteq> NoEncryption"
    and "json_to_vec X (body_serialize (pe_body p)) = Inr json"
  shows "encode X rnd c p =
    (let composite = composite_of json (body_attachments (pe_body p)) in
     if \<not> size_ok c composite then Inl (PayloadTooLarge (length composite) (max_frame_bytes c - 5))
     else
       rbind (if wire_encryption c = ChaCha20 then encrypt_chacha20 X rnd c composite
              else encrypt_aes256 X rnd c composite) (\<lambda>payload.
       if \<not> size_ok c payload then Inl (PayloadTooLarge (length payload) (max_frame_bytes c - 5))
       else Inr (header_of (pe_message_type p) payload)))"
  using assms
  unfolding encode_def Let_def fold_write_wire composite_of_def header_of_def size_ok_def not_le
  by (simp add: length_concat_write_wire)

text \<open>Sealing and opening are inverse in both modes.\<close>

definition seal :: "externals \<Rightarrow> random \<Rightarrow> frame_codec \<Rightarrow> bytes \<Rightarrow> protocol_error + bytes" where
  "seal X rnd c composite =
     (case wire_encryption c of
        NoEncryption \<Rightarrow> Inr composite
      | ChaCha20 \<Rightarrow> encrypt_chacha20 X rnd c composite
      | Aes256 \<Rightarrow> encrypt_aes256 X rnd c composite)"

definition unseal :: "externals \<Rightarrow> frame_codec \<Rightarrow> bytes \<Rightarrow> protocol_error + bytes" where
  "unseal X c payload =
     (case wire_encryption c of
        NoEncryption \<Rightarrow> Inr payload
      | ChaCha20 \<Rightarrow> decrypt_chacha20 X c payload
      | Aes256 \<Rightarrow> decrypt_aes256 X c payload)"

definition random_ok :: "random \<Rightarrow> bool" where
  "random_ok rnd \<longleftrightarrow> (case rnd of Inl _ \<Rightarrow> True | Inr nonce \<Rightarrow> length nonce = 12)"

lemma unseal_seal:
  assumes "cipher_law X" "codec_ok c" "random_ok rnd" "seal X rnd c m = Inr payload"
  shows "unseal X c payload = Inr m"
  using assms
  by (cases "wire_encryption c")
     (auto simp: seal_def unseal_def encrypt_chacha20_def decrypt_chacha20_def encrypt_aes256_def
       decrypt_aes256_def cipher_law_def aead_law_def codec_ok_def random_ok_def
       CHACHA20_NONCE_LEN_def AES256_NONCE_LEN_def)

text \<open>Every successful encoding is the header around a sealed composite that fits.\<close>

lemma encode_Inr:
  assumes "encode X rnd c p = Inr frame"
  shows "\<exists>json payload. json_to_vec X (body_serialize (pe_body p)) = Inr json \<and>
    seal X rnd c (composite_of json (body_attachments (pe_body p))) = Inr payload \<and>
    size_ok c (composite_of json (body_attachments (pe_body p))) \<and>
    size_ok c payload \<and> frame = header_of (pe_message_type p) payload"
proof (cases "json_to_vec X (body_serialize (pe_body p))")
  case (Inl e)
  with assms show ?thesis by (simp add: encode_def Let_def split: if_splits)
next
  case (Inr json)
  show ?thesis
  proof (cases "wire_encryption c = NoEncryption")
    case True
    with assms Inr show ?thesis
      by (simp add: encode_plaintext Let_def seal_def split: if_splits)
  next
    case False
    then have "wire_encryption c = ChaCha20 \<or> wire_encryption c = Aes256"
      by (cases "wire_encryption c") auto
    with False assms Inr show ?thesis
      by (auto simp: encode_sealed Let_def seal_def split: if_splits)
  qed
qed

lemma length_header_of [wire_simps]: "length (header_of t payload) = 5 + length payload"
  by (simp add: header_of_def)

lemma decode_header_of:
  assumes "length payload < 2 ^ 32 - 1" "5 + length payload \<le> max_frame_bytes c"
  shows "decode X c (header_of t payload) =
    rbind (unseal X c payload) (decode_composite X t (wire_encryption c))"
proof -
  have n: "unat (as_u32 (1 + length payload)) = 1 + length payload"
    using assms(1) by (intro unat_as_u32) simp
  have u: "be_u32_at (header_of t payload) 0 = as_u32 (1 + length payload)"
    unfolding header_of_def by (rule be_u32_at_0)
  have t: "header_of t payload ! 4 = message_type_u8 t"
    by (simp add: header_of_def nth_append)
  have d: "drop 5 (header_of t payload) = payload"
    by (simp add: header_of_def)
  show ?thesis
    unfolding decode_def Let_def u n t d unseal_def
    using assms(2) by (simp add: length_header_of cong: encryption_kind.case_cong)
qed

lemma read_attachments_concat:
  "list_all attachment_ok as \<Longrightarrow>
   read_attachments (length as) (concat (map (\<lambda>a. write_wire a []) as) @ rest) = Inr (as, rest)"
  by (induction as) (simp_all add: read_wire_write_wire)

lemma decode_composite_of:
  assumes "length json < 2 ^ 32" "length as < 256" "list_all attachment_ok as"
  shows "decode_composite X t e (composite_of json as) =
    rbind (map_err JsonError (rbind (json_from_slice X json) body_deserialize)) (\<lambda>body.
      if body_message_type body \<noteq> t then Inl MessageTypeMismatch
      else Inr \<lparr>pe_message_type = t, pe_encryption = e, pe_body = set_attachments as body\<rparr>)"
proof -
  let ?tail = "concat (map (\<lambda>a. write_wire a []) as)"
  have u: "be_u32_at (composite_of json as) 0 = as_u32 (length json)"
    unfolding composite_of_def by (rule be_u32_at_0)
  have n: "unat (as_u32 (length json)) = length json"
    using assms(1) by simp
  have j: "subslice 4 (4 + length json) (composite_of json as) = json"
    by (rule subslice_at [where pre = "to_be_bytes (as_u32 (length json))"
          and rest = "as_u8 (length as) # ?tail"]) (simp_all add: composite_of_def)
  have c: "composite_of json as ! (4 + length json) = as_u8 (length as)"
    by (simp add: composite_of_def nth_append)
  have d: "drop (4 + length json + 1) (composite_of json as) = ?tail"
    by (rule drop_at [where pre = "to_be_bytes (as_u32 (length json)) @ json @ [as_u8 (length as)]"])
       (simp_all add: composite_of_def)
  have r: "read_attachments (length as) ?tail = Inr (as, [])"
    using read_attachments_concat [OF assms(3), of "[]"] by simp
  have len: "\<not> length (composite_of json as) < 5" "\<not> length (composite_of json as) < 4 + length json + 1"
    by (simp_all add: length_composite_of)
  show ?thesis
    unfolding decode_composite_def Let_def u n j c d using assms(2) len r by simp
qed

subsection \<open>Round trip\<close>

lemma value_ok_strings_ok: "value_ok v \<Longrightarrow> strings_ok v"
  by (induction v) (auto simp: list_all_iff)

lemma payload_strings_ok: "payload_ok e \<Longrightarrow> strings_ok (error_payload_to_json e)"
  by (auto simp: payload_ok_def error_payload_to_json_def json_u64_def value_ok_strings_ok
      utf8_valid_literal split: option.splits)

lemma body_strings_ok: "body_ok b \<Longrightarrow> strings_ok (body_serialize b)"
proof (cases b)
  case (EventEmit i n d as m x)
  assume "body_ok b"
  with EventEmit value_ok_strings_ok [of "Object d"] show ?thesis
    by (simp add: json_tag_def json_u64_def opt_meta_def utf8_valid_literal value_ok_strings_ok)
qed (auto simp: json_tag_def json_u64_def opt_meta_def opt_error_def utf8_valid_literal
       payload_strings_ok dest: value_ok_strings_ok split: option.splits)

text \<open>
  A packet the wire carries: its type matches its body, the fields satisfy the invariants of
  their types, the JSON text is within what the parser reads back, and the attachment lengths
  and count fit their prefixes.
\<close>

definition packet_ok :: "packet_envelope \<Rightarrow> bool" where
  "packet_ok p \<longleftrightarrow>
     pe_message_type p = body_message_type (pe_body p) \<and> body_ok (pe_body p) \<and>
     no_float (body_serialize (pe_body p)) \<and> nesting (body_serialize (pe_body p)) \<le> 127 \<and>
     list_all attachment_ok (body_attachments (pe_body p)) \<and>
     length (body_attachments (pe_body p)) < 256"

definition link_ok :: "externals \<Rightarrow> random \<Rightarrow> frame_codec \<Rightarrow> bool" where
  "link_ok X rnd c \<longleftrightarrow> json_law X \<and> cipher_law X \<and> codec_ok c \<and> random_ok rnd \<and>
     max_frame_bytes c \<le> 2 ^ 32"

definition envelope_received :: "frame_codec \<Rightarrow> packet_envelope \<Rightarrow> packet_envelope" where
  "envelope_received c p =
     \<lparr>pe_message_type = pe_message_type p, pe_encryption = wire_encryption c,
      pe_body = body_received (pe_body p)\<rparr>"

lemma size_ok_bounds:
  assumes "size_ok c payload" "payload \<noteq> []"
  shows "5 + length payload \<le> max_frame_bytes c"
  using assms by (cases payload) (auto simp: size_ok_def)

lemma seal_nonempty:
  assumes "seal X rnd c m = Inr payload" "random_ok rnd" "m \<noteq> []"
  shows "payload \<noteq> []"
  using assms
  by (cases "wire_encryption c")
     (auto simp: seal_def encrypt_chacha20_def encrypt_aes256_def random_ok_def)

lemma json_read_body:
  assumes "json_law X" "body_ok b" "no_float (body_serialize b)" "nesting (body_serialize b) \<le> 127"
    and "json_to_vec X (body_serialize b) = Inr json"
  shows "rbind (json_from_slice X json) body_deserialize = Inr (body_norm b)"
proof -
  have "textual (body_serialize b)"
    using assms by (simp add: textual_def body_strings_ok)
  with assms have "json_from_slice X json = Inr (canon (body_serialize b))"
    by (simp add: json_law_def)
  then show ?thesis using assms(2) by (simp add: body_roundtrip)
qed

lemma decode_encode:
  assumes "link_ok X rnd c" "packet_ok p" "encode X rnd c p = Inr frame"
  shows "decode X c frame = Inr (envelope_received c p)"
proof -
  let ?b = "pe_body p"
  obtain json payload where
      json: "json_to_vec X (body_serialize ?b) = Inr json"
    and sealed: "seal X rnd c (composite_of json (body_attachments ?b)) = Inr payload"
    and fits: "size_ok c (composite_of json (body_attachments ?b))" "size_ok c payload"
    and frame: "frame = header_of (pe_message_type p) payload"
    using encode_Inr [OF assms(3)] by auto
  have link: "json_law X" "cipher_law X" "codec_ok c" "random_ok rnd" "max_frame_bytes c \<le> 2 ^ 32"
    using assms(1) by (auto simp: link_ok_def)
  have ne: "payload \<noteq> []"
    using sealed link(4) by (rule seal_nonempty) (simp add: composite_of_def)
  have len: "5 + length payload \<le> max_frame_bytes c"
    using fits(2) ne by (rule size_ok_bounds)
  have json_len: "length json < 2 ^ 32"
    using fits(1) link(5) by (simp add: size_ok_def length_composite_of)
  have "decode X c frame = rbind (unseal X c payload)
      (decode_composite X (pe_message_type p) (wire_encryption c))"
    unfolding frame using len link(5) by (intro decode_header_of) auto
  also have "unseal X c payload = Inr (composite_of json (body_attachments ?b))"
    using link(2,3,4) sealed by (rule unseal_seal)
  finally have "decode X c frame =
      decode_composite X (pe_message_type p) (wire_encryption c) (composite_of json (body_attachments ?b))"
    by simp
  moreover obtain v where "json_from_slice X json = Inr v" "body_deserialize v = Inr (body_norm ?b)"
    using json_read_body [OF link(1) _ _ _ json] assms(2) by (auto simp: packet_ok_def)
  ultimately show ?thesis
    using assms(2) json_len
    by (simp add: decode_composite_of packet_ok_def envelope_received_def body_received_def)
qed

subsection \<open>The interface of a frame link\<close>

text \<open>
  What the server and the client rely on of the codec: a frame that was encoded on one side of
  a link decodes on the other side to what was sent. A sequence of frames then arrives as the
  sequence of packets, and two packets with the same frame are the same to the receiver.
\<close>

fun map_result :: "('a \<Rightarrow> 'e + 'b) \<Rightarrow> 'a list \<Rightarrow> 'e + 'b list" where
  "map_result f [] = Inr []"
| "map_result f (x # xs) = rbind (f x) (\<lambda>y. rbind (map_result f xs) (\<lambda>ys. Inr (y # ys)))"

locale frame_link =
  fixes enc :: "'p \<Rightarrow> 'e + 'f"
    and dec :: "'f \<Rightarrow> 'e + 'q"
    and good :: "'p \<Rightarrow> bool"
    and received :: "'p \<Rightarrow> 'q"
  assumes dec_enc: "good p \<Longrightarrow> enc p = Inr f \<Longrightarrow> dec f = Inr (received p)"
begin

lemma stream:
  "\<forall>p \<in> set ps. good p \<Longrightarrow> map_result enc ps = Inr fs \<Longrightarrow> map_result dec fs = Inr (map received ps)"
  by (induction ps arbitrary: fs) (auto simp: dec_enc)

lemma same_frame: "good p \<Longrightarrow> good q \<Longrightarrow> enc p = Inr f \<Longrightarrow> enc q = Inr f \<Longrightarrow> received p = received q"
  by (metis dec_enc sum.inject(2))

end

interpretation codec: frame_link "encode X rnd c" "decode X c"
  "\<lambda>p. link_ok X rnd c \<and> packet_ok p" "envelope_received c" for X rnd c
  by unfold_locales (blast intro: decode_encode)

subsection \<open>Properties of the codec\<close>

lemma decode_composite_Inr:
  assumes "decode_composite X t e composite = Inr p"
  defines "meta_len \<equiv> unat (be_u32_at composite 0)"
  shows "4 + meta_len + 1 \<le> length composite \<and>
    pe_message_type p = t \<and> pe_encryption p = e \<and> body_message_type (pe_body p) = t \<and>
    (\<exists>atts rest v body.
      read_attachments (unat (composite ! (4 + meta_len))) (drop (4 + meta_len + 1) composite) = Inr (atts, rest) \<and>
      json_from_slice X (subslice 4 (4 + meta_len) composite) = Inr v \<and>
      body_deserialize v = Inr body \<and> pe_body p = set_attachments atts body)"
proof -
  have len: "4 + meta_len + 1 \<le> length composite"
    using assms(1) by (auto simp: decode_composite_def Let_def meta_len_def split: if_splits)
  show ?thesis
    using assms(1) len unfolding decode_composite_def Let_def meta_len_def
    by (auto split: if_splits)
qed

lemma read_attachments_valid:
  "read_attachments n data = Inr (atts, rest) \<Longrightarrow> length atts = n \<and>
     list_all (\<lambda>a. utf8_valid (fa_id a) \<and> utf8_valid (fa_name a) \<and> utf8_valid (fa_content_type a)) atts"
  by (induction n arbitrary: data atts) (fastforce dest: read_wire_consumes)+

lemma decode_Inr:
  assumes "decode X c frame = Inr p"
  shows "\<exists>composite. 5 \<le> length frame \<and> unat (be_u32_at frame 0) = length frame - 4 \<and>
    length frame \<le> max_frame_bytes c \<and> frame ! 4 = message_type_u8 (pe_message_type p) \<and>
    unseal X c (drop 5 frame) = Inr composite \<and>
    decode_composite X (pe_message_type p) (wire_encryption c) composite = Inr p"
proof -
  have len: "5 \<le> length frame" and decl: "unat (be_u32_at frame 0) = length frame - 4"
      and max: "length frame \<le> max_frame_bytes c"
    using assms by (auto simp: decode_def Let_def split: if_splits)
  obtain t composite where
      t: "message_type_try_from (frame ! 4) = Inr t" and
      u: "unseal X c (drop 5 frame) = Inr composite" and
      d: "decode_composite X t (wire_encryption c) composite = Inr p"
    using assms len decl max
    by (auto simp: decode_def Let_def unseal_def split: if_splits encryption_kind.splits)
  have "pe_message_type p = t" using decode_composite_Inr [OF d] by blast
  with t u d len decl max show ?thesis
    by (auto simp: message_type_try_from_Inr)
qed

text \<open>
  C9. Round trip of the codec. Let the external packages behave as documented, let the codec be
  one the builders produce (plaintext, ChaCha20 or AES-256) with a frame limit of at most
  4 GiB, and let the packet be well formed (attachment names below 256 bytes, at most 255
  attachments). Whenever \<open>encode\<close> returns a frame, \<open>decode\<close> with the same codec returns the
  packet: type and every field equal, attachments included, empty metadata read as null, and
  the encryption field set to the mode of the connection.
\<close>
theorem codec_roundtrip:
  assumes "json_law X" "cipher_law X" "codec_ok c" "random_ok rnd" "max_frame_bytes c \<le> 2 ^ 32"
    and "packet_ok p" "encode X rnd c p = Inr frame"
  shows "decode X c frame = Inr \<lparr>pe_message_type = pe_message_type p,
    pe_encryption = wire_encryption c, pe_body = body_received (pe_body p)\<rparr>"
  using codec.dec_enc [of X rnd c p frame] assms by (simp add: link_ok_def envelope_received_def)

definition sample_key :: bytes where
  "sample_key = replicate 32 0x11"

definition sample_packet :: packet_envelope where
  "sample_packet = with_encryption
     (ApiRequest 42 ''files.upload'' (Object [(''file'', param_ref ''f1'')])
        [inline_bytes ''f1'' ''test.bin'' ''application/octet-stream'' [1, 2, 3, 4, 5]] (Object []))
     ChaCha20"

definition sample_codec :: frame_codec where
  "sample_codec = codec_with_chacha20_key sample_key codec_plaintext"

lemma sample_packet_ok: "packet_ok sample_packet"
  by (simp add: packet_ok_def sample_packet_def param_ref_def json_tag_def json_u64_def opt_meta_def
      K_defs attachment_ok_def inline_bytes_def utf8_valid_literal map_ok_def)

lemma sample_codec_ok: "codec_ok sample_codec" "max_frame_bytes sample_codec = 100 * 1024 * 1024"
    "wire_encryption sample_codec = ChaCha20" "chacha20_cipher sample_codec = Some sample_key"
  by (simp_all add: codec_ok_def sample_codec_def codec_plaintext_def codec_with_chacha20_key_def
      sample_key_def DEFAULT_MAX_FRAME_BYTES_def)

lemma sample_encodes:
  "\<exists>frame. encode sample_externals (Inr (replicate 12 7)) sample_codec sample_packet = Inr frame"
proof -
  let ?json = "put_value (body_serialize (pe_body sample_packet))"
  have json: "json_to_vec sample_externals (body_serialize (pe_body sample_packet)) = Inr ?json"
    by (simp add: sample_externals_def)
  have len: "length ?json \<le> 1000"
    by (simp add: sample_packet_def param_ref_def json_tag_def json_u64_def opt_meta_def
        put_string_def as_bytes_def)
  have att: "sum_list (map wire_size (body_attachments (pe_body sample_packet))) \<le> 100"
    by (simp add: sample_packet_def wire_size_def inline_bytes_def)
  show ?thesis
    unfolding encode_sealed [OF _ json, of sample_codec, unfolded sample_codec_ok, simplified] Let_def
    using len att
    by (simp add: size_ok_def length_composite_of sample_codec_ok encrypt_chacha20_def
        sample_externals_def sample_seal_def)
qed

theorem codec_roundtrip_witness:
  "\<exists>frame. encode sample_externals (Inr (replicate 12 7)) sample_codec sample_packet = Inr frame \<and>
     decode sample_externals sample_codec frame = Inr \<lparr>pe_message_type = Api,
       pe_encryption = ChaCha20, pe_body = ApiRequest 42 ''files.upload''
         (Object [(''file'', param_ref ''f1'')])
         [inline_bytes ''f1'' ''test.bin'' ''application/octet-stream'' [1, 2, 3, 4, 5]] Null\<rparr>"
proof -
  obtain frame where
    f: "encode sample_externals (Inr (replicate 12 7)) sample_codec sample_packet = Inr frame"
    using sample_encodes by blast
  have "decode sample_externals sample_codec frame = Inr \<lparr>pe_message_type = pe_message_type sample_packet,
      pe_encryption = wire_encryption sample_codec, pe_body = body_received (pe_body sample_packet)\<rparr>"
    by (rule codec_roundtrip [OF sample_json_law sample_cipher_law sample_codec_ok(1) _ _ sample_packet_ok f])
       (simp_all add: random_ok_def sample_codec_ok)
  with f show ?thesis
    by (simp add: sample_packet_def sample_codec_ok meta_norm_def)
qed

lemma encode_header:
  assumes "random_ok rnd" "encode X rnd c p = Inr frame"
  shows "5 < length frame \<and> length frame \<le> max_frame_bytes c \<and>
    frame ! 4 = message_type_u8 (pe_message_type p) \<and>
    (max_frame_bytes c \<le> 2 ^ 32 \<longrightarrow> unat (be_u32_at frame 0) = length frame - 4)"
proof -
  obtain json payload where
      sealed: "seal X rnd c (composite_of json (body_attachments (pe_body p))) = Inr payload"
    and fits: "size_ok c payload" and frame: "frame = header_of (pe_message_type p) payload"
    using encode_Inr [OF assms(2)] by auto
  have ne: "payload \<noteq> []"
    using sealed assms(1) by (rule seal_nonempty) (simp add: composite_of_def)
  have len: "5 + length payload \<le> max_frame_bytes c"
    using fits ne by (rule size_ok_bounds)
  have "be_u32_at frame 0 = as_u32 (1 + length payload)"
    unfolding frame header_of_def by (rule be_u32_at_0)
  moreover have "frame ! 4 = message_type_u8 (pe_message_type p)"
    by (simp add: frame header_of_def nth_append)
  ultimately show ?thesis
    using len ne unat_as_u32 [of "1 + length payload"]
    by (auto simp: frame length_header_of)
qed

text \<open>
  Frames fit. Every frame \<open>encode\<close> returns is at most \<open>max_frame_bytes\<close> long, in every mode,
  nonce and tag included; its first four bytes declare exactly the number of bytes after
  them (for limits up to 4 GiB), and its fifth byte is the type of the packet. So it passes
  the header checks of \<open>decode\<close> and the fast-reject checks of the server.
\<close>
theorem encode_frame_bounds:
  assumes "random_ok rnd" "encode X rnd c p = Inr frame"
  shows "5 < length frame \<and> length frame \<le> max_frame_bytes c \<and>
    frame ! 4 = message_type_u8 (pe_message_type p) \<and>
    (max_frame_bytes c \<le> 2 ^ 32 \<longrightarrow> unat (be_u32_at frame 0) = length frame - 4)"
  by (rule encode_header [OF assms])

theorem encode_frame_bounds_witness:
  "random_ok (Inr (replicate 12 7)) \<and>
   (\<exists>frame. encode sample_externals (Inr (replicate 12 7)) sample_codec sample_packet = Inr frame \<and>
      length frame \<le> 104857600 \<and> frame ! 4 = 0 \<and> unat (be_u32_at frame 0) = length frame - 4)"
proof -
  have r: "random_ok (Inr (replicate 12 7))" by (simp add: random_ok_def)
  obtain frame where
    f: "encode sample_externals (Inr (replicate 12 7)) sample_codec sample_packet = Inr frame"
    using sample_encodes by blast
  show ?thesis
    using r f encode_frame_bounds [OF r f] by (simp add: sample_codec_ok sample_packet_def)
qed

text \<open>
  C32. When a plaintext packet can be sent. If its JSON is \<open>json\<close>, the encoder succeeds exactly when
  ten bytes of framing, the JSON and the attachment sections together fit the limit, and
  otherwise reports \<open>PayloadTooLarge\<close> with the payload's size and the limit less the header.
\<close>
theorem encode_plaintext_iff:
  assumes "wire_encryption c = NoEncryption" "json_to_vec X (body_serialize (pe_body p)) = Inr json"
  shows "encode X rnd c p =
    (let payload_len = 5 + length json + sum_list (map wire_size (body_attachments (pe_body p)))
     in if 5 + payload_len \<le> max_frame_bytes c
        then Inr (header_of (pe_message_type p) (composite_of json (body_attachments (pe_body p))))
        else Inl (PayloadTooLarge payload_len (max_frame_bytes c - 5)))"
  unfolding encode_plaintext [OF assms] Let_def size_ok_def length_composite_of by auto

theorem encode_plaintext_iff_witness:
  "encode sample_externals (Inl ''no entropy'') (codec_with_max_frame_bytes 200 codec_plaintext)
     (envelope_new (AuthRequest ''t'')) =
   Inr (header_of Auth (composite_of (put_value (body_serialize (AuthRequest ''t''))) []))"
proof -
  let ?c = "codec_with_max_frame_bytes 200 codec_plaintext"
  have c: "wire_encryption ?c = NoEncryption" "max_frame_bytes ?c = 200"
    by (simp_all add: codec_with_max_frame_bytes_def codec_plaintext_def)
  have j: "json_to_vec sample_externals (body_serialize (pe_body (envelope_new (AuthRequest ''t'')))) =
      Inr (put_value (body_serialize (AuthRequest ''t'')))"
    by (simp add: sample_externals_def)
  show ?thesis
    unfolding encode_plaintext_iff [OF c(1) j]
    by (simp add: c json_tag_def json_u64_def put_string_def as_bytes_def)
qed

text \<open>
  C33. What a decoded packet is. If \<open>decode\<close> accepts a frame, the frame is within the limit, it
  declares its own length, its type byte and the body agree, the packet carries the
  connection's encryption mode, and the attachments of a request or event are exactly those
  read from the binary sections, with valid strings; an attachment list in the JSON has no effect.
\<close>
theorem decode_sound:
  assumes "decode X c frame = Inr p"
  shows "length frame \<le> max_frame_bytes c \<and> unat (be_u32_at frame 0) = length frame - 4 \<and>
    frame ! 4 = message_type_u8 (pe_message_type p) \<and>
    body_message_type (pe_body p) = pe_message_type p \<and> pe_encryption p = wire_encryption c \<and>
    (\<exists>composite meta_len atts rest v body.
       unseal X c (drop 5 frame) = Inr composite \<and> meta_len = unat (be_u32_at composite 0) \<and>
       read_attachments (unat (composite ! (4 + meta_len))) (drop (4 + meta_len + 1) composite)
         = Inr (atts, rest) \<and>
       json_from_slice X (subslice 4 (4 + meta_len) composite) = Inr v \<and>
       body_deserialize v = Inr body \<and> pe_body p = set_attachments atts body \<and>
       list_all (\<lambda>a. utf8_valid (fa_id a) \<and> utf8_valid (fa_name a) \<and> utf8_valid (fa_content_type a)) atts)"
proof -
  obtain composite where
      h: "5 \<le> length frame" "unat (be_u32_at frame 0) = length frame - 4"
         "length frame \<le> max_frame_bytes c" "frame ! 4 = message_type_u8 (pe_message_type p)"
    and u: "unseal X c (drop 5 frame) = Inr composite"
    and d: "decode_composite X (pe_message_type p) (wire_encryption c) composite = Inr p"
    using decode_Inr [OF assms] by blast
  let ?n = "unat (be_u32_at composite 0)"
  obtain atts rest v body where
      "read_attachments (unat (composite ! (4 + ?n))) (drop (4 + ?n + 1) composite) = Inr (atts, rest)"
      "json_from_slice X (subslice 4 (4 + ?n) composite) = Inr v" "body_deserialize v = Inr body"
      "pe_body p = set_attachments atts body" "body_message_type (pe_body p) = pe_message_type p"
      "pe_encryption p = wire_encryption c"
    using decode_composite_Inr [OF d] by blast
  with h u read_attachments_valid show ?thesis by blast
qed

theorem decode_sound_witness:
  "\<exists>frame p. decode sample_externals sample_codec frame = Inr p \<and>
     pe_encryption p = ChaCha20 \<and> body_message_type (pe_body p) = pe_message_type p"
proof -
  obtain frame where
    f: "encode sample_externals (Inr (replicate 12 7)) sample_codec sample_packet = Inr frame"
    using sample_encodes by blast
  have "link_ok sample_externals (Inr (replicate 12 7)) sample_codec"
    by (simp add: link_ok_def sample_json_law sample_cipher_law sample_codec_ok random_ok_def)
  then have d: "decode sample_externals sample_codec frame = Inr (envelope_received sample_codec sample_packet)"
    using sample_packet_ok f by (rule decode_encode)
  show ?thesis
    using d decode_sound [OF d] by (auto simp: sample_codec_ok)
qed

subsection \<open>What the narrow prefixes lose\<close>

text \<open>The count byte is the number of attachments modulo 256; the decoder trusts it.\<close>

lemma decode_composite_zero:
  assumes "length json < 2 ^ 32" "length as mod 256 = 0"
  shows "decode_composite X t e (composite_of json as) =
    rbind (map_err JsonError (rbind (json_from_slice X json) body_deserialize)) (\<lambda>body.
      if body_message_type body \<noteq> t then Inl MessageTypeMismatch
      else Inr \<lparr>pe_message_type = t, pe_encryption = e, pe_body = set_attachments [] body\<rparr>)"
proof -
  let ?tail = "concat (map (\<lambda>a. write_wire a []) as)"
  have u: "be_u32_at (composite_of json as) 0 = as_u32 (length json)"
    unfolding composite_of_def by (rule be_u32_at_0)
  have n: "unat (as_u32 (length json)) = length json" using assms(1) by simp
  have j: "subslice 4 (4 + length json) (composite_of json as) = json"
    by (rule subslice_at [where pre = "to_be_bytes (as_u32 (length json))"
          and rest = "as_u8 (length as) # ?tail"]) (simp_all add: composite_of_def)
  have "composite_of json as ! (4 + length json) = as_u8 (length as)"
    by (simp add: composite_of_def nth_append)
  then have c: "unat (composite_of json as ! (4 + length json)) = 0"
    using assms(2) by (simp add: unat_as_u8_mod)
  have len: "\<not> length (composite_of json as) < 5" "\<not> length (composite_of json as) < 4 + length json + 1"
    by (simp_all add: length_composite_of)
  show ?thesis
    unfolding decode_composite_def Let_def u n j c using len by simp
qed

lemma wrapped_count_decodes:
  assumes "link_ok X rnd c" "pe_message_type p = body_message_type (pe_body p)"
    and "body_ok (pe_body p)" "no_float (body_serialize (pe_body p))"
    and "nesting (body_serialize (pe_body p)) \<le> 127"
    and "length (body_attachments (pe_body p)) = 256 * m"
    and "encode X rnd c p = Inr frame"
  shows "decode X c frame = Inr \<lparr>pe_message_type = pe_message_type p,
    pe_encryption = wire_encryption c, pe_body = set_attachments [] (body_norm (pe_body p))\<rparr>"
proof -
  let ?b = "pe_body p"
  obtain json payload where
      json: "json_to_vec X (body_serialize ?b) = Inr json"
    and sealed: "seal X rnd c (composite_of json (body_attachments ?b)) = Inr payload"
    and fits: "size_ok c (composite_of json (body_attachments ?b))" "size_ok c payload"
    and frame: "frame = header_of (pe_message_type p) payload"
    using encode_Inr [OF assms(7)] by auto
  have link: "json_law X" "cipher_law X" "codec_ok c" "random_ok rnd" "max_frame_bytes c \<le> 2 ^ 32"
    using assms(1) by (auto simp: link_ok_def)
  have "payload \<noteq> []"
    using sealed link(4) by (rule seal_nonempty) (simp add: composite_of_def)
  with fits(2) have len: "5 + length payload \<le> max_frame_bytes c"
    by (rule size_ok_bounds)
  have json_len: "length json < 2 ^ 32"
    using fits(1) link(5) by (simp add: size_ok_def length_composite_of)
  have "decode X c frame = decode_composite X (pe_message_type p) (wire_encryption c)
      (composite_of json (body_attachments ?b))"
    unfolding frame using len link(5) unseal_seal [OF link(2,3,4) sealed]
    by (subst decode_header_of) auto
  moreover obtain v where "json_from_slice X json = Inr v" "body_deserialize v = Inr (body_norm ?b)"
    using json_read_body [OF link(1) assms(3,4,5) json] by auto
  ultimately show ?thesis
    using assms(2,6) json_len by (simp add: decode_composite_zero)
qed

text \<open>
  C40. The attachment count wraps. \<open>encode\<close> writes the number of attachments as \<open>len() as u8\<close> and checks the size only. A well-formed
  packet (no floats, nesting at most 127) with a positive multiple of 256 attachments is encoded without an error in plaintext when its frame is within the
  limit; and in every mode, whenever such a packet is encoded, the receiver decodes the frame, without an error, as the same packet with no attachment at all.
\<close>

theorem attachment_count_wraps:
  assumes "link_ok X rnd c" "pe_message_type p = body_message_type (pe_body p)"
    and "body_ok (pe_body p)" "no_float (body_serialize (pe_body p))"
    and "nesting (body_serialize (pe_body p)) \<le> 127"
    and "length (body_attachments (pe_body p)) = 256 * m" "0 < m"
    and "json_to_vec X (body_serialize (pe_body p)) = Inr json"
  shows "(wire_encryption c = NoEncryption \<and>
      10 + length json + sum_list (map wire_size (body_attachments (pe_body p))) \<le> max_frame_bytes c \<longrightarrow>
        (\<exists>frame. encode X rnd c p = Inr frame)) \<and>
    (\<forall>frame. encode X rnd c p = Inr frame \<longrightarrow>
       decode X c frame = Inr \<lparr>pe_message_type = pe_message_type p, pe_encryption = wire_encryption c,
         pe_body = set_attachments [] (body_norm (pe_body p))\<rparr> \<and>
       body_attachments (set_attachments [] (body_norm (pe_body p))) \<noteq> body_attachments (pe_body p))"
proof (intro conjI impI allI)
  assume "wire_encryption c = NoEncryption \<and>
      10 + length json + sum_list (map wire_size (body_attachments (pe_body p))) \<le> max_frame_bytes c"
  then show "\<exists>frame. encode X rnd c p = Inr frame"
    using encode_plaintext [OF _ assms(8), of c rnd] by (auto simp: size_ok_def length_composite_of Let_def)
next
  have "body_attachments (set_attachments [] b) = []" for b by (cases b) simp_all
  then show "body_attachments (set_attachments [] (body_norm (pe_body p))) \<noteq> body_attachments (pe_body p)"
    using assms(6,7) by force
qed (rule wrapped_count_decodes [OF assms(1-6)])

definition bulk_packet :: packet_envelope where
  "bulk_packet = envelope_new
     (ApiRequest 1 ''up'' Null (replicate 256 (inline_bytes ''f'' ''f'' ''t'' [1])) Null)"

theorem attachment_count_wraps_witness:
  "\<exists>frame. encode sample_externals (Inr (replicate 12 0)) codec_plaintext bulk_packet = Inr frame \<and>
     length (body_attachments (pe_body bulk_packet)) = 256 \<and>
     decode sample_externals codec_plaintext frame = Inr \<lparr>pe_message_type = Api,
       pe_encryption = NoEncryption, pe_body = ApiRequest 1 ''up'' Null [] Null\<rparr>"
proof -
  let ?b = "pe_body bulk_packet" and ?json = "put_value (body_serialize (pe_body bulk_packet))"
  have c: "wire_encryption codec_plaintext = NoEncryption" "max_frame_bytes codec_plaintext = 104857600"
    by (simp_all add: codec_plaintext_def DEFAULT_MAX_FRAME_BYTES_def)
  have l: "link_ok sample_externals (Inr (replicate 12 0)) codec_plaintext"
    by (simp add: link_ok_def sample_json_law sample_cipher_law codec_ok_builders random_ok_def c)
  have j: "json_to_vec sample_externals (body_serialize ?b) = Inr ?json" by (simp add: sample_externals_def)
  have "length ?json \<le> 1000"
    by (simp add: bulk_packet_def json_tag_def json_u64_def opt_meta_def put_string_def as_bytes_def)
  moreover have "sum_list (map wire_size (body_attachments ?b)) \<le> 10000"
    by (simp add: bulk_packet_def wire_size_def inline_bytes_def sum_list_replicate)
  ultimately have fits: "10 + length ?json + sum_list (map wire_size (body_attachments ?b)) \<le> max_frame_bytes codec_plaintext"
    by (simp add: c)
  have p: "pe_message_type bulk_packet = body_message_type ?b" "body_ok ?b" "no_float (body_serialize ?b)"
      "nesting (body_serialize ?b) \<le> 127" "length (body_attachments ?b) = 256 * 1"
    by (simp_all add: bulk_packet_def json_tag_def json_u64_def opt_meta_def utf8_valid_literal)
  from attachment_count_wraps [OF l p _ j] c(1) fits obtain frame where
    f: "encode sample_externals (Inr (replicate 12 0)) codec_plaintext bulk_packet = Inr frame"
      "decode sample_externals codec_plaintext frame = Inr \<lparr>pe_message_type = pe_message_type bulk_packet,
        pe_encryption = wire_encryption codec_plaintext, pe_body = set_attachments [] (body_norm ?b)\<rparr>"
    by (metis zero_less_one)
  then show ?thesis using p(5) by (auto simp: c bulk_packet_def meta_norm_def)
qed

text \<open>
  The identifier length wraps. \<open>write_wire\<close> writes the length of the attachment's id as
  \<open>len() as u8\<close>. An id of 256 bytes (or a multiple) is written with length 0, so whatever
  \<open>read_wire\<close> makes of the section, the id it returns is empty and the bytes of the id are taken
  for the following fields.
\<close>
theorem attachment_id_wraps:
  assumes "length (fa_id a) = 256 * m" "read_wire (write_wire a [] @ rest) = Inr (b, rest')"
  shows "fa_id b = []"
proof -
  let ?data = "write_wire a [] @ rest"
  have "unat (as_u8 (length (fa_id a))) = 0"
    unfolding unat_as_u8_mod assms(1) by simp
  then have "unat (?data ! 0) = 0" by (simp add: write_wire_def)
  then have "read_short e1 e2 ?data 0 = Inr ([], 1)" for e1 e2
    by (simp add: read_short_def write_wire_def subslice_def from_utf8_lossy_def
        from_utf8_lossy_bytes_def from_bytes_def)
  with assms(2) show ?thesis
    unfolding read_wire_def by (auto simp: Let_def split: if_splits)
qed

theorem attachment_id_wraps_witness:
  "\<exists>b rest'. read_wire (write_wire (inline_bytes (replicate 256 (CHR 0x00)) ''n'' ''t'' [1]) []) = Inr (b, rest') \<and>
     fa_id b = [] \<and> rest' \<noteq> []"
proof -
  let ?a = "inline_bytes (replicate 256 (CHR 0x00)) ''n'' ''t'' [1]"
  have l: "length (fa_id ?a) = 256 * 1" by (simp add: inline_bytes_def)
  have r: "read_wire (write_wire ?a [] @ []) = Inr (inline_bytes [] [] [] [], drop 7 (write_wire ?a []))"
    by code_simp
  have "drop 7 (write_wire ?a []) \<noteq> []" by (simp add: write_wire_def inline_bytes_def)
  then show ?thesis using r attachment_id_wraps [OF l r] by auto
qed

subsection \<open>Key agreement\<close>

text \<open>
  Both ends of an ECDH handshake get the same key. If X25519 and SHA-256 behave as
  documented, two peers that generated key pairs and exchanged \<open>public_bytes\<close> each accept the
  other's key (\<open>parse_peer_public\<close>) and derive the same session key of 32 bytes, so the
  per-connection codecs built from it are equal and satisfy the codec's invariant.
\<close>
theorem ecdh_agreement:
  assumes "x25519_law X" "length sa = 32" "length sb = 32"
    and "ecdh_generate X (Inr sa) = Inr ka" "ecdh_generate X (Inr sb) = Inr kb"
  shows "parse_peer_public (public_bytes ka) = Inr (public_bytes ka) \<and>
    parse_peer_public (public_bytes kb) = Inr (public_bytes kb) \<and>
    keypair_derive_session_key X ka (public_bytes kb) = keypair_derive_session_key X kb (public_bytes ka) \<and>
    codec_ok (codec_with_chacha20_key (keypair_derive_session_key X ka (public_bytes kb)) codec_plaintext)"
proof -
  have k: "ka = \<lparr>kp_secret = sa, kp_public = x25519_public X sa\<rparr>"
      "kb = \<lparr>kp_secret = sb, kp_public = x25519_public X sb\<rparr>"
    using assms(4,5) by (simp_all add: ecdh_generate_def)
  have "length (keypair_derive_session_key X ka (public_bytes kb)) = 32"
    using assms(1) by (simp add: keypair_derive_session_key_def derive_session_key_def x25519_law_def)
  then show ?thesis
    using assms(1,2,3)
    by (simp add: k parse_peer_public_def public_bytes_def ECDH_KEY_LEN_def x25519_law_def
        keypair_derive_session_key_def codec_ok_builders)
qed

theorem ecdh_agreement_witness:
  "\<exists>ka kb. ecdh_generate sample_externals (Inr (replicate 32 1)) = Inr ka \<and>
     ecdh_generate sample_externals (Inr (replicate 32 2)) = Inr kb \<and>
     keypair_derive_session_key sample_externals ka (public_bytes kb) =
     keypair_derive_session_key sample_externals kb (public_bytes ka)"
proof -
  have a: "ecdh_generate sample_externals (Inr (replicate 32 1)) =
      Inr \<lparr>kp_secret = replicate 32 1, kp_public = replicate 32 1\<rparr>"
    and b: "ecdh_generate sample_externals (Inr (replicate 32 2)) =
      Inr \<lparr>kp_secret = replicate 32 2, kp_public = replicate 32 2\<rparr>"
    by (simp_all add: ecdh_generate_def sample_externals_def)
  show ?thesis
    using a b ecdh_agreement [OF sample_x25519_law _ _ a b] by simp
qed

end
