(* ===== verification/Channel.thy ===== *)
theory Channel
  imports Wscall_Prelude
begin

section \<open>Bounded channels\<close>

text \<open>
  \<open>tokio::sync::mpsc::channel(n)\<close>, as the server and the client use it to feed their writer
  tasks: a queue of at most \<open>n\<close> messages with many senders and one receiver. \<open>try_send\<close> refuses when
  the queue is full or the receiver is gone; \<open>send\<close> waits for space, so as an atomic step it is
  defined only when it can finish (\<open>None\<close> means that the caller is still waiting).
\<close>

record 'm channel =
  ch_queue :: "'m list"
  ch_capacity :: nat
  ch_open :: bool

datatype send_error = Full | Closed

definition channel_new :: "nat \<Rightarrow> 'm channel" where
  "channel_new n = \<lparr>ch_queue = [], ch_capacity = n, ch_open = True\<rparr>"

definition try_send :: "'m \<Rightarrow> 'm channel \<Rightarrow> send_error + 'm channel" where
  "try_send msg ch =
     (if \<not> ch_open ch then Inl Closed
      else if length (ch_queue ch) \<ge> ch_capacity ch then Inl Full
      else Inr (ch\<lparr>ch_queue := ch_queue ch @ [msg]\<rparr>))"

definition send :: "'m \<Rightarrow> 'm channel \<Rightarrow> (send_error + 'm channel) option" where
  "send msg ch = (case try_send msg ch of Inl Full \<Rightarrow> None | r \<Rightarrow> Some r)"

definition recv :: "'m channel \<Rightarrow> ('m \<times> 'm channel) option" where
  "recv ch = (case ch_queue ch of [] \<Rightarrow> None | msg # rest \<Rightarrow> Some (msg, ch\<lparr>ch_queue := rest\<rparr>))"

text \<open>The receiver is dropped: what is queued is lost and later sends fail.\<close>

definition close_channel :: "'m channel \<Rightarrow> 'm channel" where
  "close_channel ch = ch\<lparr>ch_queue := [], ch_open := False\<rparr>"

definition channel_ok :: "'m channel \<Rightarrow> bool" where
  "channel_ok ch \<longleftrightarrow> length (ch_queue ch) \<le> ch_capacity ch"

lemma channel_ok_new [simp]: "channel_ok (channel_new n)"
  by (simp add: channel_ok_def channel_new_def)

lemma channel_ok_close [simp]: "channel_ok (close_channel ch)"
  by (simp add: channel_ok_def close_channel_def)

lemma try_send_Inr:
  "try_send msg ch = Inr ch' \<longleftrightarrow>
     ch_open ch \<and> length (ch_queue ch) < ch_capacity ch \<and> ch' = ch\<lparr>ch_queue := ch_queue ch @ [msg]\<rparr>"
  by (auto simp: try_send_def)

lemma channel_ok_try_send: "try_send msg ch = Inr ch' \<Longrightarrow> channel_ok ch'"
  by (auto simp: try_send_Inr channel_ok_def)

lemma send_Inr: "send msg ch = Some (Inr ch') \<longleftrightarrow> try_send msg ch = Inr ch'"
  by (auto simp: send_def split: sum.splits send_error.splits)

lemma send_Inl: "send msg ch = Some (Inl e) \<longleftrightarrow> e = Closed \<and> \<not> ch_open ch"
  by (auto simp: send_def try_send_def split: if_splits)

lemma send_waits: "send msg ch = None \<longleftrightarrow> ch_open ch \<and> ch_capacity ch \<le> length (ch_queue ch)"
  by (auto simp: send_def try_send_def)

lemma channel_ok_recv: "channel_ok ch \<Longrightarrow> recv ch = Some (msg, ch') \<Longrightarrow> channel_ok ch'"
  by (auto simp: recv_def channel_ok_def split: list.splits)

end
