(* ===== verification/Client_Types.thy ===== *)
theory Client_Types
  imports Frame_Codec Channel
begin

section \<open>Client configuration and errors\<close>

text \<open>
  \<open>crates/wscall-client/src/client_types.rs\<close>: the configuration with its presets and builders, the life-cycle
  events, server events as the client delivers them and the errors of the client.
\<close>

datatype client_outbound =
    ClientPacket packet_envelope
  | ClientPing bytes
  | ClientPong bytes
  | ClientClose

record client_config =
  cc_codec :: frame_codec
  cc_default_encryption :: encryption_kind
  cc_auto_reconnect :: bool
  cc_use_ecdh :: bool
  cc_failover_urls :: "string list"
  cc_credential :: "string option"

definition config_default :: client_config where
  "config_default = \<lparr>cc_codec = codec_plaintext, cc_default_encryption = ChaCha20, cc_auto_reconnect = True,
     cc_use_ecdh = True, cc_failover_urls = [], cc_credential = None\<rparr>"

definition config_plaintext :: client_config where
  "config_plaintext = \<lparr>cc_codec = codec_plaintext, cc_default_encryption = NoEncryption, cc_auto_reconnect = True,
     cc_use_ecdh = False, cc_failover_urls = [], cc_credential = None\<rparr>"

definition config_psk_chacha20 :: "bytes \<Rightarrow> client_config" where
  "config_psk_chacha20 key = \<lparr>cc_codec = codec_with_chacha20_key key codec_plaintext, cc_default_encryption = ChaCha20,
     cc_auto_reconnect = True, cc_use_ecdh = False, cc_failover_urls = [], cc_credential = None\<rparr>"

definition config_psk_aes256 :: "bytes \<Rightarrow> client_config" where
  "config_psk_aes256 key = \<lparr>cc_codec = codec_with_aes256_key key codec_plaintext, cc_default_encryption = Aes256,
     cc_auto_reconnect = True, cc_use_ecdh = False, cc_failover_urls = [], cc_credential = None\<rparr>"

definition with_codec :: "frame_codec \<Rightarrow> client_config \<Rightarrow> client_config" where
  "with_codec c g = g\<lparr>cc_codec := c\<rparr>"

definition with_default_encryption :: "encryption_kind \<Rightarrow> client_config \<Rightarrow> client_config" where
  "with_default_encryption e g = g\<lparr>cc_default_encryption := e\<rparr>"

definition with_auto_reconnect :: "bool \<Rightarrow> client_config \<Rightarrow> client_config" where
  "with_auto_reconnect b g = g\<lparr>cc_auto_reconnect := b\<rparr>"

definition with_use_ecdh :: "bool \<Rightarrow> client_config \<Rightarrow> client_config" where
  "with_use_ecdh b g = g\<lparr>cc_use_ecdh := b\<rparr>"

definition with_failover_url :: "string \<Rightarrow> client_config \<Rightarrow> client_config" where
  "with_failover_url u g = g\<lparr>cc_failover_urls := cc_failover_urls g @ [u]\<rparr>"

definition with_failover_urls :: "string list \<Rightarrow> client_config \<Rightarrow> client_config" where
  "with_failover_urls us g = g\<lparr>cc_failover_urls := us\<rparr>"

definition with_credential :: "string \<Rightarrow> client_config \<Rightarrow> client_config" where
  "with_credential s g = g\<lparr>cc_credential := Some s\<rparr>"

record connection_event =
  cev_url :: string

record disconnect_event =
  dev_url :: string
  dev_reason :: string
  dev_will_reconnect :: bool
  dev_retry_after :: "duration option"

record event_message =
  em_event_id :: u64
  em_name :: string
  em_data :: json_map
  em_attachments :: "file_attachment list"
  em_metadata :: jvalue

datatype client_error =
    ClientWebSocket string
  | ClientProtocol protocol_error
  | Disconnected
  | ConnectionClosed string
  | ClientIdleTimeout
  | Timeout
  | Remote error_payload
  | ClientAuthFailed error_payload

end
