(* ===== verification/Rate_Limiter.thy ===== *)
theory Rate_Limiter
  imports Wscall_Prelude
begin

section \<open>The rate limiter\<close>

text \<open>
  \<open>crates/wscall-server/src/rate_limiter.rs\<close>: fixed windows per connection and per IP address,
  with optional bans. The concurrent maps are partial functions; an \<open>Instant\<close> and a \<open>Duration\<close> are
  nanoseconds as natural numbers, so \<open>duration_since\<close> saturates at zero as in Rust, and
  \<open>Instant::now()\<close> is the argument \<open>now\<close>. Counters are \<open>u64\<close> words that wrap. One call is one atomic
  step; in the code it is several operations on concurrent maps, and calls for the same address that run at the same time between a lookup and
  the insertion that follows it are outside the model. After the operations come an abstract limiter without stale entries
  (\<open>spec_check\<close>) that the code refines, and the bounds on what is let through.
\<close>

subsection \<open>Configuration\<close>

datatype ip_addr = IpV4 "32 word" | IpV6 "128 word"

record rate_limit_config =
  rc_period :: duration
  rc_max_messages :: "u64 option"
  rc_max_bytes :: "u64 option"

definition rate_limit_config_new :: "duration \<Rightarrow> rate_limit_config" where
  "rate_limit_config_new period =
     \<lparr>rc_period = period, rc_max_messages = None, rc_max_bytes = None\<rparr>"

definition with_max_messages :: "u64 \<Rightarrow> rate_limit_config \<Rightarrow> rate_limit_config" where
  "with_max_messages m c = c\<lparr>rc_max_messages := Some m\<rparr>"

definition with_max_bytes :: "u64 \<Rightarrow> rate_limit_config \<Rightarrow> rate_limit_config" where
  "with_max_bytes m c = c\<lparr>rc_max_bytes := Some m\<rparr>"

record rate_limiter =
  rl_connection :: "rate_limit_config option"
  rl_ip :: "rate_limit_config option"
  rl_ban_duration :: "duration option"

definition rate_limiter_new :: rate_limiter where
  "rate_limiter_new = \<lparr>rl_connection = None, rl_ip = None, rl_ban_duration = None\<rparr>"

definition limit_connection :: "rate_limit_config \<Rightarrow> rate_limiter \<Rightarrow> rate_limiter" where
  "limit_connection cfg r = r\<lparr>rl_connection := Some cfg\<rparr>"

definition limit_ip :: "rate_limit_config \<Rightarrow> rate_limiter \<Rightarrow> rate_limiter" where
  "limit_ip cfg r = r\<lparr>rl_ip := Some cfg\<rparr>"

definition ban_duration :: "duration \<Rightarrow> rate_limiter \<Rightarrow> rate_limiter" where
  "ban_duration d r = r\<lparr>rl_ban_duration := Some d\<rparr>"

subsection \<open>State\<close>

datatype verdict = Allowed | Limited | Banned

record window_counter =
  wc_start :: instant
  wc_messages :: u64
  wc_bytes :: u64

definition maybe_reset :: "instant \<Rightarrow> duration \<Rightarrow> window_counter \<Rightarrow> window_counter" where
  "maybe_reset now period c =
     (if now - wc_start c \<ge> period
      then \<lparr>wc_start = now, wc_messages = 0, wc_bytes = 0\<rparr> else c)"

record limiter_state =
  ls_config :: rate_limiter
  ls_conn_counters :: "string \<rightharpoonup> window_counter"
  ls_ip_counters :: "ip_addr \<rightharpoonup> window_counter"
  ls_conn_bans :: "string \<rightharpoonup> instant"
  ls_ip_bans :: "ip_addr \<rightharpoonup> instant"

definition build :: "rate_limiter \<Rightarrow> limiter_state" where
  "build r = \<lparr>ls_config = r, ls_conn_counters = Map.empty, ls_ip_counters = Map.empty,
     ls_conn_bans = Map.empty, ls_ip_bans = Map.empty\<rparr>"

subsection \<open>Operations\<close>

definition exceeds :: "window_counter \<Rightarrow> rate_limit_config \<Rightarrow> bool" where
  "exceeds counter cfg \<longleftrightarrow>
     (case rc_max_messages cfg of Some m \<Rightarrow> wc_messages counter > m | None \<Rightarrow> False) \<or>
     (case rc_max_bytes cfg of Some m \<Rightarrow> wc_bytes counter > m | None \<Rightarrow> False)"

text \<open>The lookup of a ban: still running, or expired and removed.\<close>

definition check_ban :: "instant \<Rightarrow> 'k \<Rightarrow> ('k \<rightharpoonup> instant) \<Rightarrow> bool \<times> ('k \<rightharpoonup> instant)" where
  "check_ban now k bans =
     (case bans k of
        Some expiry \<Rightarrow> if now < expiry then (True, bans) else (False, bans(k := None))
      | None \<Rightarrow> (False, bans))"

definition is_ip_banned :: "instant \<Rightarrow> ip_addr \<Rightarrow> limiter_state \<Rightarrow> bool \<times> limiter_state" where
  "is_ip_banned now ip st =
     (let (banned, bans) = check_ban now ip (ls_ip_bans st) in (banned, st\<lparr>ls_ip_bans := bans\<rparr>))"

text \<open>
  The check of one dimension, the same code for connections and for IP addresses: count the
  frame in the current window (or open one) and ban the key when a threshold is exceeded. The
  first frame of a key is compared with thresholds of zero only.
\<close>

definition insert_ban :: "instant \<Rightarrow> duration option \<Rightarrow> 'k \<Rightarrow> ('k \<rightharpoonup> instant) \<Rightarrow> ('k \<rightharpoonup> instant)" where
  "insert_ban now ban k bans = (case ban of Some d \<Rightarrow> bans(k \<mapsto> now + d) | None \<Rightarrow> bans)"

definition check_dimension ::
  "instant \<Rightarrow> duration option \<Rightarrow> rate_limit_config \<Rightarrow> 'k \<Rightarrow> nat \<Rightarrow>
     ('k \<rightharpoonup> window_counter) \<Rightarrow> ('k \<rightharpoonup> instant) \<Rightarrow>
     bool \<times> ('k \<rightharpoonup> window_counter) \<times> ('k \<rightharpoonup> instant)" where
  "check_dimension now ban cfg k frame_len counters bans =
     (case counters k of
        Some counter \<Rightarrow>
          let counter = maybe_reset now (rc_period cfg) counter;
              counter = counter\<lparr>wc_messages := wc_messages counter + 1\<rparr>;
              counter = counter\<lparr>wc_bytes := wc_bytes counter + as_u64 frame_len\<rparr>;
              limited = exceeds counter cfg
          in (limited, counters(k \<mapsto> counter), if limited then insert_ban now ban k bans else bans)
      | None \<Rightarrow>
          let limited = (rc_max_messages cfg = Some 0 \<or> rc_max_bytes cfg = Some 0)
          in (limited,
              counters(k \<mapsto> \<lparr>wc_start = now, wc_messages = 1, wc_bytes = as_u64 frame_len\<rparr>),
              if limited then insert_ban now ban k bans else bans))"

definition check_and_record ::
  "instant \<Rightarrow> string \<Rightarrow> ip_addr \<Rightarrow> nat \<Rightarrow> limiter_state \<Rightarrow> verdict \<times> limiter_state" where
  "check_and_record now connection_id ip frame_len st =
     (let (banned, conn_bans) = check_ban now connection_id (ls_conn_bans st);
          st = st\<lparr>ls_conn_bans := conn_bans\<rparr>
      in if banned then (Banned, st)
      else let (banned, ip_bans) = check_ban now ip (ls_ip_bans st);
               st = st\<lparr>ls_ip_bans := ip_bans\<rparr>
      in if banned then (Banned, st)
      else let (limited1, st) =
             (case rl_connection (ls_config st) of
                Some cfg \<Rightarrow>
                  let (limited, counters, bans) =
                        check_dimension now (rl_ban_duration (ls_config st)) cfg connection_id frame_len
                          (ls_conn_counters st) (ls_conn_bans st)
                  in (limited, st\<lparr>ls_conn_counters := counters, ls_conn_bans := bans\<rparr>)
              | None \<Rightarrow> (False, st));
             (limited2, st) =
             (case rl_ip (ls_config st) of
                Some cfg \<Rightarrow>
                  let (limited, counters, bans) =
                        check_dimension now (rl_ban_duration (ls_config st)) cfg ip frame_len
                          (ls_ip_counters st) (ls_ip_bans st)
                  in (limited, st\<lparr>ls_ip_counters := counters, ls_ip_bans := bans\<rparr>)
              | None \<Rightarrow> (False, st))
      in (if limited1 \<or> limited2 then Limited else Allowed, st))"

text \<open>\<open>DashMap::retain\<close>, and the periods of the configured dimensions.\<close>

definition retain :: "('v \<Rightarrow> bool) \<Rightarrow> ('k \<rightharpoonup> 'v) \<Rightarrow> ('k \<rightharpoonup> 'v)" where
  "retain keep m = (\<lambda>k. case m k of Some v \<Rightarrow> if keep v then Some v else None | None \<Rightarrow> None)"

definition periods :: "rate_limiter \<Rightarrow> duration list" where
  "periods r = map rc_period (case rl_connection r of Some c \<Rightarrow> [c] | None \<Rightarrow> [])
     @ map rc_period (case rl_ip r of Some c \<Rightarrow> [c] | None \<Rightarrow> [])"

definition from_secs :: "nat \<Rightarrow> duration" where
  "from_secs s = s * 1000000000"

definition stale_threshold :: "rate_limiter \<Rightarrow> duration" where
  "stale_threshold r =
     (case periods r of [] \<Rightarrow> from_secs 60 | p # ps \<Rightarrow> fold max ps p) * 2"

definition cleanup :: "instant \<Rightarrow> limiter_state \<Rightarrow> limiter_state" where
  "cleanup now st =
     (let threshold = stale_threshold (ls_config st) in
      st\<lparr>ls_conn_counters := retain (\<lambda>v. now - wc_start v < threshold) (ls_conn_counters st),
         ls_ip_counters := retain (\<lambda>v. now - wc_start v < threshold) (ls_ip_counters st),
         ls_conn_bans := retain (\<lambda>v. now < v) (ls_conn_bans st),
         ls_ip_bans := retain (\<lambda>v. now < v) (ls_ip_bans st)\<rparr>)"

definition cleanup_interval :: "limiter_state \<Rightarrow> duration" where
  "cleanup_interval st =
     max (case periods (ls_config st) of [] \<Rightarrow> from_secs 5 | p # ps \<Rightarrow> fold min ps p) (from_secs 1)"


subsection \<open>What one check does to each field\<close>

text \<open>
  The two dimensions run the same code: \<open>count_frame\<close> is what a check does to the counter of its
  key, \<open>dim_limited\<close> whether a dimension objects, \<open>live_ban\<close> whether a ban still runs.
\<close>

definition live_ban :: "instant \<Rightarrow> 'k \<Rightarrow> ('k \<rightharpoonup> instant) \<Rightarrow> bool" where
  "live_ban now k bans \<longleftrightarrow> (case bans k of Some e \<Rightarrow> now < e | None \<Rightarrow> False)"

definition count_in :: "rate_limit_config \<Rightarrow> nat \<Rightarrow> window_counter \<Rightarrow> bool \<times> window_counter" where
  "count_in cfg n w =
     (let w' = w\<lparr>wc_messages := wc_messages w + 1, wc_bytes := wc_bytes w + as_u64 n\<rparr>
      in (exceeds w' cfg, w'))"

definition count_frame ::
  "instant \<Rightarrow> rate_limit_config \<Rightarrow> nat \<Rightarrow> window_counter option \<Rightarrow> bool \<times> window_counter" where
  "count_frame now cfg n c =
     (case c of
        Some w \<Rightarrow> count_in cfg n (maybe_reset now (rc_period cfg) w)
      | None \<Rightarrow> (rc_max_messages cfg = Some 0 \<or> rc_max_bytes cfg = Some 0,
                 \<lparr>wc_start = now, wc_messages = 1, wc_bytes = as_u64 n\<rparr>))"

definition dim_limited ::
  "instant \<Rightarrow> rate_limit_config option \<Rightarrow> nat \<Rightarrow> window_counter option \<Rightarrow> bool" where
  "dim_limited now cfg n c = (case cfg of Some cfg \<Rightarrow> fst (count_frame now cfg n c) | None \<Rightarrow> False)"

definition dim_count ::
  "instant \<Rightarrow> rate_limit_config option \<Rightarrow> nat \<Rightarrow> 'k \<Rightarrow> ('k \<rightharpoonup> window_counter) \<Rightarrow> ('k \<rightharpoonup> window_counter)" where
  "dim_count now cfg n k cs =
     (case cfg of Some cfg \<Rightarrow> cs(k \<mapsto> snd (count_frame now cfg n (cs k))) | None \<Rightarrow> cs)"

definition dim_ban ::
  "instant \<Rightarrow> duration option \<Rightarrow> rate_limit_config option \<Rightarrow> nat \<Rightarrow> 'k \<Rightarrow> ('k \<rightharpoonup> window_counter)
     \<Rightarrow> ('k \<rightharpoonup> instant) \<Rightarrow> ('k \<rightharpoonup> instant)" where
  "dim_ban now ban cfg n k cs bs =
     (if dim_limited now cfg n (cs k) then insert_ban now ban k bs else bs)"

definition blocked :: "instant \<Rightarrow> string \<Rightarrow> ip_addr \<Rightarrow> limiter_state \<Rightarrow> bool" where
  "blocked now c ip st \<longleftrightarrow> live_ban now c (ls_conn_bans st) \<or> live_ban now ip (ls_ip_bans st)"

lemma check_ban_eq:
  "check_ban now k bans = (live_ban now k bans, if live_ban now k bans then bans else bans(k := None))"
  by (auto simp: check_ban_def live_ban_def fun_eq_iff split: option.splits)

lemma check_dimension_eq:
  "check_dimension now ban cfg k n cs bs =
     (dim_limited now (Some cfg) n (cs k), dim_count now (Some cfg) n k cs,
      dim_ban now ban (Some cfg) n k cs bs)"
  by (simp add: check_dimension_def dim_limited_def dim_count_def dim_ban_def count_frame_def
      count_in_def Let_def split: option.splits)

lemmas check_simps = check_and_record_def check_ban_eq check_dimension_eq blocked_def Let_def
  dim_count_def dim_ban_def dim_limited_def

lemma verdict_of_check:
  "fst (check_and_record now c ip n st) =
     (if blocked now c ip st then Banned
      else if dim_limited now (rl_connection (ls_config st)) n (ls_conn_counters st c) \<or>
              dim_limited now (rl_ip (ls_config st)) n (ls_ip_counters st ip)
      then Limited else Allowed)"
  by (auto simp: check_simps split: option.splits)

lemma config_of_check [simp]: "ls_config (snd (check_and_record now c ip n st)) = ls_config st"
  by (auto simp: check_simps split: option.splits)

lemma conn_counters_of_check:
  "ls_conn_counters (snd (check_and_record now c ip n st)) =
     (if blocked now c ip st then ls_conn_counters st
      else dim_count now (rl_connection (ls_config st)) n c (ls_conn_counters st))"
  by (auto simp: check_simps split: option.splits)

lemma ip_counters_of_check:
  "ls_ip_counters (snd (check_and_record now c ip n st)) =
     (if blocked now c ip st then ls_ip_counters st
      else dim_count now (rl_ip (ls_config st)) n ip (ls_ip_counters st))"
  by (auto simp: check_simps split: option.splits)

lemma conn_bans_of_check:
  "ls_conn_bans (snd (check_and_record now c ip n st)) =
     (if live_ban now c (ls_conn_bans st) then ls_conn_bans st
      else if live_ban now ip (ls_ip_bans st) then (ls_conn_bans st)(c := None)
      else dim_ban now (rl_ban_duration (ls_config st)) (rl_connection (ls_config st)) n c
             (ls_conn_counters st) ((ls_conn_bans st)(c := None)))"
  by (auto simp: check_simps split: option.splits)

lemma ip_bans_of_check:
  "ls_ip_bans (snd (check_and_record now c ip n st)) =
     (if blocked now c ip st then ls_ip_bans st
      else dim_ban now (rl_ban_duration (ls_config st)) (rl_ip (ls_config st)) n ip
             (ls_ip_counters st) ((ls_ip_bans st)(ip := None)))"
  by (auto simp: check_simps split: option.splits)

lemmas of_check = verdict_of_check conn_counters_of_check ip_counters_of_check conn_bans_of_check
  ip_bans_of_check


subsection \<open>Sequences of operations\<close>

text \<open>
  The server calls the limiter from three places: the accept loop asks \<open>is_ip_banned\<close>, every
  reader task calls \<open>check_and_record\<close> on each frame, and a background task calls \<open>cleanup\<close>. A run
  is any interleaving of these calls with the time of each.
\<close>

datatype rl_op = Check string ip_addr nat | QueryIp ip_addr | Cleanup

datatype rl_result = Verdict verdict | IpBanned bool | Done

type_synonym rl_call = "instant \<times> rl_op"

fun rl_step :: "rl_call \<Rightarrow> limiter_state \<Rightarrow> rl_result \<times> limiter_state" where
  "rl_step (now, Check c ip n) st =
     (let (v, st') = check_and_record now c ip n st in (Verdict v, st'))"
| "rl_step (now, QueryIp ip) st = (let (b, st') = is_ip_banned now ip st in (IpBanned b, st'))"
| "rl_step (now, Cleanup) st = (Done, cleanup now st)"

fun rl_run :: "rl_call list \<Rightarrow> limiter_state \<Rightarrow> rl_result list \<times> limiter_state" where
  "rl_run [] st = ([], st)"
| "rl_run (call # calls) st =
     (let (r, st1) = rl_step call st; (rs, st2) = rl_run calls st1 in (r # rs, st2))"

lemma rl_step_check [simp]:
  "snd (rl_step (now, Check c ip n) st) = snd (check_and_record now c ip n st)"
  "fst (rl_step (now, Check c ip n) st) = Verdict (fst (check_and_record now c ip n st))"
  by (simp_all add: split_beta)

lemma rl_step_query [simp]:
  "snd (rl_step (now, QueryIp ip) st) = snd (is_ip_banned now ip st)"
  "fst (rl_step (now, QueryIp ip) st) = IpBanned (fst (is_ip_banned now ip st))"
  by (simp_all add: split_beta)

declare rl_step.simps(1,2) [simp del]

lemma rl_run_Cons [simp]:
  "rl_run (call # calls) st =
     (fst (rl_step call st) # fst (rl_run calls (snd (rl_step call st))),
      snd (rl_run calls (snd (rl_step call st))))"
  by (simp add: split_beta)

declare rl_run.simps(2) [simp del]

lemma is_ip_banned_eq:
  "is_ip_banned now ip st =
     (live_ban now ip (ls_ip_bans st),
      if live_ban now ip (ls_ip_bans st) then st else st\<lparr>ls_ip_bans := (ls_ip_bans st)(ip := None)\<rparr>)"
  by (simp add: is_ip_banned_def check_ban_eq)

lemma rl_step_cases:
  obtains (check) now c ip n where "call = (now, Check c ip n)"
  | (query) now ip where "call = (now, QueryIp ip)"
  | (cleanup) now where "call = (now, Cleanup)"
  by (cases call, cases "snd call") auto

lemma config_of_step [simp]: "ls_config (snd (rl_step call st)) = ls_config st"
  by (cases call rule: rl_step_cases) (simp_all add: is_ip_banned_eq cleanup_def Let_def)

lemma retain_eq_Some [simp]: "retain keep m k = Some v \<longleftrightarrow> m k = Some v \<and> keep v"
  by (auto simp: retain_def split: option.splits)

lemma live_ban_Some [simp]: "bans k = Some e \<Longrightarrow> live_ban now k bans \<longleftrightarrow> now < e"
  by (simp add: live_ban_def)

subsection \<open>Bans are enforced\<close>

text \<open>
  A table of bans as its clients see it: a live ban makes every check of its key \<open>Banned\<close>, and no
  call of the limiter lifts or changes a ban that is still running.
\<close>

locale ban_dimension =
  fixes bans :: "limiter_state \<Rightarrow> 'k \<rightharpoonup> instant"
    and key :: "string \<Rightarrow> ip_addr \<Rightarrow> 'k"
  assumes enforced: "live_ban now (key c ip) (bans st) \<Longrightarrow> fst (check_and_record now c ip n st) = Banned"
    and kept: "bans st k = Some e \<Longrightarrow> now < e \<Longrightarrow> bans (snd (rl_step (now, opn) st)) k = Some e"
begin

lemma run_keeps:
  "bans st k = Some e \<Longrightarrow> \<forall>call \<in> set calls. fst call < e \<Longrightarrow> bans (snd (rl_run calls st)) k = Some e"
proof (induction calls arbitrary: st)
  case (Cons call calls)
  then show ?case by (cases call) (simp add: kept)
qed simp

lemma run_enforces:
  assumes "bans st (key c ip) = Some e" "\<forall>call \<in> set calls. fst call < e" "u < e"
  shows "fst (check_and_record u c ip n (snd (rl_run calls st))) = Banned"
  using run_keeps [OF assms(1,2)] assms(3) by (simp add: enforced)

end

interpretation conn_bans: ban_dimension ls_conn_bans "\<lambda>c ip. c"
proof
  show "ls_conn_bans (snd (rl_step (now, opn) st)) k = Some e"
    if "ls_conn_bans st k = Some e" "now < e" for st k e now opn
    using that
    by (cases opn)
      (auto simp: of_check is_ip_banned_eq cleanup_def Let_def dim_ban_def insert_ban_def live_ban_def
        split: option.splits)
qed (simp add: verdict_of_check blocked_def)

interpretation ip_bans: ban_dimension ls_ip_bans "\<lambda>c ip. ip"
proof
  show "ls_ip_bans (snd (rl_step (now, opn) st)) k = Some e"
    if "ls_ip_bans st k = Some e" "now < e" for st k e now opn
    using that
    by (cases opn)
      (auto simp: of_check is_ip_banned_eq cleanup_def Let_def dim_ban_def insert_ban_def live_ban_def
        blocked_def split: option.splits)
qed (simp add: verdict_of_check blocked_def)

lemma limited_inserts_ban:
  assumes "fst (check_and_record t c ip n st) = Limited" "rl_ban_duration (ls_config st) = Some d"
  shows "ls_conn_bans (snd (check_and_record t c ip n st)) c = Some (t + d) \<or>
         ls_ip_bans (snd (check_and_record t c ip n st)) ip = Some (t + d)"
  using assms by (auto simp: of_check dim_ban_def insert_ban_def blocked_def split: if_splits)

text \<open>
  C14. Ban enforcement: once a frame of connection \<open>c\<close> from address \<open>ip\<close> is judged \<open>Limited\<close> at time
  \<open>t\<close> under a configured ban of \<open>d\<close>, every later check of that connection before \<open>t + d\<close> answers
  \<open>Banned\<close>, whatever checks, address queries and clean-ups run in between.
\<close>

theorem limited_then_banned:
  assumes "check_and_record t c ip n st = (Limited, st')"
    and "rl_ban_duration (ls_config st) = Some d"
    and "\<forall>call \<in> set calls. fst call < t + d" "u < t + d"
  shows "fst (check_and_record u c ip m (snd (rl_run calls st'))) = Banned"
proof -
  have "ls_conn_bans st' c = Some (t + d) \<or> ls_ip_bans st' ip = Some (t + d)"
    using limited_inserts_ban [of t c ip n st d] assms(1,2) by simp
  then show ?thesis
    using assms(3,4) by (auto intro: conn_bans.run_enforces ip_bans.run_enforces)
qed

definition ban_example :: rate_limiter where
  "ban_example = ban_duration (from_secs 60)
     (limit_connection (with_max_messages 1 (rate_limit_config_new (from_secs 1))) rate_limiter_new)"

lemmas ban_example_defs = ban_example_def ban_duration_def limit_connection_def with_max_messages_def
  rate_limit_config_new_def rate_limiter_new_def from_secs_def

theorem limited_then_banned_witness:
  "let st = snd (check_and_record 0 ''conn-1'' (IpV4 1) 40 (build ban_example));
       st' = snd (check_and_record 5 ''conn-1'' (IpV4 1) 40 st)
   in fst (check_and_record 5 ''conn-1'' (IpV4 1) 40 st) = Limited \<and>
      fst (check_and_record 59000000000 ''conn-1'' (IpV4 1) 40
        (snd (rl_run [(7, Cleanup), (30000000000, QueryIp (IpV4 1))] st'))) = Banned"
proof -
  let ?st = "snd (check_and_record 0 ''conn-1'' (IpV4 1) 40 (build ban_example))"
  have lim: "fst (check_and_record 5 ''conn-1'' (IpV4 1) 40 ?st) = Limited"
    by (simp add: of_check blocked_def live_ban_def build_def ban_example_defs dim_limited_def
        dim_count_def dim_ban_def count_frame_def count_in_def exceeds_def maybe_reset_def Let_def)
  moreover have "rl_ban_duration (ls_config ?st) = Some 60000000000"
    by (simp add: build_def ban_example_defs)
  ultimately show ?thesis
    using limited_then_banned [of 5 "''conn-1''" "IpV4 1" 40 ?st
        "snd (check_and_record 5 ''conn-1'' (IpV4 1) 40 ?st)" 60000000000
        "[(7, Cleanup), (30000000000, QueryIp (IpV4 1))]" 59000000000 40]
    by (simp add: prod_eq_iff Let_def)
qed


subsection \<open>What is let through\<close>

text \<open>
  \<open>admitted key k calls st\<close> lists the times and lengths of the frames of key \<open>k\<close> that a run
  allows; \<open>volume f a b\<close> adds up \<open>f\<close> of the frame lengths in the interval from \<open>a\<close> to before \<open>b\<close>.
\<close>

fun admitted :: "(string \<Rightarrow> ip_addr \<Rightarrow> 'k) \<Rightarrow> 'k \<Rightarrow> rl_call list \<Rightarrow> limiter_state \<Rightarrow> (instant \<times> nat) list" where
  "admitted key k [] st = []"
| "admitted key k ((now, opn) # calls) st =
     (case opn of
        Check c ip n \<Rightarrow>
          if key c ip = k \<and> fst (check_and_record now c ip n st) = Allowed then [(now, n)] else []
      | _ \<Rightarrow> [])
     @ admitted key k calls (snd (rl_step (now, opn) st))"

definition volume :: "(nat \<Rightarrow> nat) \<Rightarrow> instant \<Rightarrow> instant \<Rightarrow> (instant \<times> nat) list \<Rightarrow> nat" where
  "volume f a b L = sum_list (map (\<lambda>(t, n). if a \<le> t \<and> t < b then f n else 0) L)"

fun load :: "(nat \<Rightarrow> nat) \<Rightarrow> rl_call list \<Rightarrow> nat" where
  "load f [] = 0"
| "load f ((now, opn) # calls) = (case opn of Check c ip n \<Rightarrow> f n | _ \<Rightarrow> 0) + load f calls"

lemma volume_Nil [simp]: "volume f a b [] = 0"
  by (simp add: volume_def)

lemma volume_snoc [simp]:
  "volume f a b (L @ [(t, n)]) = volume f a b L + (if a \<le> t \<and> t < b then f n else 0)"
  by (simp add: volume_def)

lemma volume_empty [simp]: "volume f a a L = 0"
  by (induction L) (auto simp: volume_def)

lemma volume_mono:
  assumes "\<And>t n. (t, n) \<in> set L \<Longrightarrow> a \<le> t \<Longrightarrow> t < b \<Longrightarrow> a' \<le> t \<and> t < b'"
  shows "volume f a b L \<le> volume f a' b' L"
  unfolding volume_def by (rule sum_list_mono) (use assms in auto)

lemma volume_split:
  "volume f a b L \<le> volume f a s L + volume f s e L" if "\<And>t n. (t, n) \<in> set L \<Longrightarrow> t < e"
proof -
  have "volume f a b L \<le> sum_list (map (\<lambda>(t, n). (if a \<le> t \<and> t < s then f n else 0)
      + (if s \<le> t \<and> t < e then f n else 0)) L)"
    unfolding volume_def by (rule sum_list_mono) (use that in auto)
  also have "\<dots> = volume f a s L + volume f s e L"
    by (induction L) (auto simp: volume_def)
  finally show ?thesis .
qed

text \<open>
  The history of a fixed-window counter whose current window starts at \<open>s\<close>: at most \<open>m\<close> was let
  through in the window, at most \<open>m\<close> in any stretch before it that an interval of one period can
  still reach, and at most \<open>2 * m\<close> in any interval of one period.
\<close>

definition window_log :: "duration \<Rightarrow> nat \<Rightarrow> (nat \<Rightarrow> nat) \<Rightarrow> (instant \<times> nat) list \<Rightarrow> instant \<Rightarrow> bool" where
  "window_log p m f L s \<longleftrightarrow>
     (\<forall>(t, n) \<in> set L. t < s + p) \<and> volume f s (s + p) L \<le> m \<and>
     (\<forall>a. s < a + p \<longrightarrow> volume f a s L \<le> m) \<and> (\<forall>a. volume f a (a + p) L \<le> 2 * m)"

lemma window_log_Nil [simp]: "window_log p m f [] s"
  by (simp add: window_log_def)

lemma window_log_roll:
  assumes "window_log p m f L s" "s + p \<le> now"
  shows "window_log p m f L now \<and> volume f now (now + p) L = 0"
proof -
  have end_of: "t < s + p" if "(t, n) \<in> set L" for t n
    using assms(1) that by (auto simp: window_log_def)
  have "volume f now (now + p) L \<le> volume f 0 0 L"
    by (rule volume_mono) (use end_of assms(2) in fastforce)
  moreover have "volume f a now L \<le> m" if "now < a + p" for a
  proof -
    have "volume f a now L \<le> volume f s (s + p) L"
      by (rule volume_mono) (use end_of assms(2) that in fastforce)
    then show ?thesis using assms(1) by (simp add: window_log_def)
  qed
  moreover have "\<forall>(t, n) \<in> set L. t < now + p"
    using end_of assms(2) by fastforce
  ultimately show ?thesis
    using assms(1) by (simp add: window_log_def)
qed

lemma window_log_add:
  assumes W: "window_log p m f L s" and t: "s \<le> t" "t < s + p"
    and fits: "volume f s (s + p) L + f n \<le> m"
  shows "window_log p m f (L @ [(t, n)]) s"
proof -
  have end_of: "t' < s + p" if "(t', n') \<in> set L" for t' n'
    using W that by (auto simp: window_log_def)
  have "volume f a (a + p) L + f n \<le> 2 * m" if "a \<le> t" "t < a + p" for a
  proof (cases "s < a + p \<and> a < s")
    case True
    then have "volume f a s L \<le> m" using W by (simp add: window_log_def)
    moreover have "volume f a (a + p) L \<le> volume f a s L + volume f s (s + p) L"
      by (rule volume_split) (use end_of in auto)
    ultimately show ?thesis using fits by simp
  next
    case False
    with t that have "s \<le> a" by simp
    then have "volume f a (a + p) L \<le> volume f s (s + p) L"
      by (intro volume_mono) (use end_of in fastforce)
    then show ?thesis using fits by simp
  qed
  then show ?thesis
    using W t fits by (auto simp: window_log_def)
qed


text \<open>
  The contract of a dimension for its counters: checks that are not refused by a ban count the
  frame on the counter of their key and are \<open>Allowed\<close> only when the dimension does not object; no
  other call touches a counter, except that a clean-up may drop one whose window is over.
\<close>

locale counter_dimension =
  fixes counters :: "limiter_state \<Rightarrow> 'k \<rightharpoonup> window_counter"
    and key :: "string \<Rightarrow> ip_addr \<Rightarrow> 'k"
    and cfg :: "rate_limiter \<Rightarrow> rate_limit_config option"
  assumes counted: "cfg (ls_config st) = Some g \<Longrightarrow> fst (check_and_record now c ip n st) \<noteq> Banned \<Longrightarrow>
        counters (snd (check_and_record now c ip n st)) (key c ip) =
          Some (snd (count_frame now g n (counters st (key c ip))))"
    and refused: "fst (check_and_record now c ip n st) = Banned \<Longrightarrow>
        counters (snd (check_and_record now c ip n st)) = counters st"
    and untouched: "key c ip \<noteq> k \<Longrightarrow> counters (snd (check_and_record now c ip n st)) k = counters st k"
    and respected: "cfg (ls_config st) = Some g \<Longrightarrow> fst (check_and_record now c ip n st) = Allowed \<Longrightarrow>
        \<not> fst (count_frame now g n (counters st (key c ip)))"
    and queried: "counters (snd (is_ip_banned now ip st)) = counters st"
    and cleaned: "cfg (ls_config st) = Some g \<Longrightarrow> counters st k = Some w \<Longrightarrow>
        counters (cleanup now st) k = Some w \<or>
        counters (cleanup now st) k = None \<and> rc_period g \<le> now - wc_start w"
    and cleaned_None: "counters st k = None \<Longrightarrow> counters (cleanup now st) k = None"

lemma wc_start_count [simp]:
  "wc_start (snd (count_in g n w)) = wc_start w" "wc_start (snd (count_frame now g n None)) = now"
  by (simp_all add: count_in_def count_frame_def Let_def)

text \<open>What a counter measures, and the threshold on it.\<close>

locale counter_measure =
  fixes used :: "window_counter \<Rightarrow> u64"
    and limit :: "rate_limit_config \<Rightarrow> u64 option"
    and weight :: "nat \<Rightarrow> nat"
  assumes used_reset: "used \<lparr>wc_start = now, wc_messages = 0, wc_bytes = 0\<rparr> = 0"
    and used_fresh: "used (snd (count_frame now g n None)) = as_u64 (weight n)"
    and used_count: "used (snd (count_in g n w)) = used w + as_u64 (weight n)"
    and limit_holds: "\<not> fst (count_in g n w) \<Longrightarrow> limit g = Some m \<Longrightarrow> used (snd (count_in g n w)) \<le> m"
    and limit_fresh: "\<not> fst (count_frame now g n None) \<Longrightarrow> limit g = Some m \<Longrightarrow> m \<noteq> 0"

locale window_quota = counter_dimension counters key cfg + counter_measure used limit weight
  for counters :: "limiter_state \<Rightarrow> 'k \<rightharpoonup> window_counter"
    and key :: "string \<Rightarrow> ip_addr \<Rightarrow> 'k"
    and cfg :: "rate_limiter \<Rightarrow> rate_limit_config option"
    and used :: "window_counter \<Rightarrow> u64"
    and limit :: "rate_limit_config \<Rightarrow> u64 option"
    and weight :: "nat \<Rightarrow> nat"
begin

definition quota_inv :: "duration \<Rightarrow> nat \<Rightarrow> (instant \<times> nat) list \<Rightarrow> nat \<Rightarrow> instant \<Rightarrow> window_counter option \<Rightarrow> bool" where
  "quota_inv p m L T now c \<longleftrightarrow>
     (\<exists>s \<le> now. window_log p m weight L s \<and>
        (case c of Some w \<Rightarrow> wc_start w = s \<and> volume weight s (s + p) L \<le> unat (used w) \<and> unat (used w) \<le> T
         | None \<Rightarrow> L = [] \<or> s + p \<le> now))"

lemma quota_inv_later: "quota_inv p m L T now c \<Longrightarrow> now \<le> now' \<Longrightarrow> quota_inv p m L T now' c"
  unfolding quota_inv_def by (cases c) (auto intro: le_trans)

lemma quota_inv_drop:
  "quota_inv p m L T now (Some w) \<Longrightarrow> p \<le> now - wc_start w \<Longrightarrow> quota_inv p m L T now None"
  unfolding quota_inv_def by auto

lemma unat_used_add:
  "unat (used w) \<le> T \<Longrightarrow> T + weight n < 2 ^ 64 \<Longrightarrow> unat (used w + as_u64 (weight n)) = unat (used w) + weight n"
  by (subst unat_add_lem [THEN iffD1]) (simp_all add: unat_of_nat take_bit_nat_eq_self_iff)

lemma fresh_window:
  assumes "\<And>w. c = Some w \<Longrightarrow> rc_period g \<le> now - wc_start w"
  shows "wc_start (snd (count_frame now g n c)) = now"
    and "used (snd (count_frame now g n c)) = as_u64 (weight n)"
proof -
  have "count_frame now g n c =
      (case c of None \<Rightarrow> count_frame now g n None
       | Some w \<Rightarrow> count_in g n \<lparr>wc_start = now, wc_messages = 0, wc_bytes = 0\<rparr>)"
    using assms by (auto simp: count_frame_def maybe_reset_def split: option.splits)
  then show "wc_start (snd (count_frame now g n c)) = now"
    and "used (snd (count_frame now g n c)) = as_u64 (weight n)"
    by (auto simp: used_fresh used_count used_reset split: option.splits)
qed

text \<open>The counter's window at the time of a check, before the frame is counted.\<close>

lemma quota_inv_window:
  assumes I: "quota_inv p m L T now c" and p: "p = rc_period g" "0 < p" and no_wrap: "T + weight n < 2 ^ 64"
  obtains s where "s \<le> now" "now < s + p" "window_log p m weight L s"
    "wc_start (snd (count_frame now g n c)) = s"
    "volume weight s (s + p) L + weight n \<le> unat (used (snd (count_frame now g n c)))"
    "unat (used (snd (count_frame now g n c))) \<le> T + weight n"
proof -
  obtain s where s: "s \<le> now" "window_log p m weight L s" and
    c: "case c of Some w \<Rightarrow> wc_start w = s \<and> volume weight s (s + p) L \<le> unat (used w) \<and> unat (used w) \<le> T
         | None \<Rightarrow> L = [] \<or> s + p \<le> now"
    using I by (auto simp: quota_inv_def)
  show thesis
  proof (cases "L = [] \<and> c = None \<or> s + p \<le> now")
    case True
    then have W: "window_log p m weight L now" "volume weight now (now + p) L = 0"
      using window_log_roll [OF s(2)] by auto
    have "\<And>w. c = Some w \<Longrightarrow> rc_period g \<le> now - wc_start w"
      using c True p(1) by auto
    then have "wc_start (snd (count_frame now g n c)) = now"
      and u: "used (snd (count_frame now g n c)) = as_u64 (weight n)"
      using fresh_window [of c g now n] by blast+
    moreover have "unat (as_u64 (weight n)) = weight n"
      using no_wrap by (simp add: unat_of_nat take_bit_nat_eq_self_iff)
    ultimately show thesis
      using that [of now] W p(2) by simp
  next
    case False
    then obtain w where w: "c = Some w" "wc_start w = s" "volume weight s (s + p) L \<le> unat (used w)"
        "unat (used w) \<le> T" and in_window: "now < s + p"
      using c by (cases c) auto
    have "\<not> p \<le> now - s" using in_window p(2) by arith
    then have eq: "count_frame now g n c = count_in g n w"
      using w p(1) by (simp add: count_frame_def maybe_reset_def)
    show thesis
      by (rule that [of s]) (use s w(2-4) in_window unat_used_add [OF w(4) no_wrap] in
          \<open>simp_all add: eq used_count\<close>)
  qed
qed

text \<open>A frame that is let through leaves its counter within the threshold.\<close>

lemma allowed_within:
  assumes "\<not> fst (count_frame now g n c)" "limit g = Some m" "weight n \<le> unat m \<or> m = 0"
    "weight n < 2 ^ 64"
  shows "unat (used (snd (count_frame now g n c))) \<le> unat m"
proof (cases c)
  case None
  have "unat (as_u64 (weight n)) = weight n"
    using assms(4) by (simp add: unat_of_nat take_bit_nat_eq_self_iff)
  then show ?thesis
    using assms None limit_fresh [of now g n m] used_fresh [of now g n] by auto
next
  case (Some w)
  then show ?thesis
    using assms(1,2) limit_holds [of g n "maybe_reset now (rc_period g) w" m]
    by (simp add: count_frame_def word_le_nat_alt)
qed

lemma quota_inv_check:
  assumes I: "quota_inv p (unat m) L T now (counters st (key c ip))"
    and g: "cfg (ls_config st) = Some g" "limit g = Some m" "p = rc_period g" "0 < p"
    and fits: "weight n \<le> unat m \<or> m = 0" and no_wrap: "T + weight n < 2 ^ 64"
  shows "quota_inv p (unat m)
    (L @ (if fst (check_and_record now c ip n st) = Allowed then [(now, n)] else []))
    (T + weight n) now (counters (snd (check_and_record now c ip n st)) (key c ip))"
proof (cases "fst (check_and_record now c ip n st) = Banned")
  case True
  then show ?thesis using I by (auto simp: refused quota_inv_def split: option.splits)
next
  case False
  let ?w = "snd (count_frame now g n (counters st (key c ip)))"
  obtain s where s: "s \<le> now" "now < s + p" "window_log p (unat m) weight L s" "wc_start ?w = s"
      "volume weight s (s + p) L + weight n \<le> unat (used ?w)" "unat (used ?w) \<le> T + weight n"
    by (rule quota_inv_window [OF I g(3,4) no_wrap])
  have "window_log p (unat m) weight (L @ [(now, n)]) s"
    if "fst (check_and_record now c ip n st) = Allowed"
  proof (rule window_log_add [OF s(3,1,2)])
    have "unat (used ?w) \<le> unat m"
      using respected [OF g(1) that] g(2) fits no_wrap by (intro allowed_within) auto
    then show "volume weight s (s + p) L + weight n \<le> unat m" using s(5) by simp
  qed
  then show ?thesis
    using s counted [OF g(1) False] by (auto simp: quota_inv_def)
qed

lemma quota_inv_step:
  assumes I: "quota_inv p (unat m) L T now (counters st k)" and later: "now \<le> t"
    and g: "cfg (ls_config st) = Some g" "limit g = Some m" "p = rc_period g" "0 < p"
    and fits: "\<And>c ip n. opn = Check c ip n \<Longrightarrow> weight n \<le> unat m \<or> m = 0"
    and no_wrap: "T + load weight [(t, opn)] < 2 ^ 64"
  shows "quota_inv p (unat m) (L @ admitted key k [(t, opn)] st) (T + load weight [(t, opn)]) t
    (counters (snd (rl_step (t, opn) st)) k)"
proof (cases opn)
  case (Check c ip n)
  show ?thesis
  proof (cases "key c ip = k")
    case True
    then show ?thesis
      using quota_inv_check [OF _ g fits [OF Check], of L T t c ip] quota_inv_later [OF I later] no_wrap
      by (auto simp: Check)
  next
    case False
    then show ?thesis
      using quota_inv_later [OF I later]
      by (auto simp: Check untouched quota_inv_def split: option.splits)
  qed
next
  case (QueryIp ip)
  then show ?thesis using quota_inv_later [OF I later] by (simp add: queried)
next
  case Cleanup
  show ?thesis
  proof (cases "counters st k")
    case None
    then show ?thesis
      using quota_inv_later [OF I later] by (simp add: Cleanup cleaned_None)
  next
    case (Some w)
    then show ?thesis
      using quota_inv_later [OF I later] cleaned [OF g(1) Some, of t] g(3)
      by (auto simp: Cleanup intro: quota_inv_drop)
  qed
qed

lemma quota_inv_run:
  assumes "quota_inv p (unat m) L T now (counters st k)" "sorted (now # map fst calls)"
    and "cfg (ls_config st) = Some g" "limit g = Some m" "p = rc_period g" "0 < p"
    and "\<forall>c ip n t. (t, Check c ip n) \<in> set calls \<longrightarrow> weight n \<le> unat m \<or> m = 0"
    and "T + load weight calls < 2 ^ 64"
  shows "\<exists>s. window_log p (unat m) weight (L @ admitted key k calls st) s"
  using assms
proof (induction calls arbitrary: L T now st)
  case Nil
  then show ?case by (auto simp: quota_inv_def)
next
  case (Cons call calls)
  obtain t opn where call: "call = (t, opn)" by (cases call)
  have "quota_inv p (unat m) (L @ admitted key k [(t, opn)] st) (T + load weight [(t, opn)]) t
      (counters (snd (rl_step (t, opn) st)) k)"
    using Cons.prems call by (intro quota_inv_step [OF Cons.prems(1) _ Cons.prems(3-6)]) auto
  then show ?case
    using Cons.IH [of "L @ admitted key k [(t, opn)] st" "T + load weight [(t, opn)]" t
        "snd (rl_step (t, opn) st)"] Cons.prems call
    by (fastforce simp: add.assoc)
qed

lemma run_bound:
  assumes "counters st k = None" "sorted (map fst calls)"
    and "cfg (ls_config st) = Some g" "limit g = Some m"
    and "\<forall>c ip n t. (t, Check c ip n) \<in> set calls \<longrightarrow> weight n \<le> unat m \<or> m = 0"
    and "load weight calls < 2 ^ 64"
  shows "volume weight a (a + rc_period g) (admitted key k calls st) \<le> 2 * unat m"
proof (cases "rc_period g = 0")
  case False
  have "quota_inv (rc_period g) (unat m) [] 0 0 (counters st k)"
    using assms(1) by (simp add: quota_inv_def)
  then show ?thesis
    using quota_inv_run [of "rc_period g" m "[]" 0 0 st k calls g] assms False
    by (auto simp: window_log_def)
qed simp

end


subsubsection \<open>The four quotas of the limiter\<close>

lemma period_le_threshold:
  "rl_connection r = Some g \<Longrightarrow> rc_period g \<le> stale_threshold r"
  "rl_ip r = Some g \<Longrightarrow> rc_period g \<le> stale_threshold r"
  by (auto simp: stale_threshold_def periods_def split: option.splits)

lemma retain_None [simp]: "m k = None \<Longrightarrow> retain keep m k = None"
  by (simp add: retain_def)

lemma retain_Some_cases: "m k = Some v \<Longrightarrow> retain keep m k = (if keep v then Some v else None)"
  by (simp add: retain_def)

interpretation conn_counters: counter_dimension ls_conn_counters "\<lambda>c ip. c" rl_connection
proof
  show "ls_conn_counters (cleanup now st) k = Some w \<or>
      ls_conn_counters (cleanup now st) k = None \<and> rc_period g \<le> now - wc_start w"
    if "rl_connection (ls_config st) = Some g" "ls_conn_counters st k = Some w" for st g k w now
    using period_le_threshold(1) [OF that(1)] that(2)
    by (simp add: cleanup_def Let_def retain_Some_cases)
qed (auto simp: of_check blocked_def dim_count_def dim_limited_def is_ip_banned_eq cleanup_def Let_def
    split: if_splits option.splits)

interpretation ip_counters: counter_dimension ls_ip_counters "\<lambda>c ip. ip" rl_ip
proof
  show "ls_ip_counters (cleanup now st) k = Some w \<or>
      ls_ip_counters (cleanup now st) k = None \<and> rc_period g \<le> now - wc_start w"
    if "rl_ip (ls_config st) = Some g" "ls_ip_counters st k = Some w" for st g k w now
    using period_le_threshold(2) [OF that(1)] that(2)
    by (simp add: cleanup_def Let_def retain_Some_cases)
qed (auto simp: of_check blocked_def dim_count_def dim_limited_def is_ip_banned_eq cleanup_def Let_def
    split: if_splits option.splits)

interpretation messages: counter_measure wc_messages rc_max_messages "\<lambda>n. Suc 0"
  by unfold_locales (auto simp: count_frame_def count_in_def exceeds_def Let_def not_less)

interpretation volume_bytes: counter_measure wc_bytes rc_max_bytes "\<lambda>n. n"
  by unfold_locales (auto simp: count_frame_def count_in_def exceeds_def Let_def not_less)

interpretation conn_messages: window_quota ls_conn_counters "\<lambda>c ip. c" rl_connection
    wc_messages rc_max_messages "\<lambda>n. Suc 0" ..

interpretation ip_messages: window_quota ls_ip_counters "\<lambda>c ip. ip" rl_ip
    wc_messages rc_max_messages "\<lambda>n. Suc 0" ..

interpretation conn_bytes: window_quota ls_conn_counters "\<lambda>c ip. c" rl_connection
    wc_bytes rc_max_bytes "\<lambda>n. n" ..

interpretation ip_bytes: window_quota ls_ip_counters "\<lambda>c ip. ip" rl_ip
    wc_bytes rc_max_bytes "\<lambda>n. n" ..

lemma load_messages: "load (\<lambda>n. Suc 0) calls \<le> length calls"
  by (induction calls) (auto split: rl_op.splits)

lemma volume_count: "volume (\<lambda>n. Suc 0) a b L = length (filter (\<lambda>(t, n). a \<le> t \<and> t < b) L)"
  by (induction L) (auto simp: volume_def split: if_splits)

lemma one_le_or_zero: "Suc 0 \<le> unat m \<or> m = (0 :: u64)"
  by (metis Suc_leI unat_gt_0)

text \<open>
  C12. Message quotas: with fixed windows a burst may straddle two of them, but in no interval of
  one period does the limiter admit more than twice \<open>max_messages\<close> frames of a connection, or of
  an IP address over all its connections, in any interleaving of checks, queries and clean-ups of
  fewer than \<open>2^64\<close> calls at non-decreasing times.
\<close>

theorem messages_bounded:
  assumes "sorted (map fst calls)" "length calls < 2 ^ 64"
  shows "(rl_connection r = Some g \<and> rc_max_messages g = Some m \<longrightarrow>
      length (filter (\<lambda>(t, n). a \<le> t \<and> t < a + rc_period g) (admitted (\<lambda>c ip. c) conn calls (build r)))
        \<le> 2 * unat m) \<and>
    (rl_ip r = Some h \<and> rc_max_messages h = Some k \<longrightarrow>
      length (filter (\<lambda>(t, n). a \<le> t \<and> t < a + rc_period h) (admitted (\<lambda>c ip. ip) addr calls (build r)))
        \<le> 2 * unat k)"
  using conn_messages.run_bound [of "build r" conn calls g m a]
    ip_messages.run_bound [of "build r" addr calls h k a] load_messages [of calls] one_le_or_zero assms
  by (simp add: build_def volume_count)

definition two_limits :: rate_limiter where
  "two_limits = limit_ip (with_max_messages 5 (rate_limit_config_new (from_secs 10)))
     (limit_connection (with_max_bytes 100 (with_max_messages 2 (rate_limit_config_new (from_secs 1))))
       rate_limiter_new)"

lemmas two_limits_defs = two_limits_def limit_ip_def limit_connection_def with_max_messages_def
  with_max_bytes_def rate_limit_config_new_def rate_limiter_new_def from_secs_def

theorem messages_bounded_witness:
  "let calls = [(0, Check ''a'' (IpV4 1) 10), (1, Check ''a'' (IpV4 1) 20), (2, Check ''a'' (IpV4 1) 30)]
   in length (filter (\<lambda>(t, n). 0 \<le> t \<and> t < 1000000000) (admitted (\<lambda>c ip. c) ''a'' calls (build two_limits)))
        \<le> 2 * unat (2 :: u64)"
  using messages_bounded [of "[(0, Check ''a'' (IpV4 1) 10), (1, Check ''a'' (IpV4 1) 20),
      (2, Check ''a'' (IpV4 1) 30)]" two_limits "with_max_bytes 100 (with_max_messages 2 (rate_limit_config_new (from_secs 1)))"
      2 0 "''a''"]
  by (simp add: two_limits_defs Let_def)

text \<open>
  Byte quotas: when no single frame is longer than \<open>max_bytes\<close> (or it is zero), the bytes
  admitted for a connection, or for an IP address, in an interval of one period are at most twice
  \<open>max_bytes\<close>.
\<close>

theorem bytes_bounded:
  assumes "sorted (map fst calls)" "load (\<lambda>n. n) calls < 2 ^ 64"
  shows "(rl_connection r = Some g \<and> rc_max_bytes g = Some m \<and>
       (\<forall>c ip n t. (t, Check c ip n) \<in> set calls \<longrightarrow> n \<le> unat m \<or> m = 0) \<longrightarrow>
      volume (\<lambda>n. n) a (a + rc_period g) (admitted (\<lambda>c ip. c) conn calls (build r)) \<le> 2 * unat m) \<and>
    (rl_ip r = Some h \<and> rc_max_bytes h = Some k \<and>
       (\<forall>c ip n t. (t, Check c ip n) \<in> set calls \<longrightarrow> n \<le> unat k \<or> k = 0) \<longrightarrow>
      volume (\<lambda>n. n) a (a + rc_period h) (admitted (\<lambda>c ip. ip) addr calls (build r)) \<le> 2 * unat k)"
  using conn_bytes.run_bound [of "build r" conn calls g m a]
    ip_bytes.run_bound [of "build r" addr calls h k a] assms
  by (simp add: build_def)

theorem bytes_bounded_witness:
  "let calls = [(0, Check ''a'' (IpV4 1) 60), (1, Check ''a'' (IpV4 1) 60)]
   in volume (\<lambda>n. n) 0 1000000000 (admitted (\<lambda>c ip. c) ''a'' calls (build two_limits)) \<le> 2 * unat (100 :: u64)"
  using bytes_bounded [of "[(0, Check ''a'' (IpV4 1) 60), (1, Check ''a'' (IpV4 1) 60)]" two_limits
      "with_max_bytes 100 (with_max_messages 2 (rate_limit_config_new (from_secs 1)))" 100 0 "''a''"]
  by (simp add: two_limits_defs Let_def)


subsection \<open>Refinement of an ideal limiter\<close>

text \<open>
  The ideal limiter never forgets: it has no clean-up, no lazy removal of expired bans and no
  separate path for the first frame of a key. A missing window is a window with nothing in it.
\<close>

record spec_state =
  sp_conn_windows :: "string \<rightharpoonup> window_counter"
  sp_ip_windows :: "ip_addr \<rightharpoonup> window_counter"
  sp_conn_bans :: "string \<rightharpoonup> instant"
  sp_ip_bans :: "ip_addr \<rightharpoonup> instant"

definition spec_init :: spec_state where
  "spec_init = \<lparr>sp_conn_windows = Map.empty, sp_ip_windows = Map.empty,
     sp_conn_bans = Map.empty, sp_ip_bans = Map.empty\<rparr>"

definition spec_count ::
  "instant \<Rightarrow> rate_limit_config \<Rightarrow> nat \<Rightarrow> window_counter option \<Rightarrow> bool \<times> window_counter" where
  "spec_count now cfg n c =
     count_in cfg n (maybe_reset now (rc_period cfg)
       (case c of Some w \<Rightarrow> w | None \<Rightarrow> \<lparr>wc_start = now, wc_messages = 0, wc_bytes = 0\<rparr>))"

definition spec_dim ::
  "instant \<Rightarrow> duration option \<Rightarrow> rate_limit_config option \<Rightarrow> nat \<Rightarrow> 'k \<Rightarrow> ('k \<rightharpoonup> window_counter) \<times> ('k \<rightharpoonup> instant)
     \<Rightarrow> bool \<times> ('k \<rightharpoonup> window_counter) \<times> ('k \<rightharpoonup> instant)" where
  "spec_dim now ban cfg n k d =
     (case cfg of None \<Rightarrow> (False, d)
      | Some cfg \<Rightarrow> let (limited, w) = spec_count now cfg n (fst d k) in
          (limited, (fst d)(k \<mapsto> w), if limited then insert_ban now ban k (snd d) else snd d))"

definition spec_check ::
  "rate_limiter \<Rightarrow> instant \<Rightarrow> string \<Rightarrow> ip_addr \<Rightarrow> nat \<Rightarrow> spec_state \<Rightarrow> verdict \<times> spec_state" where
  "spec_check r now c ip n sp =
     (if live_ban now c (sp_conn_bans sp) \<or> live_ban now ip (sp_ip_bans sp) then (Banned, sp)
      else let (l1, cw, cb) = spec_dim now (rl_ban_duration r) (rl_connection r) n c (sp_conn_windows sp, sp_conn_bans sp);
               (l2, iw, ib) = spec_dim now (rl_ban_duration r) (rl_ip r) n ip (sp_ip_windows sp, sp_ip_bans sp)
           in (if l1 \<or> l2 then Limited else Allowed,
               \<lparr>sp_conn_windows = cw, sp_ip_windows = iw, sp_conn_bans = cb, sp_ip_bans = ib\<rparr>))"

fun spec_run :: "rate_limiter \<Rightarrow> rl_call list \<Rightarrow> spec_state \<Rightarrow> rl_result list" where
  "spec_run r [] sp = []"
| "spec_run r ((now, Check c ip n) # calls) sp =
     Verdict (fst (spec_check r now c ip n sp)) # spec_run r calls (snd (spec_check r now c ip n sp))"
| "spec_run r ((now, QueryIp ip) # calls) sp = IpBanned (live_ban now ip (sp_ip_bans sp)) # spec_run r calls sp"
| "spec_run r ((now, Cleanup) # calls) sp = Done # spec_run r calls sp"

text \<open>
  The simulation relation, per dimension: tables agree except that the limiter may have dropped
  windows that are over and bans that have expired.
\<close>

definition bans_agree :: "instant \<Rightarrow> ('k \<rightharpoonup> instant) \<Rightarrow> ('k \<rightharpoonup> instant) \<Rightarrow> bool" where
  "bans_agree now bs sbs \<longleftrightarrow> (\<forall>k. bs k = sbs k \<or> bs k = None \<and> (\<exists>e \<le> now. sbs k = Some e))"

definition windows_agree ::
  "instant \<Rightarrow> rate_limit_config option \<Rightarrow> ('k \<rightharpoonup> window_counter) \<Rightarrow> ('k \<rightharpoonup> window_counter) \<Rightarrow> bool" where
  "windows_agree now cfg cs scs \<longleftrightarrow>
     (case cfg of None \<Rightarrow> True
      | Some g \<Rightarrow> \<forall>k. cs k = scs k \<or>
          cs k = None \<and> (\<exists>w. scs k = Some w \<and> rc_period g \<le> now - wc_start w))"

definition limiter_sim :: "instant \<Rightarrow> limiter_state \<Rightarrow> spec_state \<Rightarrow> bool" where
  "limiter_sim now st sp \<longleftrightarrow>
     windows_agree now (rl_connection (ls_config st)) (ls_conn_counters st) (sp_conn_windows sp) \<and>
     windows_agree now (rl_ip (ls_config st)) (ls_ip_counters st) (sp_ip_windows sp) \<and>
     bans_agree now (ls_conn_bans st) (sp_conn_bans sp) \<and>
     bans_agree now (ls_ip_bans st) (sp_ip_bans sp)"

definition frame_fits :: "nat \<Rightarrow> rate_limit_config option \<Rightarrow> bool" where
  "frame_fits n cfg \<longleftrightarrow>
     (case cfg of None \<Rightarrow> True
      | Some g \<Rightarrow> 0 < n \<and> n < 2 ^ 64 \<and> (case rc_max_bytes g of None \<Rightarrow> True | Some B \<Rightarrow> B = 0 \<or> n \<le> unat B))"

lemma sim_later: "limiter_sim now st sp \<Longrightarrow> now \<le> now' \<Longrightarrow> limiter_sim now' st sp"
  by (fastforce simp: limiter_sim_def windows_agree_def bans_agree_def split: option.splits)

lemma bans_agreeD:
  "bans_agree now bs sbs \<Longrightarrow> bs k = sbs k \<or> bs k = None \<and> (\<exists>e \<le> now. sbs k = Some e)"
  by (simp add: bans_agree_def)

lemma windows_agreeD:
  "windows_agree now (Some g) cs scs \<Longrightarrow>
     cs k = scs k \<or> cs k = None \<and> (\<exists>w. scs k = Some w \<and> rc_period g \<le> now - wc_start w)"
  by (simp add: windows_agree_def)

lemma agree_live: "bans_agree now bs sbs \<Longrightarrow> live_ban now k bs = live_ban now k sbs"
  by (drule bans_agreeD [of _ _ _ k]) (auto simp: live_ban_def)

lemma agree_forget:
  assumes "bans_agree now bs sbs" "\<not> live_ban now k bs"
  shows "bans_agree now (bs(k := None)) sbs"
  unfolding bans_agree_def
proof
  fix k'
  show "(bs(k := None)) k' = sbs k' \<or> (bs(k := None)) k' = None \<and> (\<exists>e \<le> now. sbs k' = Some e)"
    using bans_agreeD [OF assms(1), of k'] assms(2)
    by (cases "sbs k'") (auto simp: live_ban_def not_less)
qed

lemma agree_insert:
  "bans_agree now bs sbs \<Longrightarrow> bans_agree now (insert_ban now ban k bs) (insert_ban now ban k sbs)"
  by (auto simp: bans_agree_def insert_ban_def split: option.splits)

lemma agree_retain:
  assumes "bans_agree now bs sbs" shows "bans_agree now (retain (\<lambda>v. now < v) bs) sbs"
  unfolding bans_agree_def
proof
  fix k
  show "retain (\<lambda>v. now < v) bs k = sbs k \<or>
      retain (\<lambda>v. now < v) bs k = None \<and> (\<exists>e \<le> now. sbs k = Some e)"
    using bans_agreeD [OF assms, of k] by (cases "bs k"; cases "sbs k") (auto simp: retain_def)
qed

lemma windows_retain:
  assumes "windows_agree now cfg cs scs" "\<And>g. cfg = Some g \<Longrightarrow> rc_period g \<le> T"
  shows "windows_agree now cfg (retain (\<lambda>v. now - wc_start v < T) cs) scs"
proof (cases cfg)
  case (Some g)
  have "retain (\<lambda>v. now - wc_start v < T) cs k = scs k \<or> retain (\<lambda>v. now - wc_start v < T) cs k = None \<and>
      (\<exists>w. scs k = Some w \<and> rc_period g \<le> now - wc_start w)" for k
    using windows_agreeD [OF assms(1) [unfolded Some], of k] assms(2) [OF Some]
    by (cases "cs k"; cases "scs k") (auto simp: retain_def)
  then show ?thesis by (simp add: Some windows_agree_def)
qed (simp add: windows_agree_def)

text \<open>The special path for the first frame gives the result of counting into an empty window.\<close>

lemma first_frame:
  assumes "frame_fits n (Some g)"
  shows "count_frame now g n None =
    count_in g n \<lparr>wc_start = now, wc_messages = 0, wc_bytes = 0\<rparr>"
proof -
  have n: "unat (as_u64 n) = n"
    using assms by (simp add: frame_fits_def unat_of_nat take_bit_nat_eq_self_iff)
  have "(1 :: u64) > m \<longleftrightarrow> m = 0" for m
    by (metis word_gt_0 word_less_1 order.strict_iff_not word_coorder.not_eq_extremum)
  moreover have "as_u64 n > B \<longleftrightarrow> B = 0" if "rc_max_bytes g = Some B" for B
    using that assms n by (auto simp: frame_fits_def word_less_nat_alt)
  ultimately show ?thesis
    by (auto simp: count_frame_def count_in_def exceeds_def Let_def split: option.splits)
qed

lemma agree_count:
  assumes "windows_agree now (Some g) cs scs" "frame_fits n (Some g)"
  shows "count_frame now g n (cs k) = spec_count now g n (scs k)"
proof (cases "cs k")
  case None
  then have "scs k = None \<or> (\<exists>w. scs k = Some w \<and> rc_period g \<le> now - wc_start w)"
    using windows_agreeD [OF assms(1), of k] by auto
  then show ?thesis
    using None first_frame [OF assms(2)] by (auto simp: spec_count_def maybe_reset_def)
next
  case (Some w)
  then have "scs k = Some w" using windows_agreeD [OF assms(1), of k] by auto
  then show ?thesis using Some by (simp add: count_frame_def spec_count_def)
qed

lemma agree_dim:
  assumes "windows_agree now cfg cs scs" "frame_fits n cfg" "bans_agree now bs sbs" "\<not> live_ban now k bs"
  shows "fst (spec_dim now ban cfg n k (scs, sbs)) = dim_limited now cfg n (cs k)"
    and "windows_agree now cfg (dim_count now cfg n k cs) (fst (snd (spec_dim now ban cfg n k (scs, sbs))))"
    and "bans_agree now (dim_ban now ban cfg n k cs (bs(k := None))) (snd (snd (spec_dim now ban cfg n k (scs, sbs))))"
  using assms agree_count [of now _ cs scs n k] agree_forget [OF assms(3,4)]
  by (auto simp: spec_dim_def dim_limited_def dim_count_def dim_ban_def split_beta Let_def windows_agree_def
      intro!: agree_insert split: option.splits)

lemma sim_check:
  assumes sim: "limiter_sim now st sp"
    and fits: "frame_fits n (rl_connection (ls_config st))" "frame_fits n (rl_ip (ls_config st))"
  shows "fst (check_and_record now c ip n st) = fst (spec_check (ls_config st) now c ip n sp)"
    and "limiter_sim now (snd (check_and_record now c ip n st)) (snd (spec_check (ls_config st) now c ip n sp))"
proof -
  have live: "live_ban now c (sp_conn_bans sp) = live_ban now c (ls_conn_bans st)"
      "live_ban now ip (sp_ip_bans sp) = live_ban now ip (ls_ip_bans st)"
    using sim by (auto simp: limiter_sim_def agree_live)
  note dims = agree_dim [of now "rl_connection (ls_config st)" "ls_conn_counters st" "sp_conn_windows sp" n
      "ls_conn_bans st" "sp_conn_bans sp" c "rl_ban_duration (ls_config st)"]
    agree_dim [of now "rl_ip (ls_config st)" "ls_ip_counters st" "sp_ip_windows sp" n
      "ls_ip_bans st" "sp_ip_bans sp" ip "rl_ban_duration (ls_config st)"]
  show "fst (check_and_record now c ip n st) = fst (spec_check (ls_config st) now c ip n sp)"
    using sim fits dims by (auto simp: of_check spec_check_def live blocked_def limiter_sim_def split_beta Let_def)
  show "limiter_sim now (snd (check_and_record now c ip n st)) (snd (spec_check (ls_config st) now c ip n sp))"
    using sim fits dims
    by (auto simp: limiter_sim_def of_check spec_check_def live blocked_def split_beta Let_def agree_forget)
qed

lemma sim_query:
  assumes "limiter_sim now st sp"
  shows "limiter_sim now (snd (is_ip_banned now ip st)) sp"
    and "fst (is_ip_banned now ip st) = live_ban now ip (sp_ip_bans sp)"
  using assms by (auto simp: limiter_sim_def is_ip_banned_eq agree_forget agree_live)

lemma sim_cleanup: "limiter_sim now st sp \<Longrightarrow> limiter_sim now (cleanup now st) sp"
  by (auto simp: limiter_sim_def cleanup_def Let_def agree_retain period_le_threshold intro: windows_retain)

text \<open>
  C11. The limiter implements the ideal one on frames within the byte limits: on any interleaving of checks, address queries and
  clean-ups at non-decreasing times, in which every frame checked is non-empty and no longer than each non-zero byte limit,
  it gives exactly the answers of the limiter that never forgets. Under these conditions clean-ups, the lazy removal
  of bans and the separate path for a key's first frame cannot be observed.
\<close>

theorem limiter_refines_spec:
  assumes "sorted (map fst calls)"
    and "\<forall>t c ip n. (t, Check c ip n) \<in> set calls \<longrightarrow> frame_fits n (rl_connection r) \<and> frame_fits n (rl_ip r)"
  shows "fst (rl_run calls (build r)) = spec_run r calls spec_init"
proof -
  have "fst (rl_run calls st) = spec_run r calls sp"
    if "limiter_sim now st sp" "ls_config st = r" "sorted (now # map fst calls)" for now st sp
    using assms(2) that
  proof (induction calls arbitrary: now st sp)
    case (Cons call calls)
    obtain t opn where call: "call = (t, opn)" by (cases call)
    have sim: "limiter_sim t st sp" using Cons.prems call sim_later by auto
    have "ls_config (snd (rl_step (t, opn) st)) = r" "sorted (t # map fst calls)"
      using Cons.prems call by auto
    note IH = Cons.IH [OF _ _ this]
    show ?case
      using Cons.prems IH sim_check [OF sim] sim_query [OF sim] sim_cleanup [OF sim]
      by (cases opn) (auto simp: call)
  qed simp
  moreover have "limiter_sim 0 (build r) spec_init"
    by (simp add: limiter_sim_def build_def spec_init_def windows_agree_def bans_agree_def split: option.splits)
  ultimately show ?thesis
    using assms(1) by (simp add: build_def)
qed

theorem limiter_refines_spec_witness:
  "fst (rl_run [(0, Check ''a'' (IpV4 1) 60), (3000000000, Cleanup), (3000000001, Check ''a'' (IpV4 1) 60)]
     (build two_limits)) =
   spec_run two_limits [(0, Check ''a'' (IpV4 1) 60), (3000000000, Cleanup), (3000000001, Check ''a'' (IpV4 1) 60)] spec_init"
  by (rule limiter_refines_spec) (auto simp: two_limits_defs frame_fits_def)

definition positive_limits :: "rate_limit_config \<Rightarrow> bool" where
  "positive_limits g \<longleftrightarrow> rc_max_messages g \<noteq> Some 0 \<and> rc_max_bytes g \<noteq> Some 0"

lemma first_frame_passes: "positive_limits g \<Longrightarrow> \<not> dim_limited now (Some g) n None"
  by (simp add: positive_limits_def dim_limited_def count_frame_def)

lemma ideal_refuses_long:
  assumes "windows_agree now (Some g) cs scs" "cs k = None" "rc_max_bytes g = Some B" "unat B < n" "n < 2 ^ 64"
  shows "fst (spec_count now g n (scs k))"
proof -
  have "B < as_u64 n" using assms(4,5) by (simp add: word_less_nat_alt unat_of_nat take_bit_nat_eq_self_iff)
  moreover have "scs k = None \<or> (\<exists>w. scs k = Some w \<and> rc_period g \<le> now - wc_start w)"
    using windows_agreeD [OF assms(1), of k] assms(2) by auto
  ultimately show ?thesis
    using assms(3) by (auto simp: spec_count_def count_in_def maybe_reset_def exceeds_def Let_def)
qed

text \<open>
  C36. The hole in the byte limit: in any state of the limiter, a frame of a connection that has no counter (its first frame, or the first one after
  a clean-up) is admitted whatever its length, provided that neither the connection nor its address is banned, the connection's limits are
  not zero, and the address is unlimited or has no counter either and limits that are not zero. The ideal limiter in a corresponding state refuses every such frame that is
  longer than the connection's \<open>max_bytes\<close>.
\<close>

theorem first_frame_unlimited:
  assumes "\<not> blocked now c ip st"
    and "rl_connection (ls_config st) = Some g" "positive_limits g" "ls_conn_counters st c = None"
    and "\<forall>gi. rl_ip (ls_config st) = Some gi \<longrightarrow> positive_limits gi \<and> ls_ip_counters st ip = None"
  shows "fst (check_and_record now c ip n st) = Allowed \<and>
    (\<forall>sp B. limiter_sim now st sp \<and> rc_max_bytes g = Some B \<and> unat B < n \<and> n < 2 ^ 64 \<longrightarrow>
       fst (spec_check (ls_config st) now c ip n sp) = Limited)"
proof (intro conjI allI impI)
  have "\<not> dim_limited now (rl_ip (ls_config st)) n (ls_ip_counters st ip)"
    using assms(5) first_frame_passes by (cases "rl_ip (ls_config st)") (auto simp: dim_limited_def)
  then show "fst (check_and_record now c ip n st) = Allowed"
    using assms(1-4) first_frame_passes by (simp add: verdict_of_check)
next
  fix sp B assume a: "limiter_sim now st sp \<and> rc_max_bytes g = Some B \<and> unat B < n \<and> n < 2 ^ 64"
  then have "fst (spec_count now g n (sp_conn_windows sp c))"
    using assms(2,4) ideal_refuses_long [of now g "ls_conn_counters st" "sp_conn_windows sp" c B n] by (simp add: limiter_sim_def)
  moreover have "\<not> live_ban now c (sp_conn_bans sp)" "\<not> live_ban now ip (sp_ip_bans sp)"
    using a assms(1) agree_live [of now "ls_conn_bans st" "sp_conn_bans sp" c] agree_live [of now "ls_ip_bans st" "sp_ip_bans sp" ip]
    by (simp_all add: limiter_sim_def blocked_def)
  ultimately show "fst (spec_check (ls_config st) now c ip n sp) = Limited"
    using assms(2) by (simp add: spec_check_def spec_dim_def split_beta Let_def)
qed

theorem first_frame_unlimited_witness:
  "let g = with_max_bytes 100 (rate_limit_config_new (from_secs 1)); r = limit_ip g (limit_connection g rate_limiter_new)
   in fst (check_and_record 0 ''conn-1'' (IpV4 1) 1000000 (build r)) = Allowed \<and>
      fst (spec_check r 0 ''conn-1'' (IpV4 1) 1000000 spec_init) = Limited"
proof -
  let ?g = "with_max_bytes 100 (rate_limit_config_new (from_secs 1))"
  let ?r = "limit_ip ?g (limit_connection ?g rate_limiter_new)"
  have r: "rl_connection ?r = Some ?g" "rl_ip ?r = Some ?g" "rc_max_bytes ?g = Some 100" "positive_limits ?g" "ls_config (build ?r) = ?r"
    by (simp_all add: two_limits_defs positive_limits_def build_def)
  have "limiter_sim 0 (build ?r) spec_init"
    by (simp add: limiter_sim_def build_def spec_init_def windows_agree_def bans_agree_def split: option.splits)
  moreover have "\<not> blocked 0 ''conn-1'' (IpV4 1) (build ?r)" "ls_conn_counters (build ?r) ''conn-1'' = None"
      "ls_ip_counters (build ?r) (IpV4 1) = None"
    by (simp_all add: blocked_def live_ban_def build_def)
  ultimately show ?thesis
    unfolding Let_def
    using first_frame_unlimited [of 0 "''conn-1''" "IpV4 1" "build ?r" ?g 1000000] r by auto
qed

end
