(* ===== verification/Validation.thy ===== *)
theory Validation
  imports Json "HOL-Library.Multiset"
begin

section \<open>Parameter validation\<close>

text \<open>
  \<open>crates/wscall-server/src/validation.rs\<close>: the built-in validators, the validators its macros
  generate (each macro is a definition whose arguments are the macro's parameters) and the rendering
  of validation errors as JSON. \<open>ValidationError\<close> and \<open>ValidationErrors\<close> are the data types of the
  \<open>validator\<close> crate; hash maps are association lists in some iteration order. Regular
  expressions, the Unicode letter tables and the \<open>Debug\<close> text of a list of strings are arguments.
  An \<open>f64\<close> is its bit pattern. The lemmas show when each group of validators accepts,
  that lengths are counted in characters, and that the rendering loses no field and does not depend on the
  iteration order.
\<close>

subsection \<open>Errors\<close>

record validation_error =
  ve_code :: string
  ve_message :: "string option"
  ve_params :: "(string \<times> jvalue) list"

datatype validation_errors = Errors "(string \<times> errors_kind) list"
  and errors_kind =
    Field "validation_error list"
  | ListErrors "(nat \<times> validation_errors) list"
  | StructErrors validation_errors

definition validation_error_new :: "string \<Rightarrow> validation_error" where
  "validation_error_new code = \<lparr>ve_code = code, ve_message = None, ve_params = []\<rparr>"

definition add_param :: "string \<Rightarrow> jvalue \<Rightarrow> validation_error \<Rightarrow> validation_error" where
  "add_param k v e = e\<lparr>ve_params := map_insert k v (ve_params e)\<rparr>"

definition simple_error :: "string \<Rightarrow> string \<Rightarrow> validation_error" where
  "simple_error code message = (validation_error_new code)\<lparr>ve_message := Some message\<rparr>"

type_synonym validation = "validation_error + unit"

subsection \<open>Characters and floating-point numbers\<close>

text \<open>The tables of Unicode letters of the standard library.\<close>

record unicode =
  is_alphabetic :: "nat \<Rightarrow> bool"
  is_numeric :: "nat \<Rightarrow> bool"
  is_lowercase :: "nat \<Rightarrow> bool"
  is_uppercase :: "nat \<Rightarrow> bool"

definition is_alphanumeric :: "unicode \<Rightarrow> nat \<Rightarrow> bool" where
  "is_alphanumeric U c \<longleftrightarrow> is_alphabetic U c \<or> is_numeric U c"

text \<open>\<open>char::is_whitespace\<close>: the property \<open>White_Space\<close>.\<close>

definition is_whitespace :: "nat \<Rightarrow> bool" where
  "is_whitespace c \<longleftrightarrow> (0x09 \<le> c \<and> c \<le> 0x0D) \<or> c = 0x20 \<or> c = 0x85 \<or> c = 0xA0 \<or> c = 0x1680 \<or>
     (0x2000 \<le> c \<and> c \<le> 0x200A) \<or> c = 0x2028 \<or> c = 0x2029 \<or> c = 0x202F \<or> c = 0x205F \<or> c = 0x3000"

definition is_ascii_digit :: "nat \<Rightarrow> bool" where
  "is_ascii_digit c \<longleftrightarrow> 48 \<le> c \<and> c \<le> 57"

definition is_ascii_alphanumeric :: "nat \<Rightarrow> bool" where
  "is_ascii_alphanumeric c \<longleftrightarrow> is_ascii_digit c \<or> (65 \<le> c \<and> c \<le> 90) \<or> (97 \<le> c \<and> c \<le> 122)"

definition trim :: "nat list \<Rightarrow> nat list" where
  "trim cs = rev (dropWhile is_whitespace (rev (dropWhile is_whitespace cs)))"

text \<open>\<open><=\<close> and \<open><\<close> on \<open>f64\<close>: false on a NaN, otherwise the order of sign and magnitude.\<close>

type_synonym f64 = "64 word"

definition f64_magnitude :: "f64 \<Rightarrow> nat" where
  "f64_magnitude x = unat x mod 2 ^ 63"

definition is_nan :: "f64 \<Rightarrow> bool" where
  "is_nan x \<longleftrightarrow> f64_magnitude x > 0x7FF0000000000000"

definition f64_key :: "f64 \<Rightarrow> int" where
  "f64_key x = (if unat x \<ge> 2 ^ 63 then - int (f64_magnitude x) else int (f64_magnitude x))"

definition f64_le :: "f64 \<Rightarrow> f64 \<Rightarrow> bool" where
  "f64_le x y \<longleftrightarrow> \<not> is_nan x \<and> \<not> is_nan y \<and> f64_key x \<le> f64_key y"

definition f64_lt :: "f64 \<Rightarrow> f64 \<Rightarrow> bool" where
  "f64_lt x y \<longleftrightarrow> \<not> is_nan x \<and> \<not> is_nan y \<and> f64_key x < f64_key y"

definition f64_hundred :: f64 where
  "f64_hundred = 0x4059000000000000"

subsection \<open>Built-in validators\<close>

definition required :: "'a option \<Rightarrow> validation" where
  "required v = (if v = None then Inl (simple_error ''required'' ''value is required'') else Inr ())"

definition assert_true :: "bool \<Rightarrow> validation" where
  "assert_true v = (if \<not> v then Inl (simple_error ''assert_true'' ''value must be true'') else Inr ())"

definition assert_false :: "bool \<Rightarrow> validation" where
  "assert_false v = (if v then Inl (simple_error ''assert_false'' ''value must be false'') else Inr ())"

definition not_empty :: "string \<Rightarrow> validation" where
  "not_empty v = (if v = [] then Inl (simple_error ''not_empty'' ''value cannot be empty'') else Inr ())"

definition not_blank :: "string \<Rightarrow> validation" where
  "not_blank v = (if trim (chars v) = [] then Inl (simple_error ''not_blank'' ''value cannot be blank'') else Inr ())"

definition no_whitespace :: "string \<Rightarrow> validation" where
  "no_whitespace v =
     (if list_ex is_whitespace (chars v)
      then Inl (simple_error ''no_whitespace'' ''value cannot contain whitespace'') else Inr ())"

definition alphabetic :: "unicode \<Rightarrow> string \<Rightarrow> validation" where
  "alphabetic U v =
     (if \<not> list_all (is_alphabetic U) (chars v)
      then Inl (simple_error ''alphabetic'' ''value must contain only letters'') else Inr ())"

definition alphanumeric :: "unicode \<Rightarrow> string \<Rightarrow> validation" where
  "alphanumeric U v =
     (if \<not> list_all (is_alphanumeric U) (chars v)
      then Inl (simple_error ''alphanumeric'' ''value must contain only letters or digits'') else Inr ())"

definition ascii_alphanumeric :: "string \<Rightarrow> validation" where
  "ascii_alphanumeric v =
     (if \<not> list_all is_ascii_alphanumeric (chars v)
      then Inl (simple_error ''ascii_alphanumeric'' ''value must contain only ASCII letters or digits'') else Inr ())"

definition numeric_text :: "string \<Rightarrow> validation" where
  "numeric_text v =
     (if \<not> list_all is_ascii_digit (chars v)
      then Inl (simple_error ''numeric_text'' ''value must contain only digits'') else Inr ())"

definition lowercase :: "unicode \<Rightarrow> string \<Rightarrow> validation" where
  "lowercase U v =
     (if list_ex (\<lambda>c. is_alphabetic U c \<and> \<not> is_lowercase U c) (chars v)
      then Inl (simple_error ''lowercase'' ''value must be lowercase'') else Inr ())"

definition uppercase :: "unicode \<Rightarrow> string \<Rightarrow> validation" where
  "uppercase U v =
     (if list_ex (\<lambda>c. is_alphabetic U c \<and> \<not> is_uppercase U c) (chars v)
      then Inl (simple_error ''uppercase'' ''value must be uppercase'') else Inr ())"

definition non_empty_vec :: "'a list \<Rightarrow> validation" where
  "non_empty_vec v = (if v = [] then Inl (simple_error ''not_empty'' ''collection cannot be empty'') else Inr ())"

definition non_empty_map :: "('k \<times> 'v) list \<Rightarrow> validation" where
  "non_empty_map v = (if v = [] then Inl (simple_error ''not_empty'' ''map cannot be empty'') else Inr ())"

definition positive_i32 :: "32 word \<Rightarrow> validation" where
  "positive_i32 v = (if sint v \<le> 0 then Inl (simple_error ''positive'' ''value must be greater than 0'') else Inr ())"

definition non_negative_i32 :: "32 word \<Rightarrow> validation" where
  "non_negative_i32 v =
     (if sint v < 0 then Inl (simple_error ''non_negative'' ''value must be greater than or equal to 0'') else Inr ())"

definition positive_i64 :: "64 word \<Rightarrow> validation" where
  "positive_i64 v = (if sint v \<le> 0 then Inl (simple_error ''positive'' ''value must be greater than 0'') else Inr ())"

definition non_negative_i64 :: "64 word \<Rightarrow> validation" where
  "non_negative_i64 v =
     (if sint v < 0 then Inl (simple_error ''non_negative'' ''value must be greater than or equal to 0'') else Inr ())"

definition positive_f64 :: "f64 \<Rightarrow> validation" where
  "positive_f64 v = (if f64_le v 0 then Inl (simple_error ''positive'' ''value must be greater than 0'') else Inr ())"

definition non_negative_f64 :: "f64 \<Rightarrow> validation" where
  "non_negative_f64 v =
     (if f64_lt v 0 then Inl (simple_error ''non_negative'' ''value must be greater than or equal to 0'') else Inr ())"

definition percentage :: "f64 \<Rightarrow> validation" where
  "percentage v =
     (if \<not> (f64_le 0 v \<and> f64_le v f64_hundred)
      then Inl (simple_error ''percentage'' ''value must be between 0 and 100'') else Inr ())"

subsection \<open>Validators the macros generate\<close>

definition wscall_regex_validator :: "(string \<Rightarrow> bool) \<Rightarrow> string \<Rightarrow> string \<Rightarrow> string \<Rightarrow> validation" where
  "wscall_regex_validator is_match pat code v =
     (if is_match v then Inr () else Inl (simple_error code (''value does not match pattern '' @ pat)))"

definition wscall_min_length_validator :: "nat \<Rightarrow> string \<Rightarrow> validation" where
  "wscall_min_length_validator mn v =
     (let len = length (chars v) in
      if len < mn
      then Inl (add_param ''actual'' (json_u64 (as_u64 len)) (add_param ''min'' (json_u64 (as_u64 mn))
             (simple_error ''min_length'' (''length must be at least '' @ show_nat mn))))
      else Inr ())"

definition wscall_max_length_validator :: "nat \<Rightarrow> string \<Rightarrow> validation" where
  "wscall_max_length_validator mx v =
     (let len = length (chars v) in
      if len > mx
      then Inl (add_param ''actual'' (json_u64 (as_u64 len)) (add_param ''max'' (json_u64 (as_u64 mx))
             (simple_error ''max_length'' (''length must be at most '' @ show_nat mx))))
      else Inr ())"

definition wscall_length_range_validator :: "nat \<Rightarrow> nat \<Rightarrow> string \<Rightarrow> validation" where
  "wscall_length_range_validator mn mx v =
     (let len = length (chars v) in
      if \<not> (mn \<le> len \<and> len \<le> mx)
      then Inl (add_param ''actual'' (json_u64 (as_u64 len)) (add_param ''max'' (json_u64 (as_u64 mx))
             (add_param ''min'' (json_u64 (as_u64 mn))
             (simple_error ''length_range'' (''length must be between '' @ show_nat mn @ '' and '' @ show_nat mx)))))
      else Inr ())"

text \<open>\<open>str::contains\<close> with a string pattern.\<close>

fun str_contains :: "string \<Rightarrow> string \<Rightarrow> bool" where
  "str_contains [] needle = (needle = [])"
| "str_contains (c # cs) needle = (take (length needle) (c # cs) = needle \<or> str_contains cs needle)"

definition wscall_contains_validator :: "string \<Rightarrow> string \<Rightarrow> string \<Rightarrow> validation" where
  "wscall_contains_validator needle code v =
     (if str_contains v needle then Inr () else Inl (simple_error code (''value must contain '' @ needle)))"

definition wscall_not_contains_validator :: "string \<Rightarrow> string \<Rightarrow> string \<Rightarrow> validation" where
  "wscall_not_contains_validator needle code v =
     (if str_contains v needle then Inl (simple_error code (''value cannot contain '' @ needle)) else Inr ())"

definition wscall_one_of_validator ::
  "(string list \<Rightarrow> string) \<Rightarrow> string list \<Rightarrow> string \<Rightarrow> string \<Rightarrow> validation" where
  "wscall_one_of_validator debug allowed code v =
     (if v \<in> set allowed then Inr () else Inl (simple_error code (''value must be one of '' @ debug allowed)))"

text \<open>The numeric macros, over the comparison, the \<open>Display\<close> text and the JSON form of the type \<open>$ty\<close>.\<close>

definition wscall_numeric_min_validator ::
  "('n \<Rightarrow> 'n \<Rightarrow> bool) \<Rightarrow> ('n \<Rightarrow> string) \<Rightarrow> ('n \<Rightarrow> jvalue) \<Rightarrow> 'n \<Rightarrow> 'n \<Rightarrow> validation" where
  "wscall_numeric_min_validator lt display json mn v =
     (if lt v mn
      then Inl (add_param ''min'' (json mn)
             (simple_error ''min'' (''value must be greater than or equal to '' @ display mn)))
      else Inr ())"

definition wscall_numeric_max_validator ::
  "('n \<Rightarrow> 'n \<Rightarrow> bool) \<Rightarrow> ('n \<Rightarrow> string) \<Rightarrow> ('n \<Rightarrow> jvalue) \<Rightarrow> 'n \<Rightarrow> 'n \<Rightarrow> validation" where
  "wscall_numeric_max_validator lt display json mx v =
     (if lt mx v
      then Inl (add_param ''max'' (json mx)
             (simple_error ''max'' (''value must be less than or equal to '' @ display mx)))
      else Inr ())"

definition wscall_numeric_range_validator ::
  "('n \<Rightarrow> 'n \<Rightarrow> bool) \<Rightarrow> ('n \<Rightarrow> string) \<Rightarrow> ('n \<Rightarrow> jvalue) \<Rightarrow> 'n \<Rightarrow> 'n \<Rightarrow> 'n \<Rightarrow> validation" where
  "wscall_numeric_range_validator le display json mn mx v =
     (if \<not> (le mn v \<and> le v mx)
      then Inl (add_param ''max'' (json mx) (add_param ''min'' (json mn)
             (simple_error ''range'' (''value must be between '' @ display mn @ '' and '' @ display mx))))
      else Inr ())"

subsection \<open>Rendering of errors\<close>

definition validation_error_to_value :: "validation_error \<Rightarrow> jvalue" where
  "validation_error_to_value e = Object
     [(''code'', String (ve_code e)),
      (''message'', case ve_message e of Some m \<Rightarrow> String m | None \<Rightarrow> Null),
      (''params'', Object (map_from_members (ve_params e)))]"

primrec errors_to_details :: "validation_errors \<Rightarrow> jvalue"
  and error_kind_to_value :: "errors_kind \<Rightarrow> jvalue" where
  "errors_to_details (Errors fs) =
     Object (map_from_members (map (map_prod id error_kind_to_value) fs))"
| "error_kind_to_value (Field errors) = Array (map validation_error_to_value errors)"
| "error_kind_to_value (ListErrors items) =
     Object (map_from_members (map (map_prod show_nat id) (map (map_prod id errors_to_details) items)))"
| "error_kind_to_value (StructErrors nested) = errors_to_details nested"


subsection \<open>When validators accept\<close>

text \<open>
  Length validators count characters, not bytes: each accepts exactly the strings whose number
  of Unicode scalar values is within its bounds, and a refusal carries the bounds and the actual count.
\<close>

theorem length_validators:
  "(wscall_min_length_validator mn s = Inr () \<longleftrightarrow> mn \<le> length (chars s)) \<and>
   (wscall_max_length_validator mx s = Inr () \<longleftrightarrow> length (chars s) \<le> mx) \<and>
   (wscall_length_range_validator mn mx s =
      rbind (wscall_min_length_validator mn s) (\<lambda>_. wscall_max_length_validator mx s) \<or>
    (\<exists>e. wscall_length_range_validator mn mx s = Inl e \<and> ve_code e = ''length_range'' \<and>
       map_of (ve_params e) ''actual'' = Some (json_u64 (as_u64 (length (chars s)))) \<and>
       map_of (ve_params e) ''min'' = Some (json_u64 (as_u64 mn)) \<and>
       map_of (ve_params e) ''max'' = Some (json_u64 (as_u64 mx)) \<and>
       (length (chars s) < mn \<or> mx < length (chars s))))"
  by (auto simp: wscall_min_length_validator_def wscall_max_length_validator_def
      wscall_length_range_validator_def Let_def add_param_def simple_error_def validation_error_new_def)

lemma f64_zero: "f64_key 0 = 0" "\<not> is_nan 0" "\<not> is_nan f64_hundred"
  by (simp_all add: f64_key_def is_nan_def f64_magnitude_def f64_hundred_def)

text \<open>
  C39. Validators of \<open>f64\<close> values and NaN: \<open>positive_f64\<close> and \<open>non_negative_f64\<close> test for the refusal and so
  accept every NaN beside the numbers they mean, whereas \<open>percentage\<close> tests for the range and
  accepts numbers only.
\<close>

theorem f64_validators_on_nan:
  "(positive_f64 x = Inr () \<longleftrightarrow> is_nan x \<or> 0 < f64_key x) \<and>
   (non_negative_f64 x = Inr () \<longleftrightarrow> is_nan x \<or> 0 \<le> f64_key x) \<and>
   (percentage x = Inr () \<longleftrightarrow> \<not> is_nan x \<and> 0 \<le> f64_key x \<and> f64_key x \<le> f64_key f64_hundred)"
  by (auto simp: positive_f64_def non_negative_f64_def percentage_def f64_le_def f64_lt_def f64_zero)

lemma trim_eq_Nil: "trim cs = [] \<longleftrightarrow> list_all is_whitespace cs"
proof -
  have "trim cs = [] \<longleftrightarrow> (\<forall>c \<in> set (dropWhile is_whitespace cs). is_whitespace c)"
    by (simp add: trim_def dropWhile_eq_Nil_conv)
  also have "\<dots> \<longleftrightarrow> (\<forall>c \<in> set cs. is_whitespace c)"
    by (induction cs) auto
  finally show ?thesis by (simp add: list_all_iff)
qed

text \<open>
  The text validators agree with each other: a string without white space that is not empty is not
  blank, a blank string is one of white space only, and a string of ASCII digits is alphanumeric.
\<close>

theorem text_validators:
  "(not_blank s = Inr () \<longleftrightarrow> list_ex (\<lambda>c. \<not> is_whitespace c) (chars s)) \<and>
   (no_whitespace s = Inr () \<and> not_empty s = Inr () \<longrightarrow> not_blank s = Inr ()) \<and>
   (numeric_text s = Inr () \<longrightarrow> ascii_alphanumeric s = Inr ()) \<and>
   (ascii_alphanumeric s = Inr () \<longrightarrow> no_whitespace s = Inr ())"
proof -
  have "is_whitespace c \<Longrightarrow> \<not> is_ascii_alphanumeric c" for c
    by (auto simp: is_whitespace_def is_ascii_alphanumeric_def is_ascii_digit_def)
  then have "list_all is_ascii_alphanumeric (chars s) \<Longrightarrow> \<not> list_ex is_whitespace (chars s)"
    by (auto simp: list_all_iff list_ex_iff)
  moreover have "set (chars s) = {} \<longleftrightarrow> s = []" by simp
  ultimately show ?thesis
    by (auto simp: not_blank_def trim_eq_Nil no_whitespace_def not_empty_def numeric_text_def
        ascii_alphanumeric_def is_ascii_alphanumeric_def list_all_iff list_ex_iff)
qed

theorem text_validators_witness:
  "numeric_text ''2024'' = Inr () \<and> ascii_alphanumeric ''2024'' = Inr () \<and> not_blank ''2024'' = Inr ()"
proof -
  have "chars ''2024'' = [50, 48, 50, 52]"
    by (simp add: chars_def as_bytes_def utf8_chunk.simps)
  then have "numeric_text ''2024'' = Inr ()" "not_empty ''2024'' = Inr ()"
    by (simp_all add: numeric_text_def is_ascii_digit_def not_empty_def)
  then show ?thesis using text_validators [of "''2024''"] by blast
qed

subsection \<open>What the rendering keeps\<close>

definition digits_value :: "string \<Rightarrow> nat" where
  "digits_value s = foldl (\<lambda>n c. n * 10 + (of_char c - 48)) 0 s"

lemma digits_value_show_nat [simp]: "digits_value (show_nat n) = n"
proof (induction n rule: show_nat.induct)
  case (1 n)
  then show ?case
    by (subst show_nat.simps) (auto simp: digits_value_def take_bit_eq_mod)
qed

lemma inj_show_nat: "inj show_nat"
  by (metis digits_value_show_nat injI)

lemma map_ok_unique:
  assumes "map_ok m" "map_ok m'" "map_of m = map_of m'"
  shows "m = m'"
proof (rule map_sorted_distinct_set_unique [of fst])
  have d: "distinct (map fst m)" "distinct (map fst m')"
    using assms(1,2) by (auto simp: map_ok_def strict_sorted_iff)
  then show "distinct (map fst m)" "distinct (map fst m')" .
  show "sorted (map fst m)" "sorted (map fst m')"
    using assms(1,2) by (auto simp: map_ok_def strict_sorted_iff)
  show eq: "set m = set m'"
    using assms(3) d by (simp add: map_of_inject_set)
  show "inj_on fst (set m \<union> set m')"
    using d(1) eq by (simp add: distinct_map)
qed

lemma from_members_perm:
  assumes "distinct (map fst kvs)" "mset kvs = mset kvs'"
  shows "map_from_members kvs = map_from_members kvs'"
proof (rule map_ok_unique [OF map_ok_from_members map_ok_from_members])
  have "distinct (map fst kvs')"
    using assms(1) mset_eq_imp_distinct_iff [of "map fst kvs'" "map fst kvs"] assms(2) by simp
  then show "map_of (map_from_members kvs) = map_of (map_from_members kvs')"
    using assms mset_eq_setD [OF assms(2)] by (simp add: map_of_from_members map_of_inject_set)
qed

text \<open>
  What a value shows at a path of member names, and what errors a validation failure has at such a path: a field name leads to the
  field, a list index to the element, and a nested structure is entered without a name of its own.
\<close>

fun json_at :: "string list \<Rightarrow> jvalue \<Rightarrow> jvalue option" where
  "json_at [] v = Some v"
| "json_at (k # path) (Object m) = Option.bind (map_of m k) (json_at path)"
| "json_at (k # path) _ = None"

function errors_at :: "string list \<Rightarrow> validation_errors \<Rightarrow> validation_error list option"
  and kind_at :: "string list \<Rightarrow> errors_kind \<Rightarrow> validation_error list option" where
  "errors_at [] es = None"
| "errors_at (f # path) (Errors fs) = Option.bind (map_of fs f) (kind_at path)"
| "kind_at path (Field es) = (if path = [] then Some es else None)"
| "kind_at path (StructErrors nested) = errors_at path nested"
| "kind_at [] (ListErrors items) = None"
| "kind_at (i # path) (ListErrors items) = Option.bind (map_of (map (map_prod show_nat id) items) i) (errors_at path)"
  by pat_completeness auto
termination
  by (relation "measure (case_sum (\<lambda>(path, _). 2 * length path) (\<lambda>(path, _). 2 * length path + 1))") auto

text \<open>Fields and parameters are hash maps, list indices a sorted map: keys are distinct.\<close>

fun wf_errors :: "validation_errors \<Rightarrow> bool" and wf_kind :: "errors_kind \<Rightarrow> bool" where
  "wf_errors (Errors fs) \<longleftrightarrow> distinct (map fst fs) \<and> (\<forall>(f, k) \<in> set fs. wf_kind k)"
| "wf_kind (Field es) \<longleftrightarrow> (\<forall>e \<in> set es. distinct (map fst (ve_params e)))"
| "wf_kind (ListErrors items) \<longleftrightarrow> distinct (map fst items) \<and> (\<forall>(i, es) \<in> set items. wf_errors es)"
| "wf_kind (StructErrors nested) \<longleftrightarrow> wf_errors nested"

definition shows_error :: "validation_error \<Rightarrow> jvalue \<Rightarrow> bool" where
  "shows_error e v \<longleftrightarrow> json_at [''code''] v = Some (String (ve_code e)) \<and>
     json_at [''message''] v = Some (case ve_message e of Some m \<Rightarrow> String m | None \<Rightarrow> Null) \<and>
     (\<forall>k. json_at [''params'', k] v = map_of (ve_params e) k)"

text \<open>Two iterations of the same errors: the hash maps of any level in another order.\<close>

definition same_error :: "validation_error \<Rightarrow> validation_error \<Rightarrow> bool" where
  "same_error e e' \<longleftrightarrow> ve_code e' = ve_code e \<and> ve_message e' = ve_message e \<and> mset (ve_params e') = mset (ve_params e)"

inductive reordered :: "validation_errors \<Rightarrow> validation_errors \<Rightarrow> bool"
  and reordered_kind :: "errors_kind \<Rightarrow> errors_kind \<Rightarrow> bool" where
  fields: "list_all2 (rel_prod (=) reordered_kind) fs gs \<Longrightarrow> mset hs = mset gs \<Longrightarrow> reordered (Errors fs) (Errors hs)"
| field: "list_all2 same_error es es' \<Longrightarrow> reordered_kind (Field es) (Field es')"
| items: "list_all2 (rel_prod (=) reordered) items items' \<Longrightarrow> reordered_kind (ListErrors items) (ListErrors items')"
| nested: "reordered e e' \<Longrightarrow> reordered_kind (StructErrors e) (StructErrors e')"

lemma json_at_Nil: "Option.bind x (json_at []) = x"
  by (cases x) simp_all

lemma map_of_map_snd: "map_of (map (map_prod id g) kvs) k = map_option g (map_of kvs k)"
  by (induction kvs) auto

lemma look_fields:
  assumes "distinct (map fst fs)"
  shows "json_at (f # path) (errors_to_details (Errors fs)) = Option.bind (map_of fs f) (\<lambda>k. json_at path (error_kind_to_value k))"
  using map_of_from_members [of "map (map_prod id error_kind_to_value) fs"] assms
  by (simp add: map_of_map_snd bind_map_option comp_def)

lemma look_items:
  assumes "distinct (map fst items)"
  shows "json_at (i # path) (error_kind_to_value (ListErrors items)) =
    Option.bind (map_of (map (map_prod show_nat id) items) i) (\<lambda>es. json_at path (errors_to_details es))"
proof -
  define its where "its = map (map_prod show_nat id) items"
  have swap: "map (map_prod show_nat id) (map (map_prod id errors_to_details) items) = map (map_prod id errors_to_details) its"
    by (simp add: its_def prod.map_comp)
  have "map fst its = map show_nat (map fst items)" by (simp add: its_def)
  then have "distinct (map fst its)"
    using assms inj_show_nat by (metis distinct_map inj_on_subset subset_UNIV)
  then show ?thesis
    using map_of_from_members [of "map (map_prod id errors_to_details) its"] unfolding error_kind_to_value.simps swap its_def [symmetric]
    by (simp add: map_of_map_snd bind_map_option comp_def)
qed

lemma map_of_wf:
  "wf_errors (Errors fs) \<Longrightarrow> map_of fs f = Some k \<Longrightarrow> wf_kind k"
  "wf_kind (ListErrors items) \<Longrightarrow> map_of (map (map_prod show_nat id) items) i = Some es \<Longrightarrow> wf_errors es"
  by (fastforce dest!: map_of_SomeD)+

lemma details_at:
  "wf_errors es \<Longrightarrow> (\<exists>vs. json_at path (errors_to_details es) = Some (Array vs)) \<longleftrightarrow> errors_at path es \<noteq> None"
  "wf_errors es \<Longrightarrow> errors_at path es = Some errs \<Longrightarrow> json_at path (errors_to_details es) = Some (Array (map validation_error_to_value errs))"
  "wf_kind k \<Longrightarrow> (\<exists>vs. json_at path' (error_kind_to_value k) = Some (Array vs)) \<longleftrightarrow> kind_at path' k \<noteq> None"
  "wf_kind k \<Longrightarrow> kind_at path' k = Some errs \<Longrightarrow> json_at path' (error_kind_to_value k) = Some (Array (map validation_error_to_value errs))"
proof (induction path es and path' k arbitrary: errs and errs rule: errors_at_kind_at.induct)
  case (1 es)
  { case 1 then show ?case by (cases es) simp }
  { case 2 then show ?case by simp }
next
  case (2 f path fs)
  { case 1 then show ?case
      using "2.IH" by (cases "map_of fs f") (auto simp: look_fields map_of_wf simp del: errors_to_details.simps) }
  { case 2 then show ?case
      using "2.IH" by (cases "map_of fs f") (auto simp: look_fields map_of_wf simp del: errors_to_details.simps) }
next
  case (3 path es)
  { case 1 then show ?case by (cases path) simp_all }
  { case 2 then show ?case by (simp split: if_splits) }
next
  case (5 items)
  { case 1 then show ?case by simp }
  { case 2 then show ?case by simp }
next
  case (6 i path items)
  { case 1 then show ?case
      using "6.IH" by (cases "map_of (map (map_prod show_nat id) items) i") (auto simp: look_items map_of_wf simp del: error_kind_to_value.simps) }
  { case 2 then show ?case
      using "6.IH" by (cases "map_of (map (map_prod show_nat id) items) i") (auto simp: look_items map_of_wf simp del: error_kind_to_value.simps) }
qed simp_all

lemma errors_at_params:
  "wf_errors es \<Longrightarrow> errors_at path es = Some errs \<Longrightarrow> \<forall>e \<in> set errs. distinct (map fst (ve_params e))"
  "wf_kind k \<Longrightarrow> kind_at path' k = Some errs \<Longrightarrow> \<forall>e \<in> set errs. distinct (map fst (ve_params e))"
proof (induction path es and path' k arbitrary: errs and errs rule: errors_at_kind_at.induct)
  case (2 f path fs)
  then show ?case using map_of_wf(1) [of fs f] by (cases "map_of fs f") (auto simp del: wf_errors.simps)
next
  case (6 i path items)
  then show ?case
    using map_of_wf(2) [of items i] by (cases "map_of (map (map_prod show_nat id) items) i") (auto simp del: wf_kind.simps)
qed (auto split: if_splits)

lemma same_error_value:
  assumes "same_error e e'" "distinct (map fst (ve_params e))"
  shows "validation_error_to_value e' = validation_error_to_value e"
  using assms from_members_perm [of "ve_params e" "ve_params e'"] by (simp add: same_error_def validation_error_to_value_def)

lemma reordered_fields:
  assumes "list_all2 (rel_prod (=) (\<lambda>k k'. wf_kind k \<longrightarrow> error_kind_to_value k' = error_kind_to_value k)) fs gs"
    and "mset hs = mset gs" "wf_errors (Errors fs)"
  shows "errors_to_details (Errors hs) = errors_to_details (Errors fs)"
proof -
  let ?f = "map (map_prod id error_kind_to_value)"
  have "?f fs = ?f gs"
    using assms(1,3) by (induction rule: list_all2_induct) (auto simp: rel_prod_sel)
  moreover have "map fst gs = map fst fs"
    using assms(1) by (induction rule: list_all2_induct) (auto simp: rel_prod_sel)
  then have "distinct (map fst (?f gs))" using assms(3) by simp
  moreover have "mset (?f hs) = mset (?f gs)" using assms(2) by simp
  ultimately show ?thesis using from_members_perm [of "?f gs" "?f hs"] by simp
qed

lemma reordered_same:
  "reordered es es' \<Longrightarrow> wf_errors es \<longrightarrow> errors_to_details es' = errors_to_details es"
  "reordered_kind k k' \<Longrightarrow> wf_kind k \<longrightarrow> error_kind_to_value k' = error_kind_to_value k"
proof (induction rule: reordered_reordered_kind.inducts)
  case (fields fs gs hs)
  have "list_all2 (rel_prod (=) (\<lambda>k k'. wf_kind k \<longrightarrow> error_kind_to_value k' = error_kind_to_value k)) fs gs"
    using fields(1) by (rule list_all2_mono) (auto simp: rel_prod_sel)
  then show ?case using reordered_fields fields(2) by blast
next
  case (field es es')
  then have "wf_kind (Field es) \<Longrightarrow> map validation_error_to_value es' = map validation_error_to_value es"
    by (induction rule: list_all2_induct) (auto simp: same_error_value)
  then show ?case by simp
next
  case (items items items')
  then have "\<forall>(i, es) \<in> set items. wf_errors es \<Longrightarrow> map (map_prod id errors_to_details) items' = map (map_prod id errors_to_details) items"
    by (induction rule: list_all2_induct) (auto simp: rel_prod_sel)
  then show ?case by auto
qed simp

text \<open>
  C38. The details of a validation failure are complete and exact at every level: at a path of field names and list indices, through
  nested structures, the rendered value is an array exactly when there is a failed field at that path, and then the array holds, in order, the
  code, the message and every parameter of each of its errors. The details do not depend on the order in which the hash maps of fields and parameters
  of any level are iterated.
\<close>

theorem errors_to_details_complete:
  assumes "wf_errors es"
  shows "(\<forall>path. (\<exists>vs. json_at path (errors_to_details es) = Some (Array vs)) \<longleftrightarrow> errors_at path es \<noteq> None) \<and>
    (\<forall>path errs. errors_at path es = Some errs \<longrightarrow>
       (\<exists>vs. json_at path (errors_to_details es) = Some (Array vs) \<and> list_all2 shows_error errs vs)) \<and>
    (\<forall>es'. reordered es es' \<longrightarrow> errors_to_details es' = errors_to_details es)"
proof (intro conjI allI impI)
  fix path errs assume at: "errors_at path es = Some errs"
  have "list_all2 shows_error errs (map validation_error_to_value errs)"
    using errors_at_params(1) [OF assms at]
    by (auto simp: list_all2_conv_all_nth shows_error_def validation_error_to_value_def map_of_from_members json_at_Nil)
  then show "\<exists>vs. json_at path (errors_to_details es) = Some (Array vs) \<and> list_all2 shows_error errs vs"
    using details_at(2) [OF assms at] by blast
qed (use assms details_at(1) reordered_same(1) in blast)+

theorem errors_to_details_complete_witness:
  "let e = simple_error ''not_empty'' ''value cannot be empty'';
       es = Errors [(''name'', Field [e]), (''items'', ListErrors [(3, Errors [(''address'', StructErrors (Errors [(''zip'', Field [e])]))])])];
       es' = Errors [(''items'', ListErrors [(3, Errors [(''address'', StructErrors (Errors [(''zip'', Field [e])]))])]), (''name'', Field [e])]
   in (\<exists>v. json_at [''items'', ''3'', ''address'', ''zip''] (errors_to_details es) = Some (Array [v]) \<and> shows_error e v) \<and>
      (\<nexists>vs. json_at [''items'', ''3'', ''address''] (errors_to_details es) = Some (Array vs)) \<and>
      errors_to_details es' = errors_to_details es"
proof -
  let ?e = "simple_error ''not_empty'' ''value cannot be empty''"
  let ?items = "ListErrors [(3, Errors [(''address'', StructErrors (Errors [(''zip'', Field [?e])]))])]"
  let ?es = "Errors [(''name'', Field [?e]), (''items'', ?items)]" and ?es' = "Errors [(''items'', ?items), (''name'', Field [?e])]"
  have 3: "show_nat 3 = ''3''" by code_simp
  have wf: "wf_errors ?es" by (simp add: simple_error_def validation_error_new_def)
  have at: "errors_at [''items'', ''3'', ''address'', ''zip''] ?es = Some [?e]" "errors_at [''items'', ''3'', ''address''] ?es = None"
    by (simp_all add: 3)
  let ?zip = "[(''zip'', Field [?e])]"
  have f: "reordered_kind (Field [?e]) (Field [?e])" by (rule field) (simp add: same_error_def)
  then have "reordered (Errors ?zip) (Errors ?zip)" by (intro fields [of _ ?zip]) auto
  then have "reordered (Errors [(''address'', StructErrors (Errors ?zip))]) (Errors [(''address'', StructErrors (Errors ?zip))])"
    by (intro fields [of _ "[(''address'', StructErrors (Errors ?zip))]"]) (auto intro: nested)
  then have "reordered_kind ?items ?items" by (intro items) simp
  then have "reordered ?es ?es'"
    using f by (intro fields [of _ "[(''name'', Field [?e]), (''items'', ?items)]"]) auto
  then have "errors_to_details ?es' = errors_to_details ?es" using errors_to_details_complete [OF wf] by blast
  moreover obtain vs where "json_at [''items'', ''3'', ''address'', ''zip''] (errors_to_details ?es) = Some (Array vs)" "list_all2 shows_error [?e] vs"
    using errors_to_details_complete [OF wf] at(1) by blast
  moreover from this(2) obtain v where "vs = [v]" "shows_error ?e v" by (auto simp only: list_all2_Cons1 list_all2_Nil)
  moreover have "\<nexists>vs. json_at [''items'', ''3'', ''address''] (errors_to_details ?es) = Some (Array vs)"
    using errors_to_details_complete [OF wf] at(2) by blast
  ultimately show ?thesis unfolding Let_def by blast
qed

end
