(* ===== verification/Server_Types.thy ===== *)
theory Server_Types
  imports Frame_Codec Rate_Limiter Validation Channel
begin

section \<open>Server data and push operations\<close>

text \<open>
  \<open>crates/wscall-server/src/server_types.rs\<close> and the \<open>ServerHandle\<close> operations of
  \<open>server_runtime.rs\<close>: application errors, the contexts handlers receive, parameter binding, the table
  of live clients and the broadcast and direct event pushes. A \<open>Sender\<close> is the name of a channel
  in the store \<open>ss_channels\<close>, because senders are cloned out of the table and outlive their entry.
  User code is an argument: a handler maps its context and the server state to an outcome (a result
  or a panic) and a new state, since it may push events through its handle.
\<close>

subsection \<open>Errors of handlers and of the server\<close>

record api_error =
  ae_code :: string
  ae_message :: string
  ae_status :: u16
  ae_details :: "jvalue option"

definition api_error_new :: "string \<Rightarrow> string \<Rightarrow> u16 \<Rightarrow> api_error" where
  "api_error_new code message status =
     \<lparr>ae_code = code, ae_message = message, ae_status = status, ae_details = None\<rparr>"

definition bad_request :: "string \<Rightarrow> api_error" where
  "bad_request message = api_error_new ''bad_request'' message 400"

definition not_found :: "string \<Rightarrow> api_error" where
  "not_found message = api_error_new ''not_found'' message 404"

definition internal :: "string \<Rightarrow> api_error" where
  "internal message = api_error_new ''internal_error'' message 500"

definition unauthorized :: "string \<Rightarrow> api_error" where
  "unauthorized message = api_error_new ''unauthorized'' message 401"

definition with_details :: "jvalue \<Rightarrow> api_error \<Rightarrow> api_error" where
  "with_details details e = e\<lparr>ae_details := Some details\<rparr>"

definition into_payload :: "api_error \<Rightarrow> error_payload" where
  "into_payload e =
     \<lparr>ep_code = ae_code e, ep_message = ae_message e, ep_status = ae_status e, ep_details = ae_details e\<rparr>"

lemmas api_error_defs = api_error_new_def bad_request_def not_found_def internal_def unauthorized_def

datatype server_error =
    Io string
  | WebSocket string
  | Protocol protocol_error
  | ApiFailure api_error
  | IdleTimeout string
  | OutboundQueueFull string
  | AuthFailed string

subsection \<open>The table of live clients\<close>

datatype server_outbound =
    PreEncoded bytes
  | OutPacket packet_envelope
  | OutPong bytes
  | OutClose

record client_entry =
  ce_sender :: string
  ce_idle_timeout :: "duration option"
  ce_auth_context :: "json_map option"

record server_state =
  ss_clients :: "(string \<times> client_entry) list"
  ss_next_event_id :: u64
  ss_channels :: "string \<rightharpoonup> server_outbound channel"

definition server_state_new :: server_state where
  "server_state_new = \<lparr>ss_clients = [], ss_next_event_id = 0, ss_channels = Map.empty\<rparr>"

record server_handle =
  sh_codec :: frame_codec
  sh_default_encryption :: encryption_kind
  sh_is_ecdh :: bool

record socket_addr =
  sa_ip :: ip_addr
  sa_port :: u16

subsection \<open>Contexts\<close>

record server_connection_context =
  scc_connection_id :: string
  scc_peer_addr :: "socket_addr option"
  scc_server :: server_handle
  scc_authenticated :: bool
  scc_auth_context :: "json_map option"

record server_disconnect_context =
  sdc_connection_id :: string
  sdc_peer_addr :: "socket_addr option"
  sdc_reason :: string
  sdc_server :: server_handle

record api_context =
  ac_connection_id :: string
  ac_peer_addr :: "socket_addr option"
  ac_request_id :: u64
  ac_route :: string
  ac_params :: jvalue
  ac_attachments :: "file_attachment list"
  ac_metadata :: jvalue
  ac_server :: server_handle
  ac_auth_context :: "json_map option"

record event_context =
  ec_connection_id :: string
  ec_peer_addr :: "socket_addr option"
  ec_event_id :: u64
  ec_name :: string
  ec_data :: json_map
  ec_attachments :: "file_attachment list"
  ec_metadata :: jvalue
  ec_server :: server_handle
  ec_auth_context :: "json_map option"

record exception_context =
  xc_connection_id :: string
  xc_request_id :: "u64 option"
  xc_target :: string
  xc_message_kind :: string
  xc_error :: api_error

record auth_context =
  au_credential :: string
  au_peer_addr :: "socket_addr option"
  au_connection_id :: string

record auth_output =
  ao_session_timeout :: "duration option"
  ao_context :: json_map

definition auth_output_new :: auth_output where
  "auth_output_new = \<lparr>ao_session_timeout = None, ao_context = []\<rparr>"

definition with_session_timeout :: "duration \<Rightarrow> auth_output \<Rightarrow> auth_output" where
  "with_session_timeout d out = out\<lparr>ao_session_timeout := Some d\<rparr>"

definition with_context :: "json_map \<Rightarrow> auth_output \<Rightarrow> auth_output" where
  "with_context ctx out = out\<lparr>ao_context := ctx\<rparr>"

subsection \<open>Parameters of a request\<close>

definition param :: "string \<Rightarrow> api_context \<Rightarrow> jvalue option" where
  "param key ctx = Option.bind (value_as_object (ac_params ctx)) (\<lambda>m. map_of m key)"

definition require_param :: "string \<Rightarrow> api_context \<Rightarrow> api_error + jvalue" where
  "require_param key ctx = ok_or (bad_request (''missing required param: '' @ key)) (param key ctx)"

text \<open>
  Binding: \<open>de\<close> is \<open>serde_json::from_value\<close> at the target type, with the \<open>Display\<close> text of its
  error; \<open>validate\<close> is the validation of the target type.
\<close>

definition bind_params :: "(jvalue \<Rightarrow> string + 't) \<Rightarrow> api_context \<Rightarrow> api_error + 't" where
  "bind_params de ctx =
     map_err (\<lambda>source. bad_request (''invalid params: '' @ source)) (de (ac_params ctx))"

definition bind_take :: "(jvalue \<Rightarrow> string + 't) \<Rightarrow> api_context \<Rightarrow> (api_error + 't) \<times> api_context" where
  "bind_take de ctx =
     (let params = ac_params ctx; ctx = ctx\<lparr>ac_params := Null\<rparr> in
      (map_err (\<lambda>source. bad_request (''invalid params: '' @ source)) (de params), ctx))"

definition bind_and_validate ::
  "(jvalue \<Rightarrow> string + 't) \<Rightarrow> ('t \<Rightarrow> api_error + unit) \<Rightarrow> api_context \<Rightarrow> api_error + 't" where
  "bind_and_validate de validate ctx =
     rbind (bind_params de ctx) (\<lambda>params. rbind (validate params) (\<lambda>_. Inr params))"

definition validation_failed :: "validation_errors \<Rightarrow> api_error" where
  "validation_failed source =
     with_details (Object [(''validation_errors'', errors_to_details source)])
       (bad_request ''params validation failed'')"

definition bind_validated ::
  "(jvalue \<Rightarrow> string + 't) \<Rightarrow> ('t \<Rightarrow> validation_errors + unit) \<Rightarrow> api_context \<Rightarrow> api_error + 't" where
  "bind_validated de validate ctx =
     rbind (bind_params de ctx) (\<lambda>params.
     rbind (map_err validation_failed (validate params)) (\<lambda>_. Inr params))"

definition attachment_summaries :: "api_context \<Rightarrow> jvalue list" where
  "attachment_summaries ctx = map (\<lambda>a. Object
     [(''content_type'', String (fa_content_type a)), (''id'', String (fa_id a)),
      (''name'', String (fa_name a)), (''size'', json_u64 (as_u64 (attachment_size a)))]) (ac_attachments ctx)"

subsection \<open>Push operations\<close>

text \<open>\<open>sender.try_send(msg)\<close> on the channel a sender names.\<close>

definition try_send_to :: "string \<Rightarrow> server_outbound \<Rightarrow> server_state \<Rightarrow> bool \<times> server_state" where
  "try_send_to sender msg st =
     (case ss_channels st sender of
        None \<Rightarrow> (False, st)
      | Some ch \<Rightarrow> (case try_send msg ch of
          Inl _ \<Rightarrow> (False, st)
        | Inr ch' \<Rightarrow> (True, st\<lparr>ss_channels := (ss_channels st)(sender \<mapsto> ch')\<rparr>)))"

definition event_packet ::
  "server_handle \<Rightarrow> u64 \<Rightarrow> string \<Rightarrow> json_map \<Rightarrow> file_attachment list \<Rightarrow> packet_envelope" where
  "event_packet H event_id name data attachments =
     with_encryption (EventEmit event_id name data attachments (Object [(''source'', String ''server'')]) True)
       (sh_default_encryption H)"

definition deliver_all :: "server_outbound \<Rightarrow> server_state \<Rightarrow> server_state" where
  "deliver_all msg st = fold (\<lambda>(cid, entry) st. snd (try_send_to (ce_sender entry) msg st)) (ss_clients st) st"

definition broadcast_event ::
  "externals \<Rightarrow> random \<Rightarrow> server_handle \<Rightarrow> string \<Rightarrow> json_map \<Rightarrow> file_attachment list \<Rightarrow> server_state
     \<Rightarrow> (api_error + unit) \<times> server_state" where
  "broadcast_event X rnd H name data attachments st =
     (let event_id = ss_next_event_id st + 1;
          st = st\<lparr>ss_next_event_id := event_id\<rparr>;
          packet = event_packet H event_id name data attachments
      in if sh_is_ecdh H then (Inr (), deliver_all (OutPacket packet) st)
         else case encode X rnd (sh_codec H) packet of
           Inl _ \<Rightarrow> (Inl (internal ''failed to encode broadcast event''), st)
         | Inr encoded \<Rightarrow> (Inr (), deliver_all (PreEncoded encoded) st))"

definition send_event_to ::
  "externals \<Rightarrow> random \<Rightarrow> server_handle \<Rightarrow> string \<Rightarrow> string \<Rightarrow> json_map \<Rightarrow> file_attachment list \<Rightarrow> server_state
     \<Rightarrow> (api_error + unit) \<times> server_state" where
  "send_event_to X rnd H connection_id name data attachments st =
     (let event_id = ss_next_event_id st + 1;
          st = st\<lparr>ss_next_event_id := event_id\<rparr>;
          packet = event_packet H event_id name data attachments;
          queued = (\<lambda>(sent, st). (if sent then Inr () else Inl (internal ''failed to queue direct event''), st))
      in case map_of (ss_clients st) connection_id of
           None \<Rightarrow> (Inl (not_found ''target connection not found''), st)
         | Some entry \<Rightarrow>
             if sh_is_ecdh H then queued (try_send_to (ce_sender entry) (OutPacket packet) st)
             else case encode X rnd (sh_codec H) packet of
               Inl _ \<Rightarrow> (Inl (internal ''failed to encode direct event''), st)
             | Inr encoded \<Rightarrow> queued (try_send_to (ce_sender entry) (PreEncoded encoded) st))"

definition connection_count :: "server_state \<Rightarrow> nat" where
  "connection_count st = length (ss_clients st)"


subsection \<open>Binding\<close>

text \<open>
  Binding of parameters: \<open>bind_take\<close>, which moves the parameters out of the context, returns exactly what \<open>bind\<close>
  returns on a copy and changes nothing else of the context. \<open>bind_validated\<close> succeeds exactly when the value
  deserializes and passes validation; otherwise the error is a 400 \<open>bad_request\<close>, with the
  details of every failed field when validation failed.
\<close>

theorem binding_agrees:
  "fst (bind_take de ctx) = bind_params de ctx \<and>
   snd (bind_take de ctx) = ctx\<lparr>ac_params := Null\<rparr> \<and>
   (case bind_validated de validate ctx of
      Inr t \<Rightarrow> de (ac_params ctx) = Inr t \<and> validate t = Inr ()
    | Inl e \<Rightarrow> ae_status e = 400 \<and> ae_code e = ''bad_request'' \<and>
        ((\<exists>m. de (ac_params ctx) = Inl m \<and> ae_details e = None) \<or>
         (\<exists>t errs. de (ac_params ctx) = Inr t \<and> validate t = Inl errs \<and>
            ae_details e = Some (Object [(''validation_errors'', errors_to_details errs)]))))"
proof (intro conjI)
  show "fst (bind_take de ctx) = bind_params de ctx" "snd (bind_take de ctx) = ctx\<lparr>ac_params := Null\<rparr>"
    by (simp_all add: bind_take_def bind_params_def Let_def)
  show "case bind_validated de validate ctx of
      Inr t \<Rightarrow> de (ac_params ctx) = Inr t \<and> validate t = Inr ()
    | Inl e \<Rightarrow> ae_status e = 400 \<and> ae_code e = ''bad_request'' \<and>
        ((\<exists>m. de (ac_params ctx) = Inl m \<and> ae_details e = None) \<or>
         (\<exists>t errs. de (ac_params ctx) = Inr t \<and> validate t = Inl errs \<and>
            ae_details e = Some (Object [(''validation_errors'', errors_to_details errs)])))"
  proof (cases "de (ac_params ctx)")
    case (Inr t)
    then show ?thesis
      by (cases "validate t")
        (simp_all add: bind_validated_def bind_params_def validation_failed_def with_details_def api_error_defs)
  qed (simp add: bind_validated_def bind_params_def api_error_defs)
qed

subsection \<open>What a push does to the queues\<close>

definition state_ok :: "server_state \<Rightarrow> bool" where
  "state_ok st \<longleftrightarrow> map_ok (ss_clients st) \<and>
     (\<forall>cid entry. (cid, entry) \<in> set (ss_clients st) \<longrightarrow> ce_sender entry = cid \<and> ss_channels st cid \<noteq> None) \<and>
     (\<forall>k ch. ss_channels st k = Some ch \<longrightarrow> channel_ok ch)"

definition offer :: "'m \<Rightarrow> 'm channel \<Rightarrow> 'm channel" where
  "offer msg ch = (case try_send msg ch of Inl _ \<Rightarrow> ch | Inr ch' \<Rightarrow> ch')"

lemma try_send_to_eq:
  "try_send_to s msg st =
     (\<exists>ch ch'. ss_channels st s = Some ch \<and> try_send msg ch = Inr ch',
      st\<lparr>ss_channels := (ss_channels st)(s := map_option (offer msg) (ss_channels st s))\<rparr>)"
  by (cases st) (auto simp: try_send_to_def offer_def fun_upd_idem split: option.splits sum.splits)

lemma deliver_fold:
  assumes "\<forall>(cid, entry) \<in> set cs. ce_sender entry = cid" "distinct (map fst cs)"
  shows "fold (\<lambda>(cid, entry) st. snd (try_send_to (ce_sender entry) msg st)) cs st =
    st\<lparr>ss_channels := (\<lambda>k. if k \<in> fst ` set cs then map_option (offer msg) (ss_channels st k) else ss_channels st k)\<rparr>"
  using assms
proof (induction cs arbitrary: st)
  case (Cons c cs)
  then show ?case
    by (auto simp: try_send_to_eq image_iff fun_eq_iff intro!: server_state.equality)
qed simp

lemma deliver_all_eq:
  assumes "state_ok st"
  shows "deliver_all msg st =
    st\<lparr>ss_channels := (\<lambda>k. if k \<in> fst ` set (ss_clients st) then map_option (offer msg) (ss_channels st k)
                            else ss_channels st k)\<rparr>"
  unfolding deliver_all_def
  by (rule deliver_fold) (use assms in \<open>auto simp: state_ok_def map_ok_def strict_sorted_iff\<close>)

text \<open>
  The contract of a push operation: the table of clients stays, no channel appears, disappears, opens or
  closes, and queues only gain messages at their end and never exceed their capacity.
\<close>

definition queue_grows :: "'m channel \<Rightarrow> 'm channel \<Rightarrow> bool" where
  "queue_grows ch ch' \<longleftrightarrow> ch_open ch' = ch_open ch \<and> ch_capacity ch' = ch_capacity ch \<and>
     (\<exists>msgs. ch_queue ch' = ch_queue ch @ msgs) \<and> (channel_ok ch \<longrightarrow> channel_ok ch')"

definition only_pushes :: "server_state \<Rightarrow> server_state \<Rightarrow> bool" where
  "only_pushes st st' \<longleftrightarrow> ss_clients st' = ss_clients st \<and>
     (\<forall>k. rel_option queue_grows (ss_channels st k) (ss_channels st' k))"

lemma queue_grows_refl [simp]: "queue_grows ch ch"
  by (simp add: queue_grows_def)

lemma queue_grows_trans: "queue_grows a b \<Longrightarrow> queue_grows b c \<Longrightarrow> queue_grows a c"
  by (auto simp: queue_grows_def)

lemma queue_grows_offer [simp]: "queue_grows ch (offer msg ch)"
  by (auto simp: queue_grows_def offer_def try_send_Inr channel_ok_def split: sum.splits)

lemma only_pushes_refl [simp]: "only_pushes st st"
  by (simp add: only_pushes_def option.rel_refl)

lemma only_pushes_trans: "only_pushes a b \<Longrightarrow> only_pushes b c \<Longrightarrow> only_pushes a c"
  unfolding only_pushes_def
  by (metis (no_types, lifting) option.rel_cases option.rel_intros queue_grows_trans option.sel option.discI)

lemma only_pushes_ok: "only_pushes st st' \<Longrightarrow> state_ok st \<Longrightarrow> state_ok st'"
  unfolding only_pushes_def state_ok_def
  by (metis (no_types, lifting) option.rel_cases option.discI option.inject queue_grows_def)

locale push_operation =
  fixes oper :: "server_state \<Rightarrow> 'r \<times> server_state"
  assumes pushes: "state_ok st \<Longrightarrow> only_pushes st (snd (oper st))"
begin

lemma keeps_ok: "state_ok st \<Longrightarrow> state_ok (snd (oper st))"
  using only_pushes_ok pushes by blast

lemma after_push: "state_ok st \<Longrightarrow> only_pushes st0 st \<Longrightarrow> only_pushes st0 (snd (oper st))"
  using only_pushes_trans pushes by blast

end

lemma only_pushes_next [simp]: "only_pushes st (st\<lparr>ss_next_event_id := i\<rparr>)"
  by (simp add: only_pushes_def option.rel_refl)

lemma state_ok_next [simp]: "state_ok (st\<lparr>ss_next_event_id := i\<rparr>) = state_ok st"
  by (simp add: state_ok_def)

lemma only_pushes_deliver: "state_ok st \<Longrightarrow> only_pushes st (deliver_all msg st)"
  by (auto simp: deliver_all_eq only_pushes_def option.rel_map option.rel_refl)

lemma only_pushes_try_send: "only_pushes st (snd (try_send_to s msg st))"
  by (auto simp: try_send_to_eq only_pushes_def option.rel_map option.rel_refl)

interpretation broadcast: push_operation "broadcast_event X rnd H name data atts" for X rnd H name data atts
proof
  fix st assume ok: "state_ok st"
  let ?st = "st\<lparr>ss_next_event_id := ss_next_event_id st + 1\<rparr>"
  have "only_pushes st (deliver_all msg ?st)" for msg
    using only_pushes_trans [OF only_pushes_next only_pushes_deliver [of ?st msg]] ok by simp
  then show "only_pushes st (snd (broadcast_event X rnd H name data atts st))"
    by (simp add: broadcast_event_def Let_def split: sum.split)
qed

interpretation direct: push_operation "send_event_to X rnd H cid name data atts" for X rnd H cid name data atts
proof
  fix st assume ok: "state_ok st"
  have "only_pushes st (snd (try_send_to s msg (st\<lparr>ss_next_event_id := ss_next_event_id st + 1\<rparr>)))" for s msg
    using only_pushes_trans [OF only_pushes_next only_pushes_try_send] .
  then show "only_pushes st (snd (send_event_to X rnd H cid name data atts st))"
    by (simp add: send_event_to_def Let_def split_beta split: sum.split option.split)
qed


text \<open>
  C16. Broadcasts: a broadcast takes the next event id and offers one and the same message (the packet in
  ECDH mode, its frame encoded once otherwise) to every live connection. A connection whose queue has room
  gets it at the end of its queue; one whose queue is full or whose writer is gone loses this one
  delivery and the broadcast still succeeds. Queues of no live connection, the table of clients and the
  capacities are untouched, and an encoding failure reaches nobody.
\<close>

theorem broadcast_reaches_all:
  assumes "state_ok st" "broadcast_event X rnd H name data atts st = (r, st')"
  shows "ss_clients st' = ss_clients st \<and> ss_next_event_id st' = ss_next_event_id st + 1 \<and>
    (let p = event_packet H (ss_next_event_id st + 1) name data atts in
     if r = Inr () then
       (\<exists>msg. (if sh_is_ecdh H then msg = OutPacket p else \<exists>frame. encode X rnd (sh_codec H) p = Inr frame \<and> msg = PreEncoded frame) \<and>
          (\<forall>k ch. ss_channels st k = Some ch \<longrightarrow>
             ss_channels st' k = Some (
               if k \<in> fst ` set (ss_clients st) \<and> ch_open ch \<and> length (ch_queue ch) < ch_capacity ch
               then ch\<lparr>ch_queue := ch_queue ch @ [msg]\<rparr> else ch)))
     else \<not> sh_is_ecdh H \<and> (\<exists>e. encode X rnd (sh_codec H) p = Inl e) \<and> ss_channels st' = ss_channels st \<and>
       r = Inl (internal ''failed to encode broadcast event''))"
proof -
  let ?st = "st\<lparr>ss_next_event_id := ss_next_event_id st + 1\<rparr>"
  let ?p = "event_packet H (ss_next_event_id st + 1) name data atts"
  have offer: "offer msg ch = (if ch_open ch \<and> length (ch_queue ch) < ch_capacity ch
      then ch\<lparr>ch_queue := ch_queue ch @ [msg]\<rparr> else ch)" for msg and ch :: "server_outbound channel"
    by (simp add: offer_def try_send_def)
  have deliver: "ss_clients (deliver_all msg ?st) = ss_clients st"
      "ss_next_event_id (deliver_all msg ?st) = ss_next_event_id st + 1"
      "\<forall>k ch. ss_channels st k = Some ch \<longrightarrow> ss_channels (deliver_all msg ?st) k =
         Some (if k \<in> fst ` set (ss_clients st) \<and> ch_open ch \<and> length (ch_queue ch) < ch_capacity ch
               then ch\<lparr>ch_queue := ch_queue ch @ [msg]\<rparr> else ch)" for msg
    using assms(1) by (simp_all add: deliver_all_eq offer)
  consider (ecdh) "sh_is_ecdh H" "r = Inr ()" "st' = deliver_all (OutPacket ?p) ?st"
    | (psk) f where "\<not> sh_is_ecdh H" "encode X rnd (sh_codec H) ?p = Inr f" "r = Inr ()"
        "st' = deliver_all (PreEncoded f) ?st"
    | (fail) e where "\<not> sh_is_ecdh H" "encode X rnd (sh_codec H) ?p = Inl e" "st' = ?st"
        "r = Inl (internal ''failed to encode broadcast event'')"
    using assms(2) by (auto simp: broadcast_event_def Let_def split: if_splits sum.splits)
  then show ?thesis
  proof cases
    case ecdh
    then show ?thesis using deliver [of "OutPacket ?p"] by (simp only: Let_def if_True simp_thms ex_simps)
  next
    case psk
    then show ?thesis using deliver [of "PreEncoded f"] by (simp only: Let_def if_True if_False simp_thms) blast
  qed simp
qed

text \<open>A server with two connections, the second with a full queue of capacity one.\<close>

definition two_clients :: server_state where
  "two_clients = \<lparr>ss_clients =
       [(''a'', \<lparr>ce_sender = ''a'', ce_idle_timeout = None, ce_auth_context = None\<rparr>),
        (''b'', \<lparr>ce_sender = ''b'', ce_idle_timeout = None, ce_auth_context = None\<rparr>)],
     ss_next_event_id = 6,
     ss_channels = [''a'' \<mapsto> channel_new 256,
        ''b'' \<mapsto> \<lparr>ch_queue = [OutClose], ch_capacity = 1, ch_open = True\<rparr>]\<rparr>"

definition ecdh_handle :: server_handle where
  "ecdh_handle = \<lparr>sh_codec = codec_plaintext, sh_default_encryption = ChaCha20, sh_is_ecdh = True\<rparr>"

lemma two_clients_ok: "state_ok two_clients"
  by (simp add: state_ok_def two_clients_def map_ok_def) (simp add: channel_ok_def)

theorem broadcast_reaches_all_witness:
  "\<exists>st'. broadcast_event sample_externals (Inr []) ecdh_handle ''news'' [] [] two_clients = (Inr (), st') \<and>
     ss_channels st' ''a'' = Some \<lparr>ch_queue = [OutPacket (event_packet ecdh_handle 7 ''news'' [] [])],
       ch_capacity = 256, ch_open = True\<rparr> \<and>
     ss_channels st' ''b'' = Some \<lparr>ch_queue = [OutClose], ch_capacity = 1, ch_open = True\<rparr>"
proof -
  obtain r st' where b: "broadcast_event sample_externals (Inr []) ecdh_handle ''news'' [] [] two_clients = (r, st')"
    by fastforce
  have "r = Inr ()" using b by (simp add: broadcast_event_def ecdh_handle_def Let_def)
  with b broadcast_reaches_all [OF two_clients_ok b] show ?thesis
    by (simp add: ecdh_handle_def) (simp add: two_clients_def channel_new_def Let_def)
qed

text \<open>The message of a direct push: the packet itself in ECDH mode, otherwise its frame, if it encodes.\<close>

definition push_message :: "externals \<Rightarrow> random \<Rightarrow> server_handle \<Rightarrow> packet_envelope \<Rightarrow> server_outbound option" where
  "push_message X rnd H p =
     (if sh_is_ecdh H then Some (OutPacket p)
      else case encode X rnd (sh_codec H) p of Inr frame \<Rightarrow> Some (PreEncoded frame) | Inl _ \<Rightarrow> None)"

definition has_room :: "'m channel \<Rightarrow> bool" where
  "has_room ch \<longleftrightarrow> ch_open ch \<and> length (ch_queue ch) < ch_capacity ch"

lemma try_send_to_room:
  "try_send_to k msg st = (case ss_channels st k of
     Some ch \<Rightarrow> if has_room ch then (True, st\<lparr>ss_channels := (ss_channels st)(k \<mapsto> ch\<lparr>ch_queue := ch_queue ch @ [msg]\<rparr>)\<rparr>) else (False, st)
   | None \<Rightarrow> (False, st))"
  by (auto simp: try_send_to_def try_send_def has_room_def split: option.splits)

lemma live_sender:
  assumes "state_ok st" "map_of (ss_clients st) cid = Some entry"
  shows "ce_sender entry = cid \<and> (\<exists>ch. ss_channels st cid = Some ch)"
  using assms by (fastforce simp: state_ok_def dest: map_of_SomeD)

text \<open>
  C35. Direct pushes: \<open>send_event_to\<close> succeeds if and only if the connection is live, the event encodes
  (outside ECDH mode) and the connection's queue is open and has room. On success exactly that queue gains exactly that message at
  its end. Every failure leaves all queues as they were and is a 404 for an unknown connection and a 500 otherwise. Either way the
  table of clients is unchanged and one event id is used up.
\<close>

theorem direct_push_exact:
  assumes "state_ok st" "send_event_to X rnd H cid name data atts st = (r, st')"
  defines "p \<equiv> event_packet H (ss_next_event_id st + 1) name data atts"
  shows "(r = Inr () \<longleftrightarrow> (\<exists>ch msg. cid \<in> fst ` set (ss_clients st) \<and> push_message X rnd H p = Some msg \<and> ss_channels st cid = Some ch \<and> has_room ch)) \<and>
    (case r of
       Inr _ \<Rightarrow> \<exists>ch msg. push_message X rnd H p = Some msg \<and> ss_channels st cid = Some ch \<and>
         ss_channels st' = (ss_channels st)(cid \<mapsto> ch\<lparr>ch_queue := ch_queue ch @ [msg]\<rparr>)
     | Inl e \<Rightarrow> ss_channels st' = ss_channels st \<and> ae_status e = (if cid \<in> fst ` set (ss_clients st) then 500 else 404)) \<and>
    ss_clients st' = ss_clients st \<and> ss_next_event_id st' = ss_next_event_id st + 1"
proof (cases "map_of (ss_clients st) cid")
  case None
  then have "cid \<notin> fst ` set (ss_clients st)" by (simp add: map_of_eq_None_iff)
  then show ?thesis using assms(2) None by (auto simp: send_event_to_def Let_def api_error_defs)
next
  case (Some entry)
  then have live: "cid \<in> fst ` set (ss_clients st)" by (metis map_of_eq_None_iff option.distinct(1))
  obtain ch where ch: "ce_sender entry = cid" "ss_channels st cid = Some ch" using live_sender [OF assms(1) Some] by blast
  show ?thesis
    using assms(2) Some live ch
    by (auto simp: p_def send_event_to_def push_message_def Let_def try_send_to_room api_error_defs split: if_splits sum.splits)
qed

theorem direct_push_exact_witness:
  "let p = event_packet ecdh_handle 7 ''news'' [] [] in
   (\<exists>st'. send_event_to sample_externals (Inr []) ecdh_handle ''a'' ''news'' [] [] two_clients = (Inr (), st') \<and>
      map_option ch_queue (ss_channels st' ''a'') = Some [OutPacket p]) \<and>
   (\<exists>e st'. send_event_to sample_externals (Inr []) ecdh_handle ''b'' ''news'' [] [] two_clients = (Inl e, st') \<and> ae_status e = 500) \<and>
   (\<exists>e st'. send_event_to sample_externals (Inr []) ecdh_handle ''c'' ''news'' [] [] two_clients = (Inl e, st') \<and> ae_status e = 404)"
proof -
  let ?send = "\<lambda>k. send_event_to sample_externals (Inr []) ecdh_handle k ''news'' [] [] two_clients"
  have exact: "?send k = (fst (?send k), snd (?send k))" for k by simp
  note push = direct_push_exact [OF two_clients_ok exact]
  have msg: "push_message sample_externals (Inr []) ecdh_handle p = Some (OutPacket p)" for p
    by (simp add: push_message_def ecdh_handle_def)
  have st: "ss_clients two_clients = [(''a'', \<lparr>ce_sender = ''a'', ce_idle_timeout = None, ce_auth_context = None\<rparr>),
        (''b'', \<lparr>ce_sender = ''b'', ce_idle_timeout = None, ce_auth_context = None\<rparr>)]" "ss_next_event_id two_clients = 6"
      "ss_channels two_clients ''a'' = Some (channel_new 256)"
      "ss_channels two_clients ''b'' = Some \<lparr>ch_queue = [OutClose], ch_capacity = 1, ch_open = True\<rparr>"
    by (simp_all add: two_clients_def)
  have a: "fst (?send ''a'') = Inr ()" using push [of "''a''"] by (simp add: msg st has_room_def channel_new_def)
  have b: "fst (?send ''b'') \<noteq> Inr ()" using push [of "''b''"] by (simp add: msg st has_room_def)
  have c: "fst (?send ''c'') \<noteq> Inr ()" using push [of "''c''"] by (simp add: msg st)
  obtain eb where eb: "fst (?send ''b'') = Inl eb" using b by (cases "fst (?send ''b'')") auto
  obtain ec where ec: "fst (?send ''c'') = Inl ec" using c by (cases "fst (?send ''c'')") auto
  have "map_option ch_queue (ss_channels (snd (?send ''a'')) ''a'') = Some [OutPacket (event_packet ecdh_handle 7 ''news'' [] [])]"
    using push [of "''a''"] by (auto simp: a msg st channel_new_def)
  moreover have "ae_status eb = 500" "ae_status ec = 404" using push [of "''b''"] push [of "''c''"] by (simp_all add: eb ec st)
  moreover have "?send ''a'' = (Inr (), snd (?send ''a''))" using exact [of "''a''"] by (simp only: a)
  moreover have "?send ''b'' = (Inl eb, snd (?send ''b''))" using exact [of "''b''"] by (simp only: eb)
  moreover have "?send ''c'' = (Inl ec, snd (?send ''c''))" using exact [of "''c''"] by (simp only: ec)
  ultimately show ?thesis unfolding Let_def by blast
qed

end
