(* ===== verification/Server_Runtime.thy ===== *)
theory Server_Runtime
  imports Server_Types
begin

section \<open>The server: registration, dispatch and replies\<close>

text \<open>
  \<open>crates/wscall-server/src/server_runtime.rs\<close> without the tasks of a connection: the server and its
  builders, the filter chain and the route and event dispatch with their panic guards, the
  exception handler, the life-cycle notifications, the queueing of replies, the handshake phases and what
  the reader does with one message. A panic of user code that is not caught propagates as \<open>Panicked\<close>. User
  code is total: it returns or panics. A route or event handler is called first, which runs its synchronous part and returns a
  future, and the future is then polled under the panic guard.
\<close>

subsection \<open>User code\<close>

type_synonym 'a user = "server_state \<Rightarrow> 'a outcome \<times> server_state"

text \<open>
  A future is what polling it to its end does. \<open>AssertUnwindSafe(handler(ctx)).catch_unwind()\<close> evaluates the call
  \<open>handler(ctx)\<close> before the guard exists, so a handler is a function whose call may itself panic and otherwise returns a future. Filters and
  the exception handler are awaited with no guard, and their call and its future are one function here. The guard around the handlers of authentication,
  connections and disconnections is modelled for the future only: their call is assumed to return it (for authentication a panic of the call has the effect
  of a panic of the future, the connection ends without a reply).
\<close>

type_synonym 'a future = "'a user"

type_synonym api_handler = "api_context \<Rightarrow> (api_error + jvalue) future user"
type_synonym filter_fn = "api_context \<Rightarrow> (api_error + api_context) user"
type_synonym event_handler_fn = "event_context \<Rightarrow> (api_error + jvalue) future user"
type_synonym connection_handler = "server_connection_context \<Rightarrow> unit user"
type_synonym disconnect_handler = "server_disconnect_context \<Rightarrow> unit user"
type_synonym exception_handler_fn = "exception_context \<Rightarrow> error_payload user"
type_synonym auth_handler_fn = "auth_context \<Rightarrow> (api_error + auth_output) user"

definition ureturn :: "'a \<Rightarrow> 'a user" where
  "ureturn x st = (Returned x, st)"

definition ubind :: "'a user \<Rightarrow> ('a \<Rightarrow> 'b user) \<Rightarrow> 'b user" where
  "ubind m f st = (case m st of (Returned x, st) \<Rightarrow> f x st | (Panicked, st) \<Rightarrow> (Panicked, st))"

text \<open>\<open>handler(ctx).await\<close> without a guard.\<close>

definition await :: "'a future user \<Rightarrow> 'a user" where
  "await call = ubind call (\<lambda>future. future)"

text \<open>\<open>AssertUnwindSafe(m).catch_unwind().await\<close> for a future \<open>m\<close>: a panic becomes the value \<open>None\<close>.\<close>

definition catch_unwind :: "'a future \<Rightarrow> 'a option user" where
  "catch_unwind m st =
     (case m st of (Returned x, st) \<Rightarrow> (Returned (Some x), st) | (Panicked, st) \<Rightarrow> (Returned None, st))"

subsection \<open>The server and its builders\<close>

definition SERVER_IDLE_TIMEOUT :: duration where "SERVER_IDLE_TIMEOUT = from_secs 45"
definition SERVER_HEARTBEAT_INTERVAL :: duration where "SERVER_HEARTBEAT_INTERVAL = from_secs 15"
definition SERVER_OUTBOUND_QUEUE_CAPACITY :: nat where "SERVER_OUTBOUND_QUEUE_CAPACITY = 256"
definition SERVER_DEFAULT_MAX_IN_FLIGHT :: nat where "SERVER_DEFAULT_MAX_IN_FLIGHT = 64"

record wscall_server =
  sv_routes :: "(string \<times> api_handler) list"
  sv_filters :: "filter_fn list"
  sv_event_handlers :: "(string \<times> event_handler_fn) list"
  sv_connection_handlers :: "connection_handler list"
  sv_disconnect_handlers :: "disconnect_handler list"
  sv_exception_handler :: "exception_handler_fn option"
  sv_codec :: frame_codec
  sv_default_encryption :: encryption_kind
  sv_is_ecdh :: bool
  sv_max_connections :: "nat option"
  sv_max_in_flight :: nat
  sv_max_frame_bytes :: nat
  sv_rate_limiter :: "limiter_state option"
  sv_auth_handler :: "auth_handler_fn option"

definition server_new :: wscall_server where
  "server_new = \<lparr>sv_routes = [], sv_filters = [], sv_event_handlers = [], sv_connection_handlers = [],
     sv_disconnect_handlers = [], sv_exception_handler = None, sv_codec = codec_plaintext,
     sv_default_encryption = NoEncryption, sv_is_ecdh = False, sv_max_connections = None,
     sv_max_in_flight = SERVER_DEFAULT_MAX_IN_FLIGHT, sv_max_frame_bytes = DEFAULT_MAX_FRAME_BYTES,
     sv_rate_limiter = None, sv_auth_handler = None\<rparr>"

definition server_with_ecdh :: "wscall_server \<Rightarrow> wscall_server" where
  "server_with_ecdh S = S\<lparr>sv_is_ecdh := True, sv_default_encryption := ChaCha20\<rparr>"

definition server_with_chacha20_key :: "bytes \<Rightarrow> wscall_server \<Rightarrow> wscall_server" where
  "server_with_chacha20_key key S =
     S\<lparr>sv_codec := codec_with_chacha20_key key (sv_codec S), sv_default_encryption := ChaCha20\<rparr>"

definition server_with_aes256_key :: "bytes \<Rightarrow> wscall_server \<Rightarrow> wscall_server" where
  "server_with_aes256_key key S =
     S\<lparr>sv_codec := codec_with_aes256_key key (sv_codec S), sv_default_encryption := Aes256\<rparr>"

definition server_with_max_connections :: "nat \<Rightarrow> wscall_server \<Rightarrow> wscall_server" where
  "server_with_max_connections m S = S\<lparr>sv_max_connections := Some m\<rparr>"

definition server_with_max_in_flight :: "nat \<Rightarrow> wscall_server \<Rightarrow> wscall_server" where
  "server_with_max_in_flight m S = S\<lparr>sv_max_in_flight := m\<rparr>"

definition server_with_max_frame_bytes :: "nat \<Rightarrow> wscall_server \<Rightarrow> wscall_server" where
  "server_with_max_frame_bytes m S = S\<lparr>sv_max_frame_bytes := m\<rparr>"

definition server_with_rate_limiter :: "rate_limiter \<Rightarrow> wscall_server \<Rightarrow> wscall_server" where
  "server_with_rate_limiter r S = S\<lparr>sv_rate_limiter := Some (build r)\<rparr>"

definition server_auth_handler :: "auth_handler_fn \<Rightarrow> wscall_server \<Rightarrow> wscall_server" where
  "server_auth_handler h S = S\<lparr>sv_auth_handler := Some h\<rparr>"

definition handle :: "wscall_server \<Rightarrow> server_handle" where
  "handle S = \<lparr>sh_codec = sv_codec S, sh_default_encryption = sv_default_encryption S, sh_is_ecdh = sv_is_ecdh S\<rparr>"

definition route :: "string \<Rightarrow> api_handler \<Rightarrow> wscall_server \<Rightarrow> wscall_server" where
  "route name h S = S\<lparr>sv_routes := map_insert name h (sv_routes S)\<rparr>"

definition typed_route ::
  "(jvalue \<Rightarrow> string + 't) \<Rightarrow> string \<Rightarrow> (api_context \<Rightarrow> 't \<Rightarrow> (api_error + jvalue) future user) \<Rightarrow> wscall_server \<Rightarrow> wscall_server" where
  "typed_route de name h S = route name (\<lambda>ctx.
     let (params, ctx) = bind_take de ctx in
     ureturn (case params of Inl e \<Rightarrow> ureturn (Inl e) | Inr params \<Rightarrow> await (h ctx params))) S"

definition validated_route ::
  "(jvalue \<Rightarrow> string + 't) \<Rightarrow> ('t \<Rightarrow> validation_errors + unit) \<Rightarrow> string
     \<Rightarrow> (api_context \<Rightarrow> 't \<Rightarrow> (api_error + jvalue) future user) \<Rightarrow> wscall_server \<Rightarrow> wscall_server" where
  "validated_route de validate name h S = route name (\<lambda>ctx.
     let (params, ctx) = bind_take de ctx;
         params = rbind params (\<lambda>params.
           rbind (map_err validation_failed (validate params)) (\<lambda>_. Inr params)) in
     ureturn (case params of Inl e \<Rightarrow> ureturn (Inl e) | Inr params \<Rightarrow> await (h ctx params))) S"

definition add_filter :: "filter_fn \<Rightarrow> wscall_server \<Rightarrow> wscall_server" where
  "add_filter f S = S\<lparr>sv_filters := sv_filters S @ [f]\<rparr>"

definition event_handler :: "string \<Rightarrow> event_handler_fn \<Rightarrow> wscall_server \<Rightarrow> wscall_server" where
  "event_handler name h S = S\<lparr>sv_event_handlers := map_insert name h (sv_event_handlers S)\<rparr>"

definition on_connected :: "connection_handler \<Rightarrow> wscall_server \<Rightarrow> wscall_server" where
  "on_connected h S = S\<lparr>sv_connection_handlers := sv_connection_handlers S @ [h]\<rparr>"

definition on_disconnected :: "disconnect_handler \<Rightarrow> wscall_server \<Rightarrow> wscall_server" where
  "on_disconnected h S = S\<lparr>sv_disconnect_handlers := sv_disconnect_handlers S @ [h]\<rparr>"

definition server_exception_handler :: "exception_handler_fn \<Rightarrow> wscall_server \<Rightarrow> wscall_server" where
  "server_exception_handler h S = S\<lparr>sv_exception_handler := Some h\<rparr>"

subsection \<open>Packets the server builds itself\<close>

definition frame_error_packet :: "u64 \<Rightarrow> string \<Rightarrow> string \<Rightarrow> encryption_kind \<Rightarrow> packet_envelope" where
  "frame_error_packet request_id code message encryption =
     with_encryption (ApiResponse request_id False 413 (Object [])
       (Some \<lparr>ep_code = code, ep_message = message, ep_status = 413, ep_details = None\<rparr>) (Object [])) encryption"

definition service_busy_packet :: "u64 \<Rightarrow> encryption_kind \<Rightarrow> packet_envelope" where
  "service_busy_packet request_id encryption =
     with_encryption (ApiResponse request_id False 503 (Object [])
       (Some \<lparr>ep_code = ''service_busy'', ep_message = ''rate limit exceeded'', ep_status = 503, ep_details = None\<rparr>)
       (Object [])) encryption"

definition silent_ack_packet :: "u64 \<Rightarrow> encryption_kind \<Rightarrow> packet_envelope" where
  "silent_ack_packet event_id encryption = with_encryption (EventAck event_id True (Object []) None) encryption"

subsection \<open>Requests and events\<close>

record api_request_input =
  ar_request_id :: u64
  ar_route :: string
  ar_params :: jvalue
  ar_attachments :: "file_attachment list"
  ar_metadata :: jvalue

record event_emit_input =
  ei_event_id :: u64
  ei_name :: string
  ei_data :: json_map
  ei_attachments :: "file_attachment list"
  ei_metadata :: jvalue

definition lookup_auth_context :: "string \<Rightarrow> server_state \<Rightarrow> json_map option" where
  "lookup_auth_context connection_id st =
     Option.bind (map_of (ss_clients st) connection_id) ce_auth_context"

definition map_exception :: "wscall_server \<Rightarrow> exception_context \<Rightarrow> error_payload user" where
  "map_exception S xc =
     (case sv_exception_handler S of Some h \<Rightarrow> h xc | None \<Rightarrow> ureturn (into_payload (xc_error xc)))"

definition api_error_packet ::
  "wscall_server \<Rightarrow> string \<Rightarrow> u64 option \<Rightarrow> string \<Rightarrow> api_error \<Rightarrow> packet_envelope user" where
  "api_error_packet S connection_id request_id rt err =
     (let request_id = (case request_id of Some i \<Rightarrow> i | None \<Rightarrow> 0); status = ae_status err in
      ubind (map_exception S \<lparr>xc_connection_id = connection_id, xc_request_id = Some request_id,
               xc_target = rt, xc_message_kind = ''api'', xc_error = err\<rparr>)
        (\<lambda>payload. ureturn (with_encryption
           (ApiResponse request_id False status (Object []) (Some payload) (Object [])) (sv_default_encryption S))))"

fun run_filters :: "filter_fn list \<Rightarrow> api_context \<Rightarrow> (api_error + api_context) user" where
  "run_filters [] ctx = ureturn (Inr ctx)"
| "run_filters (f # fs) ctx =
     ubind (f ctx) (\<lambda>r. case r of Inr next_ctx \<Rightarrow> run_filters fs next_ctx | Inl e \<Rightarrow> ureturn (Inl e))"

definition api_context_of ::
  "wscall_server \<Rightarrow> string \<Rightarrow> socket_addr option \<Rightarrow> api_request_input \<Rightarrow> server_state \<Rightarrow> api_context" where
  "api_context_of S connection_id peer_addr req st =
     \<lparr>ac_connection_id = connection_id, ac_peer_addr = peer_addr, ac_request_id = ar_request_id req,
      ac_route = ar_route req, ac_params = ar_params req, ac_attachments = ar_attachments req,
      ac_metadata = ar_metadata req, ac_server = handle S,
      ac_auth_context = lookup_auth_context connection_id st\<rparr>"

definition run_api_request ::
  "wscall_server \<Rightarrow> string \<Rightarrow> socket_addr option \<Rightarrow> api_request_input \<Rightarrow> packet_envelope user" where
  "run_api_request S connection_id peer_addr req st =
     (let request_id = ar_request_id req; rt = ar_route req in
      ubind (run_filters (sv_filters S) (api_context_of S connection_id peer_addr req st)) (\<lambda>filtered.
        case filtered of
          Inl err \<Rightarrow> api_error_packet S connection_id (Some request_id) rt err
        | Inr ctx \<Rightarrow>
            (case map_of (sv_routes S) (ac_route ctx) of
               None \<Rightarrow> api_error_packet S connection_id (Some request_id) rt (not_found ''route not found'')
             | Some handler \<Rightarrow>
                 ubind (handler ctx) (\<lambda>future. ubind (catch_unwind future) (\<lambda>r. case r of
                   Some (Inr data) \<Rightarrow> ureturn (with_encryption
                      (ApiResponse request_id True 200 data None (Object [])) (sv_default_encryption S))
                 | Some (Inl err) \<Rightarrow> api_error_packet S connection_id (Some request_id) rt err
                 | None \<Rightarrow> api_error_packet S connection_id (Some request_id) rt (internal ''handler panicked''))))) st)"

definition event_context_of ::
  "wscall_server \<Rightarrow> string \<Rightarrow> socket_addr option \<Rightarrow> event_emit_input \<Rightarrow> server_state \<Rightarrow> event_context" where
  "event_context_of S connection_id peer_addr ev st =
     \<lparr>ec_connection_id = connection_id, ec_peer_addr = peer_addr, ec_event_id = ei_event_id ev,
      ec_name = ei_name ev, ec_data = ei_data ev, ec_attachments = ei_attachments ev,
      ec_metadata = ei_metadata ev, ec_server = handle S,
      ec_auth_context = lookup_auth_context connection_id st\<rparr>"

definition event_error_ack :: "wscall_server \<Rightarrow> string \<Rightarrow> event_emit_input \<Rightarrow> api_error \<Rightarrow> packet_envelope user" where
  "event_error_ack S connection_id ev err =
     ubind (map_exception S \<lparr>xc_connection_id = connection_id, xc_request_id = Some (ei_event_id ev),
              xc_target = ei_name ev, xc_message_kind = ''event'', xc_error = err\<rparr>)
       (\<lambda>payload. ureturn (with_encryption (EventAck (ei_event_id ev) False (Object []) (Some payload))
          (sv_default_encryption S)))"

definition run_event ::
  "wscall_server \<Rightarrow> string \<Rightarrow> socket_addr option \<Rightarrow> event_emit_input \<Rightarrow> packet_envelope user" where
  "run_event S connection_id peer_addr ev st =
     (case map_of (sv_event_handlers S) (ei_name ev) of
        None \<Rightarrow> ureturn (with_encryption
          (EventAck (ei_event_id ev) False (Object []) (Some (into_payload (not_found ''event handler not found''))))
          (sv_default_encryption S)) st
      | Some handler \<Rightarrow>
          ubind (handler (event_context_of S connection_id peer_addr ev st)) (\<lambda>future. ubind (catch_unwind future) (\<lambda>r. case r of
            Some (Inr receipt) \<Rightarrow> ureturn (with_encryption
              (EventAck (ei_event_id ev) True receipt None) (sv_default_encryption S))
          | Some (Inl err) \<Rightarrow> event_error_ack S connection_id ev err
          | None \<Rightarrow> event_error_ack S connection_id ev (internal ''event handler panicked''))) st)"

text \<open>The reply of \<open>process_packet\<close>, before it is queued; \<open>None\<close> for packets that get no reply.\<close>

fun reply_to ::
  "wscall_server \<Rightarrow> string \<Rightarrow> socket_addr option \<Rightarrow> packet_body \<Rightarrow> packet_envelope option user" where
  "reply_to S connection_id peer_addr (ApiRequest request_id rt params attachments meta) =
     ubind (run_api_request S connection_id peer_addr \<lparr>ar_request_id = request_id, ar_route = rt, ar_params = params,
              ar_attachments = attachments, ar_metadata = meta\<rparr>) (\<lambda>p. ureturn (Some p))"
| "reply_to S connection_id peer_addr (EventEmit event_id name data attachments meta expect_ack) =
     ubind (run_event S connection_id peer_addr \<lparr>ei_event_id = event_id, ei_name = name, ei_data = data,
              ei_attachments = attachments, ei_metadata = meta\<rparr>) (\<lambda>p. ureturn (Some p))"
| "reply_to S connection_id peer_addr (EventAck event_id okay receipt err) = ureturn None"
| "reply_to S connection_id peer_addr (ApiResponse request_id okay status data err meta) = ureturn None"
| "reply_to S connection_id peer_addr (AuthRequest credential) = ureturn None"
| "reply_to S connection_id peer_addr (AuthResponse okay st err) = ureturn None"

subsection \<open>Queueing of replies\<close>

text \<open>
  \<open>queue_for\<close> first clones the sender and builds the message, then waits for space: \<open>queue_target\<close> is the
  first part, \<open>queue_send\<close> the second (\<open>None\<close> while the queue is full).
\<close>

definition queue_target ::
  "externals \<Rightarrow> random \<Rightarrow> wscall_server \<Rightarrow> string \<Rightarrow> packet_envelope \<Rightarrow> server_state
     \<Rightarrow> server_error + (string \<times> server_outbound)" where
  "queue_target X rnd S connection_id packet st =
     (case map_of (ss_clients st) connection_id of
        None \<Rightarrow> Inl (ApiFailure (not_found ''connection is closed''))
      | Some entry \<Rightarrow>
          if sv_is_ecdh S then Inr (ce_sender entry, OutPacket packet)
          else map_err Protocol (rbind (encode X rnd (sv_codec S) packet)
                 (\<lambda>encoded. Inr (ce_sender entry, PreEncoded encoded))))"

definition queue_send ::
  "string \<Rightarrow> server_outbound \<Rightarrow> server_state \<Rightarrow> ((server_error + unit) \<times> server_state) option" where
  "queue_send sender msg st =
     (case ss_channels st sender of
        None \<Rightarrow> Some (Inl (ApiFailure (internal ''failed to queue outbound packet'')), st)
      | Some ch \<Rightarrow> (case send msg ch of
          None \<Rightarrow> None
        | Some (Inl _) \<Rightarrow> Some (Inl (ApiFailure (internal ''failed to queue outbound packet'')), st)
        | Some (Inr ch') \<Rightarrow> Some (Inr (), st\<lparr>ss_channels := (ss_channels st)(sender \<mapsto> ch')\<rparr>)))"

definition queue_for ::
  "externals \<Rightarrow> random \<Rightarrow> wscall_server \<Rightarrow> string \<Rightarrow> packet_envelope \<Rightarrow> server_state
     \<Rightarrow> ((server_error + unit) \<times> server_state) option" where
  "queue_for X rnd S connection_id packet st =
     (case queue_target X rnd S connection_id packet st of
        Inl e \<Rightarrow> Some (Inl e, st)
      | Inr (sender, msg) \<Rightarrow> queue_send sender msg st)"

definition process_packet ::
  "externals \<Rightarrow> random \<Rightarrow> wscall_server \<Rightarrow> string \<Rightarrow> socket_addr option \<Rightarrow> packet_envelope \<Rightarrow> server_state
     \<Rightarrow> ((server_error + unit) outcome \<times> server_state) option" where
  "process_packet X rnd S connection_id peer_addr packet st =
     (case reply_to S connection_id peer_addr (pe_body packet) st of
        (Panicked, st) \<Rightarrow> Some (Panicked, st)
      | (Returned None, st) \<Rightarrow> Some (Returned (Inr ()), st)
      | (Returned (Some response), st) \<Rightarrow>
          map_option (map_prod Returned id) (queue_for X rnd S connection_id response st))"

subsection \<open>Life-cycle notifications\<close>

text \<open>The futures of the handlers run under \<open>join_all\<close>, here in order; a panic of one is logged and the others still run.\<close>

definition notify_all :: "('c \<Rightarrow> unit user) list \<Rightarrow> 'c \<Rightarrow> server_state \<Rightarrow> server_state" where
  "notify_all handlers ctx st = fold (\<lambda>h st. snd (catch_unwind (h ctx) st)) handlers st"

definition notify_connected ::
  "wscall_server \<Rightarrow> string \<Rightarrow> socket_addr option \<Rightarrow> json_map option \<Rightarrow> server_state \<Rightarrow> server_state" where
  "notify_connected S connection_id peer_addr auth_ctx st =
     notify_all (sv_connection_handlers S)
       \<lparr>scc_connection_id = connection_id, scc_peer_addr = peer_addr, scc_server = handle S,
        scc_authenticated = (auth_ctx \<noteq> None), scc_auth_context = auth_ctx\<rparr> st"

definition notify_disconnected ::
  "wscall_server \<Rightarrow> string \<Rightarrow> socket_addr option \<Rightarrow> string \<Rightarrow> server_state \<Rightarrow> server_state" where
  "notify_disconnected S connection_id peer_addr reason st =
     notify_all (sv_disconnect_handlers S)
       \<lparr>sdc_connection_id = connection_id, sdc_peer_addr = peer_addr, sdc_reason = reason,
        sdc_server = handle S\<rparr> st"

text \<open>\<open>show_error\<close> is the \<open>Display\<close> text of an error.\<close>

definition disconnect_reason :: "(server_error \<Rightarrow> string) \<Rightarrow> server_error + unit \<Rightarrow> string" where
  "disconnect_reason show_error result =
     (case result of
        Inr _ \<Rightarrow> ''connection closed''
      | Inl (IdleTimeout _) \<Rightarrow> ''idle timeout''
      | Inl err \<Rightarrow> show_error err)"


subsection \<open>Evaluation of user code\<close>

lemma ubind_simps [simp, result_simps]:
  "m st = (Returned x, st') \<Longrightarrow> ubind m f st = f x st'"
  "m st = (Panicked, st') \<Longrightarrow> ubind m f st = (Panicked, st')"
  by (simp_all add: ubind_def)

lemma ubind_Returned:
  "ubind m f st = (Returned y, st'') \<longleftrightarrow> (\<exists>x st'. m st = (Returned x, st') \<and> f x st' = (Returned y, st''))"
  by (auto simp: ubind_def split: prod.splits outcome.splits)

lemma ureturn_apply [simp]: "ureturn x st = (Returned x, st)"
  by (simp add: ureturn_def)

lemma catch_unwind_Returned [simp]: "\<exists>r st'. catch_unwind m st = (Returned r, st')"
  by (auto simp: catch_unwind_def split: prod.splits outcome.splits)

definition never_panics :: "('c \<Rightarrow> 'a user) \<Rightarrow> bool" where
  "never_panics h \<longleftrightarrow> (\<forall>c st. fst (h c st) \<noteq> Panicked)"

text \<open>The user code outside the panic guard does not panic: filters, the exception handler, and the calls (not the futures) of route and event handlers.\<close>

definition unguarded_ok :: "wscall_server \<Rightarrow> bool" where
  "unguarded_ok S \<longleftrightarrow> (\<forall>f \<in> set (sv_filters S). never_panics f) \<and> pred_option never_panics (sv_exception_handler S) \<and>
     (\<forall>h \<in> snd ` set (sv_routes S). never_panics h) \<and> (\<forall>h \<in> snd ` set (sv_event_handlers S). never_panics h)"

lemma never_panics_returns: "never_panics h \<Longrightarrow> \<exists>x st'. h c st = (Returned x, st')"
  by (metis never_panics_def outcome.exhaust surjective_pairing)

lemma with_encryption_eq [simp]: "with_encryption b e = with_encryption b' e' \<longleftrightarrow> b = b' \<and> e = e'"
  by (auto simp: with_encryption_def)

lemma map_exception_returns:
  assumes "unguarded_ok S"
  shows "\<exists>payload st'. map_exception S xc st = (Returned payload, st')"
  using assms never_panics_returns by (cases "sv_exception_handler S") (auto simp: map_exception_def unguarded_ok_def)

lemma run_filters_returns:
  assumes "\<forall>f \<in> set fs. never_panics f"
  shows "\<exists>r st'. run_filters fs ctx st = (Returned r, st')"
  using assms
proof (induction fs arbitrary: ctx st)
  case (Cons f fs)
  obtain r st' where "f ctx st = (Returned r, st')"
    using Cons.prems never_panics_returns by (metis list.set_intros(1))
  then show ?case using Cons by (cases r) auto
qed simp

lemma run_filters_append:
  "run_filters (fs @ gs) ctx =
     ubind (run_filters fs ctx) (\<lambda>r. case r of Inr ctx' \<Rightarrow> run_filters gs ctx' | Inl e \<Rightarrow> ureturn (Inl e))"
proof (induction fs arbitrary: ctx)
  case (Cons f fs)
  then show ?case
    by (auto simp: fun_eq_iff ubind_def split: prod.splits outcome.splits sum.splits)
qed (simp add: fun_eq_iff ubind_def)

subsection \<open>Replies\<close>

text \<open>What counts as the reply to a body: the same id, and an error exactly when not \<open>ok\<close>.\<close>

fun replies_to :: "encryption_kind \<Rightarrow> packet_body \<Rightarrow> packet_envelope option \<Rightarrow> bool" where
  "replies_to enc (ApiRequest i rt ps as m) r \<longleftrightarrow>
     (\<exists>okay status data err. r = Some (with_encryption (ApiResponse i okay status data err (Object [])) enc) \<and>
        (okay \<longleftrightarrow> err = None) \<and> (okay \<longrightarrow> status = 200))"
| "replies_to enc (EventEmit i n d as m x) r \<longleftrightarrow>
     (\<exists>okay receipt err. r = Some (with_encryption (EventAck i okay receipt err) enc) \<and> (okay \<longleftrightarrow> err = None))"
| "replies_to enc _ r \<longleftrightarrow> r = None"

lemma api_error_packet_shape:
  "api_error_packet S cid (Some i) rt e st = (Returned p, st') \<Longrightarrow>
     \<exists>payload. p = with_encryption (ApiResponse i False (ae_status e) (Object []) (Some payload) (Object []))
       (sv_default_encryption S)"
  by (auto simp: api_error_packet_def ubind_Returned)

lemma event_error_ack_shape:
  "event_error_ack S cid ev e st = (Returned p, st') \<Longrightarrow>
     \<exists>payload. p = with_encryption (EventAck (ei_event_id ev) False (Object []) (Some payload)) (sv_default_encryption S)"
  by (auto simp: event_error_ack_def ubind_Returned)

lemma api_error_packet_returns:
  assumes "unguarded_ok S"
  shows "\<exists>p st'. api_error_packet S cid i rt e st = (Returned p, st')"
  using map_exception_returns [OF assms] by (fastforce simp: api_error_packet_def Let_def ubind_Returned)

lemma event_error_ack_returns:
  assumes "unguarded_ok S"
  shows "\<exists>p st'. event_error_ack S cid ev e st = (Returned p, st')"
  using map_exception_returns [OF assms] by (fastforce simp: event_error_ack_def ubind_Returned)

lemma run_api_request_shape:
  assumes "run_api_request S cid peer req st = (Returned p, st')"
  shows "replies_to (sv_default_encryption S)
    (ApiRequest (ar_request_id req) rt ps as m) (Some p)"
proof -
  obtain r st1 where f: "run_filters (sv_filters S) (api_context_of S cid peer req st) st = (Returned r, st1)"
    using assms by (auto simp: run_api_request_def Let_def ubind_Returned)
  show ?thesis
  proof (cases r)
    case (Inr ctx)
    show ?thesis
    proof (cases "map_of (sv_routes S) (ac_route ctx)")
      case (Some h)
      then obtain future st2 where "h ctx st1 = (Returned future, st2)"
        using assms f Inr by (auto simp: run_api_request_def Let_def ubind_Returned)
      moreover obtain o' st3 where "catch_unwind future st2 = (Returned o', st3)"
        using catch_unwind_Returned by blast
      ultimately show ?thesis
        using assms f Inr Some
        by (cases o' rule: option.exhaust [case_product sum.exhaust, of _ "the o'"])
          (auto simp: run_api_request_def Let_def dest!: api_error_packet_shape)
    qed (use assms f Inr in \<open>auto simp: run_api_request_def Let_def dest!: api_error_packet_shape\<close>)
  qed (use assms f in \<open>auto simp: run_api_request_def Let_def dest!: api_error_packet_shape\<close>)
qed

lemma run_event_shape:
  assumes "run_event S cid peer ev st = (Returned p, st')"
  shows "replies_to (sv_default_encryption S) (EventEmit (ei_event_id ev) n d as m x) (Some p)"
proof (cases "map_of (sv_event_handlers S) (ei_name ev)")
  case (Some h)
  then obtain future st1 where "h (event_context_of S cid peer ev st) st = (Returned future, st1)"
    using assms by (auto simp: run_event_def ubind_Returned)
  moreover obtain o' st2 where "catch_unwind future st1 = (Returned o', st2)"
    using catch_unwind_Returned by blast
  ultimately show ?thesis
    using assms Some
    by (cases o' rule: option.exhaust [case_product sum.exhaust, of _ "the o'"])
      (auto simp: run_event_def dest!: event_error_ack_shape)
qed (use assms in \<open>auto simp: run_event_def\<close>)

lemma called_future_returns:
  assumes "never_panics h"
  obtains future st1 o' st2 where "h ctx st = (Returned future, st1)" "catch_unwind future st1 = (Returned o', st2)"
proof -
  obtain future st1 where h: "h ctx st = (Returned future, st1)" using never_panics_returns [OF assms, of ctx st] by (elim exE)
  obtain o' st2 where "catch_unwind future st1 = (Returned o', st2)" using catch_unwind_Returned [of future st1] by (elim exE)
  with h show thesis by (rule that)
qed

lemma run_api_request_returns:
  assumes "unguarded_ok S"
  shows "\<exists>p st'. run_api_request S cid peer req st = (Returned p, st')"
proof -
  obtain r st1 where f: "run_filters (sv_filters S) (api_context_of S cid peer req st) st = (Returned r, st1)"
    using run_filters_returns [of "sv_filters S" "api_context_of S cid peer req st" st] assms by (auto simp: unguarded_ok_def)
  have err: "\<exists>p st'. api_error_packet S cid i rt e st2 = (Returned p, st')" for i rt e st2
    by (rule api_error_packet_returns [OF assms])
  show ?thesis
  proof (cases r)
    case (Inr ctx)
    show ?thesis
    proof (cases "map_of (sv_routes S) (ac_route ctx)")
      case (Some h)
      then have "never_panics h" using assms by (force simp: unguarded_ok_def dest: map_of_SomeD)
      then obtain future st2 o' st3 where "h ctx st1 = (Returned future, st2)" "catch_unwind future st2 = (Returned o', st3)"
        by (rule called_future_returns)
      then show ?thesis
        using f Inr Some err by (auto simp: run_api_request_def Let_def split: option.split sum.split)
    qed (use f Inr err in \<open>simp add: run_api_request_def Let_def\<close>)
  qed (use f err in \<open>simp add: run_api_request_def Let_def\<close>)
qed

lemma run_event_returns:
  assumes "unguarded_ok S"
  shows "\<exists>p st'. run_event S cid peer ev st = (Returned p, st')"
proof (cases "map_of (sv_event_handlers S) (ei_name ev)")
  case (Some h)
  then have "never_panics h" using assms by (force simp: unguarded_ok_def dest: map_of_SomeD)
  then obtain future st1 o' st2 where "h (event_context_of S cid peer ev st) st = (Returned future, st1)"
      "catch_unwind future st1 = (Returned o', st2)"
    by (rule called_future_returns)
  then show ?thesis
    using Some event_error_ack_returns [OF assms] by (auto simp: run_event_def split: option.split sum.split)
qed (simp add: run_event_def)

lemma reply_to_returns:
  assumes "unguarded_ok S"
  shows "\<exists>r st'. reply_to S cid peer body st = (Returned r, st') \<and> replies_to (sv_default_encryption S) body r"
proof (cases body)
  case (ApiRequest i rt ps as m)
  let ?req = "\<lparr>ar_request_id = i, ar_route = rt, ar_params = ps, ar_attachments = as, ar_metadata = m\<rparr>"
  obtain p st' where "run_api_request S cid peer ?req st = (Returned p, st')"
    using run_api_request_returns [OF assms] by blast
  then show ?thesis
    using run_api_request_shape [of S cid peer ?req st p st'] by (auto simp: ApiRequest)
next
  case (EventEmit i n d as m x)
  let ?ev = "\<lparr>ei_event_id = i, ei_name = n, ei_data = d, ei_attachments = as, ei_metadata = m\<rparr>"
  obtain p st' where "run_event S cid peer ?ev st = (Returned p, st')"
    using run_event_returns [OF assms] by blast
  then show ?thesis
    using run_event_shape [of S cid peer ?ev st p st'] by (auto simp: EventEmit)
qed simp_all

text \<open>The message that carries a reply: the packet in ECDH mode, otherwise its frame, if it encodes.\<close>

definition reply_message :: "externals \<Rightarrow> random \<Rightarrow> wscall_server \<Rightarrow> packet_envelope \<Rightarrow> server_outbound option" where
  "reply_message X rnd S p =
     (if sv_is_ecdh S then Some (OutPacket p)
      else case encode X rnd (sv_codec S) p of Inr frame \<Rightarrow> Some (PreEncoded frame) | Inl _ \<Rightarrow> None)"

lemma queue_for_room:
  assumes "map_of (ss_clients st) cid = Some entry" "ss_channels st (ce_sender entry) = Some ch" "has_room ch" "reply_message X rnd S p = Some msg"
  shows "queue_for X rnd S cid p st =
    Some (Inr (), st\<lparr>ss_channels := (ss_channels st)(ce_sender entry \<mapsto> ch\<lparr>ch_queue := ch_queue ch @ [msg]\<rparr>)\<rparr>)"
  using assms
  by (auto simp: queue_for_def queue_target_def queue_send_def reply_message_def has_room_def send_def try_send_def
      split: if_splits sum.splits)

text \<open>
  C10. Every packet the server processes gets the reply it should. As long as filters, the exception handler and the calls of route and event handlers do not
  panic, the processing of a packet computes a reply whatever the handlers' futures do (return, fail or panic): for a request exactly one response with
  the request's id, for an event exactly one acknowledgement with the event's id, each with an error exactly when it is not \<open>ok\<close>, and none for
  acknowledgements, responses and authentication packets of the client. In the state the handlers left, the reply is then appended to the queue of the
  connection, with no other change, when the connection is live, the reply encodes (outside ECDH mode) and the queue has room.
\<close>

theorem every_request_replied:
  assumes "unguarded_ok S"
  shows "\<exists>r st'. reply_to S cid peer (pe_body packet) st = (Returned r, st') \<and>
    replies_to (sv_default_encryption S) (pe_body packet) r \<and>
    (r = None \<longrightarrow> process_packet X rnd S cid peer packet st = Some (Returned (Inr ()), st')) \<and>
    (\<forall>p entry ch msg. r = Some p \<and> map_of (ss_clients st') cid = Some entry \<and> ss_channels st' (ce_sender entry) = Some ch \<and>
       has_room ch \<and> reply_message X rnd S p = Some msg \<longrightarrow>
       process_packet X rnd S cid peer packet st =
         Some (Returned (Inr ()), st'\<lparr>ss_channels := (ss_channels st')(ce_sender entry \<mapsto> ch\<lparr>ch_queue := ch_queue ch @ [msg]\<rparr>)\<rparr>))"
proof -
  obtain r st' where r: "reply_to S cid peer (pe_body packet) st = (Returned r, st')" "replies_to (sv_default_encryption S) (pe_body packet) r"
    using reply_to_returns [OF assms] by blast
  then show ?thesis by (intro exI [of _ r] exI [of _ st']) (auto simp: process_packet_def queue_for_room)
qed

definition panicking_server :: wscall_server where
  "panicking_server = route ''boom'' (\<lambda>ctx. ureturn (\<lambda>st. (Panicked, st))) server_new"

lemma panicking_unguarded: "unguarded_ok panicking_server"
  by (simp add: unguarded_ok_def panicking_server_def route_def server_new_def never_panics_def)

text \<open>A state with the connection \<open>conn-1\<close> and an empty queue for it.\<close>

definition one_client :: server_state where
  "one_client = \<lparr>ss_clients = [(''conn-1'', \<lparr>ce_sender = ''conn-1'', ce_idle_timeout = None, ce_auth_context = None\<rparr>)],
     ss_next_event_id = 0, ss_channels = [''conn-1'' \<mapsto> channel_new 256]\<rparr>"

definition boom_reply :: packet_envelope where
  "boom_reply = with_encryption (ApiResponse 7 False 500 (Object [])
     (Some (into_payload (internal ''handler panicked''))) (Object [])) ChaCha20"

theorem every_request_replied_witness:
  "process_packet sample_externals (Inr []) (server_with_ecdh panicking_server) ''conn-1'' None
     (envelope_new (ApiRequest 7 ''boom'' Null [] Null)) one_client =
   Some (Returned (Inr ()), one_client\<lparr>ss_channels := [''conn-1'' \<mapsto> (channel_new 256)\<lparr>ch_queue := [OutPacket boom_reply]\<rparr>]\<rparr>)"
proof -
  let ?S = "server_with_ecdh panicking_server" and ?p = "envelope_new (ApiRequest 7 ''boom'' Null [] Null)"
  have "unguarded_ok ?S" using panicking_unguarded by (simp add: unguarded_ok_def server_with_ecdh_def)
  note replied = every_request_replied [OF this, of "''conn-1''" None ?p one_client sample_externals "Inr []"]
  have "reply_to ?S ''conn-1'' None (pe_body ?p) one_client = (Returned (Some boom_reply), one_client)"
    by (simp add: envelope_new_def server_with_ecdh_def panicking_server_def route_def server_new_def run_api_request_def ubind_def
        catch_unwind_def api_error_packet_def map_exception_def api_context_of_def boom_reply_def Let_def) (simp add: api_error_defs)
  moreover have "reply_message sample_externals (Inr []) ?S boom_reply = Some (OutPacket boom_reply)"
    by (simp add: reply_message_def server_with_ecdh_def)
  moreover have "has_room (channel_new 256)" by (simp add: has_room_def channel_new_def)
  ultimately show ?thesis using replied by (auto simp: one_client_def channel_new_def)
qed

text \<open>
  C17. Filters run in registration order, each on the context of the one before, and the first refusal ends the
  chain: when the filters before \<open>f\<close> pass and \<open>f\<close> refuses, the answer is the error response for that refusal,
  built in the state \<open>f\<close> left, so neither a later filter nor any route handler has run.
\<close>

theorem filter_refusal_shields:
  assumes "sv_filters S = before @ f # after"
    and "run_filters before (api_context_of S cid peer req st) st = (Returned (Inr ctx), st1)"
    and "f ctx st1 = (Returned (Inl err), st2)"
  shows "run_api_request S cid peer req st =
      api_error_packet S cid (Some (ar_request_id req)) (ar_route req) err st2"
    
proof -
  have "run_filters (sv_filters S) (api_context_of S cid peer req st) st = (Returned (Inl err), st2)"
    using assms(2,3) by (simp add: assms(1) run_filters_append)
  then show ?thesis by (simp add: run_api_request_def Let_def)
qed

definition guarded_server :: wscall_server where
  "guarded_server = add_filter (\<lambda>ctx st. (Returned (Inl (unauthorized ''no token'')), st))
     (add_filter (\<lambda>ctx st. (Returned (Inr (ctx\<lparr>ac_metadata := String ''seen''\<rparr>)), st))
       (route ''secret'' (\<lambda>ctx. ureturn (ureturn (Inr (String ''gold'')))) server_new))"

lemmas guarded_server_defs = guarded_server_def add_filter_def route_def server_new_def

theorem filter_refusal_shields_witness:
  "run_api_request guarded_server ''c'' None
     \<lparr>ar_request_id = 3, ar_route = ''secret'', ar_params = Null, ar_attachments = [], ar_metadata = Null\<rparr> server_state_new
   = (Returned (with_encryption (ApiResponse 3 False 401 (Object [])
       (Some (into_payload (unauthorized ''no token''))) (Object [])) NoEncryption), server_state_new)"
  by (subst filter_refusal_shields [where before = "[\<lambda>ctx st. (Returned (Inr (ctx\<lparr>ac_metadata := String ''seen''\<rparr>)), st)]"
        and f = "\<lambda>ctx st. (Returned (Inl (unauthorized ''no token'')), st)" and after = "[]"])
    (simp_all add: guarded_server_defs api_error_packet_def map_exception_def Let_def,
      simp add: api_error_defs)

definition outcome_response :: "u64 \<Rightarrow> (api_error + jvalue) outcome \<Rightarrow> packet_body" where
  "outcome_response i r =
     (case r of
        Returned (Inr data) \<Rightarrow> ApiResponse i True 200 data None (Object [])
      | Returned (Inl err) \<Rightarrow> ApiResponse i False (ae_status err) (Object []) (Some (into_payload err)) (Object [])
      | Panicked \<Rightarrow> ApiResponse i False 500 (Object [])
          (Some \<lparr>ep_code = ''internal_error'', ep_message = ''handler panicked'', ep_status = 500, ep_details = None\<rparr>) (Object []))"

definition answer_with :: "wscall_server \<Rightarrow> api_request_input \<Rightarrow> (api_error + jvalue) outcome \<Rightarrow> packet_envelope outcome" where
  "answer_with S req r = Returned (with_encryption (outcome_response (ar_request_id req) r) (sv_default_encryption S))"

text \<open>
  C18. What becomes of a request without an exception handler, on every branch: a filter's refusal is answered with the refusal's own status, code, message and
  details; otherwise the route of the filtered context decides: 404 when no handler is registered for it, 500 \<open>internal_error\<close> when the future
  of the handler panics, the handler's own status, code, message and details when it fails, and 200 with the handler's data when it
  succeeds. The state is the one the user code left. There is no answer exactly when a filter or the call of the handler panics.
\<close>

theorem errors_become_answers:
  assumes "sv_exception_handler S = None"
  shows "run_api_request S cid peer req st =
    (case run_filters (sv_filters S) (api_context_of S cid peer req st) st of
       (Panicked, st1) \<Rightarrow> (Panicked, st1)
     | (Returned (Inl refusal), st1) \<Rightarrow> (answer_with S req (Returned (Inl refusal)), st1)
     | (Returned (Inr ctx), st1) \<Rightarrow>
         (case map_of (sv_routes S) (ac_route ctx) of
            None \<Rightarrow> (answer_with S req (Returned (Inl (not_found ''route not found''))), st1)
          | Some h \<Rightarrow>
              (case h ctx st1 of
                 (Panicked, st2) \<Rightarrow> (Panicked, st2)
               | (Returned future, st2) \<Rightarrow> (answer_with S req (fst (future st2)), snd (future st2)))))"
proof -
  have err: "api_error_packet S cid (Some i) rt e st2 = (Returned (with_encryption
      (ApiResponse i False (ae_status e) (Object []) (Some (into_payload e)) (Object [])) (sv_default_encryption S)), st2)"
    for i rt e st2
    using assms(1) by (simp add: api_error_packet_def map_exception_def Let_def)
  have poll: "ubind (catch_unwind future) (\<lambda>r. case r of
        Some (Inr data) \<Rightarrow> ureturn (with_encryption (ApiResponse (ar_request_id req) True 200 data None (Object [])) (sv_default_encryption S))
      | Some (Inl e) \<Rightarrow> api_error_packet S cid (Some (ar_request_id req)) (ar_route req) e
      | None \<Rightarrow> api_error_packet S cid (Some (ar_request_id req)) (ar_route req) (internal ''handler panicked'')) st2 =
      (answer_with S req (fst (future st2)), snd (future st2))" for future st2
    by (cases "future st2"; cases "fst (future st2)")
      (auto simp: answer_with_def err outcome_response_def catch_unwind_def ubind_def into_payload_def api_error_defs split: sum.split)
  show ?thesis
    by (auto simp: run_api_request_def Let_def ubind_def [of "run_filters _ _"] ubind_def [of "_ (_ :: api_context)"] poll err answer_with_def outcome_response_def
        split: prod.splits outcome.splits sum.splits option.splits)
qed

text \<open>A server whose handlers panic in their future, or already in their call.\<close>

definition failing_server :: wscall_server where
  "failing_server = route ''bang'' (\<lambda>ctx st. (Panicked, st)) panicking_server"

theorem errors_become_answers_witness:
  "let req = \<lambda>rt. \<lparr>ar_request_id = 9, ar_route = rt, ar_params = Null, ar_attachments = [], ar_metadata = Null\<rparr>;
       run = \<lambda>rt. run_api_request failing_server ''c'' None (req rt) server_state_new
   in run ''boom'' = (Returned (with_encryption (ApiResponse 9 False 500 (Object [])
         (Some \<lparr>ep_code = ''internal_error'', ep_message = ''handler panicked'', ep_status = 500, ep_details = None\<rparr>)
         (Object [])) NoEncryption), server_state_new) \<and>
      run ''bang'' = (Panicked, server_state_new) \<and>
      run ''none'' = (Returned (with_encryption (ApiResponse 9 False 404 (Object [])
         (Some (into_payload (not_found ''route not found''))) (Object [])) NoEncryption), server_state_new)"
proof -
  have S: "sv_exception_handler failing_server = None" "sv_filters failing_server = []" "sv_default_encryption failing_server = NoEncryption"
      "map_of (sv_routes failing_server) ''boom'' = Some (\<lambda>ctx. ureturn (\<lambda>st. (Panicked, st)))"
      "map_of (sv_routes failing_server) ''bang'' = Some (\<lambda>ctx st. (Panicked, st))" "map_of (sv_routes failing_server) ''none'' = None"
    by (simp_all add: failing_server_def panicking_server_def route_def server_new_def)
  show ?thesis
    unfolding Let_def errors_become_answers [OF S(1)]
    by (simp add: S api_context_of_def answer_with_def outcome_response_def) (simp add: api_error_defs)
qed

text \<open>
  The panic guard covers handlers only: a filter that panics after the filters before it have passed ends the processing of the
  request without any answer, so the client is left waiting.
\<close>

theorem filter_panic_unanswered:
  assumes "sv_filters S = before @ f # after"
    and "run_filters before (api_context_of S cid peer
           \<lparr>ar_request_id = i, ar_route = rt, ar_params = ps, ar_attachments = as, ar_metadata = m\<rparr> st) st
         = (Returned (Inr ctx), st1)"
    and "f ctx st1 = (Panicked, st2)"
  shows "process_packet X rnd S cid peer (with_encryption (ApiRequest i rt ps as m) enc) st = Some (Panicked, st2)"
  using assms(2,3) by (simp add: process_packet_def run_api_request_def assms(1) run_filters_append Let_def)

theorem filter_panic_unanswered_witness:
  "process_packet sample_externals (Inr []) (add_filter (\<lambda>ctx st. (Panicked, st)) panicking_server) ''c'' None
     (with_encryption (ApiRequest 5 ''boom'' Null [] Null) NoEncryption) server_state_new = Some (Panicked, server_state_new)"
  by (rule filter_panic_unanswered [where before = "[]" and f = "\<lambda>ctx st. (Panicked, st)" and after = "[]"])
    (simp_all add: add_filter_def panicking_server_def route_def server_new_def)

text \<open>
  C37. Events: an acknowledgement is \<open>ok\<close> exactly when a handler is registered for the event's name and returned
  a receipt, which the acknowledgement carries; filters play no part. An event nobody handles is answered with 404
  \<open>event handler not found\<close> built without the exception handler, unlike every other error.
\<close>

theorem event_answers:
  "(map_of (sv_event_handlers S) (ei_name ev) = None \<longrightarrow>
      run_event S cid peer ev st = (Returned (with_encryption (EventAck (ei_event_id ev) False (Object [])
        (Some (into_payload (not_found ''event handler not found'')))) (sv_default_encryption S)), st)) \<and>
   (\<forall>p st' i okay receipt err. run_event S cid peer ev st = (Returned p, st') \<and> pe_body p = EventAck i okay receipt err \<longrightarrow>
      (okay \<longleftrightarrow> (\<exists>h st1. map_of (sv_event_handlers S) (ei_name ev) = Some h \<and>
         await (h (event_context_of S cid peer ev st)) st = (Returned (Inr receipt), st1)))) \<and>
   run_event (add_filter f S) cid peer ev st = run_event S cid peer ev st"
proof (intro conjI)
  show "run_event (add_filter f S) cid peer ev st = run_event S cid peer ev st"
    by (auto simp: run_event_def add_filter_def event_context_of_def event_error_ack_def map_exception_def
        handle_def ubind_def split: option.split prod.split outcome.split sum.split)
  show "\<forall>p st' i okay receipt err. run_event S cid peer ev st = (Returned p, st') \<and> pe_body p = EventAck i okay receipt err \<longrightarrow>
      (okay \<longleftrightarrow> (\<exists>h st1. map_of (sv_event_handlers S) (ei_name ev) = Some h \<and>
         await (h (event_context_of S cid peer ev st)) st = (Returned (Inr receipt), st1)))"
  proof (cases "map_of (sv_event_handlers S) (ei_name ev)")
    case (Some h)
    obtain r st1 where h: "h (event_context_of S cid peer ev st) st = (r, st1)" by fastforce
    show ?thesis
    proof (cases r)
      case (Returned future)
      obtain o' st2 where "future st1 = (o', st2)" by fastforce
      then show ?thesis
        using Some h Returned by (cases o') (auto simp: run_event_def await_def catch_unwind_def ubind_def
            dest!: event_error_ack_shape split: sum.splits)
    qed (use Some h in \<open>auto simp: run_event_def ubind_def await_def\<close>)
  qed (simp add: run_event_def)
qed (simp add: run_event_def)

theorem event_answers_witness:
  "run_event server_new ''c'' None \<lparr>ei_event_id = 4, ei_name = ''ping'', ei_data = [], ei_attachments = [], ei_metadata = Null\<rparr>
     server_state_new = (Returned (with_encryption (EventAck 4 False (Object [])
        (Some (into_payload (not_found ''event handler not found'')))) NoEncryption), server_state_new)"
  using event_answers [of server_new "\<lparr>ei_event_id = 4, ei_name = ''ping'', ei_data = [], ei_attachments = [], ei_metadata = Null\<rparr>"
      "''c''" None server_state_new]
  by (simp add: server_new_def)

end
