(* ===== verification/Server_Connection.thy ===== *)
theory Server_Connection
  imports Server_Runtime
begin

section \<open>A connection: handshake, authentication and the reader\<close>

text \<open>
  The phases of \<open>serve_connection\<close> in \<open>server_runtime.rs\<close>, each as one function of what the WebSocket yields
  next: the ban check, the X25519 handshake, the authentication phase, the registration of the client, what the
  reader loop does with one message, and the teardown. \<open>ws_next\<close> is the outcome of
  \<open>timeout(d, websocket.next())\<close>; \<open>net\<close> is the result of a \<open>websocket.send\<close>.
\<close>

datatype ws_message =
    Binary bytes
  | Text string
  | Ping bytes
  | Pong bytes
  | CloseFrame
  | RawFrame

datatype ws_next = TimedOut | StreamEnded | StreamError string | Received ws_message

subsection \<open>Handshake\<close>

definition perform_ecdh_handshake ::
  "externals \<Rightarrow> random \<Rightarrow> ws_next \<Rightarrow> string + unit \<Rightarrow> server_error + (bytes \<times> frame_codec \<times> encryption_kind)" where
  "perform_ecdh_handshake X rnd nxt net =
     rbind (map_err Protocol (ecdh_generate X rnd)) (\<lambda>keypair.
     rbind (case nxt of
              Received (Binary bytes) \<Rightarrow>
                map_err (\<lambda>_. Protocol (EcdhHandshake ''client sent invalid public key length'')) (parse_peer_public bytes)
            | _ \<Rightarrow> Inl (Protocol (EcdhHandshake ''client did not send a valid public key''))) (\<lambda>client_public.
     rbind (map_err WebSocket net) (\<lambda>_.
       let session_key = keypair_derive_session_key X keypair client_public in
       Inr (public_bytes keypair, codec_with_chacha20_key session_key codec_plaintext, ChaCha20))))"

definition session_codec :: "wscall_server \<Rightarrow> frame_codec \<Rightarrow> frame_codec" where
  "session_codec S negotiated =
     codec_with_max_frame_bytes (sv_max_frame_bytes S) (if sv_is_ecdh S then negotiated else sv_codec S)"

subsection \<open>Authentication\<close>

definition as_secs :: "duration \<Rightarrow> u64" where
  "as_secs d = as_u64 (d div 1000000000)"

text \<open>
  The frames handed to the WebSocket, then the session's idle timeout and identity or the error that ends
  the connection.
\<close>

definition auth_phase ::
  "externals \<Rightarrow> random \<Rightarrow> wscall_server \<Rightarrow> frame_codec \<Rightarrow> string \<Rightarrow> socket_addr option \<Rightarrow> ws_next \<Rightarrow> string + unit
     \<Rightarrow> server_state \<Rightarrow> bytes list \<times> (server_error + (duration option \<times> json_map option)) \<times> server_state" where
  "auth_phase X rnd S codec connection_id peer_addr nxt net st =
     (case sv_auth_handler S of
        None \<Rightarrow> ([], Inr (None, None), st)
      | Some auth_handler \<Rightarrow>
          (case nxt of
             Received (Binary auth_frame) \<Rightarrow>
               (case decode X codec auth_frame of
                  Inl e \<Rightarrow> ([], Inl (Protocol e), st)
                | Inr envelope \<Rightarrow>
                    (case pe_body envelope of
                       AuthRequest credential \<Rightarrow>
                         (case auth_handler \<lparr>au_credential = credential, au_peer_addr = peer_addr,
                                 au_connection_id = connection_id\<rparr> st of
                            (Returned (Inr output), st) \<Rightarrow>
                              (let auth_ctx = (if ao_context output \<noteq> [] then Some (ao_context output) else None);
                                   response = with_encryption (AuthResponse True
                                     (map_option as_secs (ao_session_timeout output)) None) (wire_encryption codec)
                               in case encode X rnd codec response of
                                    Inl e \<Rightarrow> ([], Inl (Protocol e), st)
                                  | Inr encoded \<Rightarrow> ([encoded],
                                      rbind (map_err WebSocket net) (\<lambda>_. Inr (ao_session_timeout output, auth_ctx)), st))
                          | (Returned (Inl err), st) \<Rightarrow>
                              (case encode X rnd codec (with_encryption (AuthResponse False None
                                      (Some (into_payload err))) (wire_encryption codec)) of
                                 Inl e \<Rightarrow> ([], Inl (Protocol e), st)
                               | Inr encoded \<Rightarrow> ([encoded], Inl (AuthFailed ''authentication rejected''), st))
                          | (Panicked, st) \<Rightarrow> ([], Inl (AuthFailed ''auth handler panicked''), st))
                     | _ \<Rightarrow> ([], Inl (AuthFailed ''expected AuthRequest frame during handshake''), st)))
           | _ \<Rightarrow> ([], Inl (AuthFailed ''client did not send auth frame within timeout''), st)))"

subsection \<open>Registration and teardown\<close>

definition register_client ::
  "string \<Rightarrow> duration option \<Rightarrow> json_map option \<Rightarrow> server_state \<Rightarrow> server_state" where
  "register_client connection_id idle_timeout auth_ctx st =
     st\<lparr>ss_clients := map_insert connection_id
          \<lparr>ce_sender = connection_id, ce_idle_timeout = idle_timeout, ce_auth_context = auth_ctx\<rparr> (ss_clients st),
        ss_channels := (ss_channels st)(connection_id \<mapsto> channel_new SERVER_OUTBOUND_QUEUE_CAPACITY)\<rparr>"

definition connected_notice ::
  "externals \<Rightarrow> random \<Rightarrow> wscall_server \<Rightarrow> string \<Rightarrow> server_state \<Rightarrow> (server_error + unit) \<times> server_state" where
  "connected_notice X rnd S connection_id st =
     (let (r, st) = send_event_to X rnd (handle S) connection_id ''system.notice''
            [(''connection_id'', String connection_id), (''message'', String ''connected'')] [] st
      in (map_err ApiFailure r, st))"

definition idle_timeout :: "duration option \<Rightarrow> duration" where
  "idle_timeout conn_idle_timeout = (case conn_idle_timeout of Some d \<Rightarrow> d | None \<Rightarrow> SERVER_IDLE_TIMEOUT)"

definition teardown :: "string \<Rightarrow> server_state \<Rightarrow> server_state" where
  "teardown connection_id st =
     snd (try_send_to connection_id OutClose (st\<lparr>ss_clients := map_remove connection_id (ss_clients st)\<rparr>))"

definition abort_writer :: "string \<Rightarrow> server_state \<Rightarrow> server_state" where
  "abort_writer connection_id st =
     st\<lparr>ss_channels := (ss_channels st)(connection_id := map_option close_channel (ss_channels st connection_id))\<rparr>"

definition finish_connection ::
  "(server_error \<Rightarrow> string) \<Rightarrow> wscall_server \<Rightarrow> string \<Rightarrow> socket_addr option \<Rightarrow> server_error + unit \<Rightarrow> server_state \<Rightarrow> server_state" where
  "finish_connection show_error S connection_id peer_addr result st =
     notify_disconnected S connection_id peer_addr (disconnect_reason show_error result)
       (abort_writer connection_id (teardown connection_id st))"

subsection \<open>The reader\<close>

text \<open>The checks of the declared length before any decoding; \<open>Some\<close> is the error packet to queue.\<close>

definition frame_check :: "wscall_server \<Rightarrow> bytes \<Rightarrow> packet_envelope option" where
  "frame_check S bytes =
     (if length bytes < 5
      then Some (frame_error_packet 0 ''frame_too_short'' ''frame must be at least 5 bytes'' (sv_default_encryption S))
      else let declared = unat (be_u32_at bytes 0) in
        if declared > sv_max_frame_bytes S \<or> declared \<noteq> length bytes - 4
        then Some (frame_error_packet 0 ''frame_too_large''
               (''declared frame_len '' @ show_nat declared @ '' is invalid (actual payload ''
                @ show_nat (length bytes - 4) @ '', limit '' @ show_nat (sv_max_frame_bytes S) @ '')'')
               (sv_default_encryption S))
        else if length bytes > sv_max_frame_bytes S
        then Some (frame_error_packet 0 ''frame_too_large''
               (''frame size '' @ show_nat (length bytes) @ '' exceeds limit '' @ show_nat (sv_max_frame_bytes S))
               (sv_default_encryption S))
        else None)"

fun is_data_message :: "packet_body \<Rightarrow> bool" where
  "is_data_message (ApiRequest _ _ _ _ _) = True"
| "is_data_message (EventEmit _ _ _ _ _ _) = True"
| "is_data_message _ = False"

datatype reader_action =
    ReplyNow packet_envelope
  | SpawnHandler packet_envelope
  | ProcessInline packet_envelope
  | QueuePong bytes
  | Ignore
  | EndReader "server_error + unit"

text \<open>The answer to a data message the limiter refuses.\<close>

fun limited_reply :: "wscall_server \<Rightarrow> packet_body \<Rightarrow> reader_action" where
  "limited_reply S (ApiRequest request_id _ _ _ _) = ReplyNow (service_busy_packet request_id (sv_default_encryption S))"
| "limited_reply S (EventEmit event_id _ _ _ _ _) = ReplyNow (silent_ack_packet event_id (sv_default_encryption S))"
| "limited_reply S _ = Ignore"

definition on_binary ::
  "externals \<Rightarrow> wscall_server \<Rightarrow> frame_codec \<Rightarrow> string \<Rightarrow> socket_addr \<Rightarrow> instant \<Rightarrow> bytes \<Rightarrow> limiter_state option
     \<Rightarrow> reader_action \<times> limiter_state option" where
  "on_binary X S codec connection_id peer now bytes limiter =
     (case frame_check S bytes of
        Some error_packet \<Rightarrow> (ReplyNow error_packet, limiter)
      | None \<Rightarrow>
          (case decode X codec bytes of
             Inl e \<Rightarrow> (EndReader (Inl (Protocol e)), limiter)
           | Inr packet \<Rightarrow>
               if is_data_message (pe_body packet) then
                 (case limiter of
                    None \<Rightarrow> (SpawnHandler packet, None)
                  | Some rl \<Rightarrow>
                      (let (verdict, rl) = check_and_record now connection_id (sa_ip peer) (length bytes) rl in
                       (case verdict of
                          Allowed \<Rightarrow> SpawnHandler packet
                        | _ \<Rightarrow> limited_reply S (pe_body packet), Some rl)))
               else (ProcessInline packet, limiter)))"

definition read_next ::
  "externals \<Rightarrow> wscall_server \<Rightarrow> frame_codec \<Rightarrow> string \<Rightarrow> socket_addr \<Rightarrow> instant \<Rightarrow> ws_next \<Rightarrow> limiter_state option
     \<Rightarrow> reader_action \<times> limiter_state option" where
  "read_next X S codec connection_id peer now nxt limiter =
     (case nxt of
        TimedOut \<Rightarrow> (EndReader (Inl (IdleTimeout connection_id)), limiter)
      | StreamEnded \<Rightarrow> (EndReader (Inr ()), limiter)
      | StreamError e \<Rightarrow> (EndReader (Inl (WebSocket e)), limiter)
      | Received (Binary bytes) \<Rightarrow> on_binary X S codec connection_id peer now bytes limiter
      | Received CloseFrame \<Rightarrow> (EndReader (Inr ()), limiter)
      | Received (Ping payload) \<Rightarrow> (QueuePong payload, limiter)
      | Received _ \<Rightarrow> (Ignore, limiter))"

subsection \<open>The whole set-up\<close>

text \<open>
  \<open>serve_connection\<close> up to the reader loop; \<open>Inr None\<close> is the silent refusal of a banned address. When the
  notice cannot be queued the connection is finished before the first read.
\<close>

definition open_connection ::
  "externals \<Rightarrow> (server_error \<Rightarrow> string) \<Rightarrow> random \<Rightarrow> random \<Rightarrow> random \<Rightarrow> wscall_server \<Rightarrow> string \<Rightarrow> socket_addr \<Rightarrow> instant
     \<Rightarrow> ws_next \<Rightarrow> ws_next \<Rightarrow> string + unit \<Rightarrow> limiter_state option \<Rightarrow> server_state
     \<Rightarrow> (server_error + (frame_codec \<times> duration) option) \<times> limiter_state option \<times> server_state" where
  "open_connection X show_error rnd_key rnd_auth rnd_hello S connection_id peer now nxt_key nxt_auth net limiter st =
     (let (banned, limiter) = (case limiter of
             None \<Rightarrow> (False, None)
           | Some rl \<Rightarrow> (let (b, rl) = is_ip_banned now (sa_ip peer) rl in (b, Some rl)))
      in if banned then (Inr None, limiter, st)
      else
        (case (if sv_is_ecdh S
               then rbind (perform_ecdh_handshake X rnd_key nxt_key net) (\<lambda>(_, c, _). Inr c)
               else Inr (sv_codec S)) of
           Inl e \<Rightarrow> (Inl e, limiter, st)
         | Inr negotiated \<Rightarrow>
             (let codec = session_codec S negotiated;
                  (_, r, st) = auth_phase X rnd_auth S codec connection_id (Some peer) nxt_auth net st
              in case r of
                   Inl e \<Rightarrow> (Inl e, limiter, st)
                 | Inr (conn_idle_timeout, auth_ctx) \<Rightarrow>
                     (let st = register_client connection_id conn_idle_timeout auth_ctx st;
                          st = notify_connected S connection_id (Some peer) auth_ctx st;
                          (hello, st) = connected_notice X rnd_hello S connection_id st
                      in case hello of
                           Inl e \<Rightarrow> (Inl e, limiter, finish_connection show_error S connection_id (Some peer) (Inl e) st)
                         | Inr _ \<Rightarrow> (Inr (Some (codec, idle_timeout conn_idle_timeout)), limiter, st)))))"


subsection \<open>The fast checks agree with the codec\<close>

lemma decode_composite_not_header:
  "decode_composite X t e composite \<noteq> Inl (FrameLengthMismatch a b)"
  "decode_composite X t e composite \<noteq> Inl (FrameTooLarge a b)"
proof -
  have ra: "read_attachments n data = Inl err \<Longrightarrow> \<exists>m. err = InvalidAttachmentEncoding m" for n data err
  proof (induction n arbitrary: data)
    case (Suc n)
    then show ?case
      by (auto simp: rbind_eq_Inl read_wire_def read_short_def Let_def split: if_splits)
  qed simp
  show "decode_composite X t e composite \<noteq> Inl (FrameLengthMismatch a b)"
    "decode_composite X t e composite \<noteq> Inl (FrameTooLarge a b)"
    by (auto simp: decode_composite_def Let_def rbind_eq_Inl split: if_splits dest!: ra)
      (metis map_err.elims protocol_error.distinct sum.inject(1) Inl_Inr_False)+
qed


text \<open>
  C15. The reader's fast checks are exactly the length and size checks of the codec it decodes with: they refuse a frame if and only if \<open>decode\<close> refuses it
  as shorter than a header, for its declared length or for its size. What else \<open>decode\<close> may refuse, the type byte and the contents, they leave to it. A frame that
  passes is within the server's limit, and whatever a peer encodes with the connection's codec passes.
\<close>

theorem fast_checks_agree:
  assumes "max_frame_bytes c = sv_max_frame_bytes S"
  shows "(frame_check S bytes \<noteq> None \<longleftrightarrow>
      length bytes < 5 \<and> decode X c bytes = Inl FrameTooShort \<or> (\<exists>a b. decode X c bytes = Inl (FrameLengthMismatch a b)) \<or>
      (\<exists>a b. decode X c bytes = Inl (FrameTooLarge a b))) \<and>
    (frame_check S bytes = None \<longrightarrow> 5 \<le> length bytes \<and> length bytes \<le> sv_max_frame_bytes S) \<and>
    (\<forall>rnd p. random_ok rnd \<and> encode X rnd c p = Inr bytes \<and> max_frame_bytes c \<le> 2 ^ 32 \<longrightarrow> frame_check S bytes = None)"
proof (intro conjI)
  have mt: "message_type_try_from b = Inl e \<Longrightarrow> \<exists>x. e = UnknownMessageType x" for b e
    by (auto simp: message_type_try_from_def split: if_splits)
  have un: "unseal X c payload = Inl e \<Longrightarrow> \<forall>a b. e \<noteq> FrameLengthMismatch a b \<and> e \<noteq> FrameTooLarge a b" for payload e
    by (auto simp: unseal_def decrypt_chacha20_def decrypt_aes256_def rbind_eq_Inl split: if_splits encryption_kind.splits)
      (metis ok_or.elims protocol_error.distinct sum.inject(1) Inl_Inr_False)+
  have passed: "decode X c bytes \<noteq> Inl (FrameLengthMismatch a b) \<and> decode X c bytes \<noteq> Inl (FrameTooLarge a b)"
    if "frame_check S bytes = None" for a b
  proof -
    have "decode X c bytes = rbind (message_type_try_from (bytes ! 4)) (\<lambda>t.
        rbind (unseal X c (drop 5 bytes)) (decode_composite X t (wire_encryption c)))"
      using assms that by (simp add: frame_check_def decode_def Let_def unseal_def split: if_splits)
    then show ?thesis by (auto simp: rbind_eq_Inl decode_composite_not_header dest!: mt un)
  qed
  have refused: "length bytes < 5 \<and> decode X c bytes = Inl FrameTooShort \<or> (\<exists>a b. decode X c bytes = Inl (FrameLengthMismatch a b)) \<or>
      (\<exists>a b. decode X c bytes = Inl (FrameTooLarge a b))" if "frame_check S bytes \<noteq> None"
    using assms that by (auto simp: frame_check_def decode_def Let_def split: if_splits)
  show within: "frame_check S bytes = None \<longrightarrow> 5 \<le> length bytes \<and> length bytes \<le> sv_max_frame_bytes S"
    by (auto simp: frame_check_def Let_def split: if_splits)
  show "frame_check S bytes \<noteq> None \<longleftrightarrow>
      length bytes < 5 \<and> decode X c bytes = Inl FrameTooShort \<or> (\<exists>a b. decode X c bytes = Inl (FrameLengthMismatch a b)) \<or>
      (\<exists>a b. decode X c bytes = Inl (FrameTooLarge a b))"
    using refused passed within by (metis not_le)
  show "\<forall>rnd p. random_ok rnd \<and> encode X rnd c p = Inr bytes \<and> max_frame_bytes c \<le> 2 ^ 32 \<longrightarrow> frame_check S bytes = None"
    using assms by (auto simp: frame_check_def Let_def dest!: encode_header)
qed

theorem fast_checks_agree_witness:
  "(\<exists>a b. decode sample_externals codec_plaintext [0, 0, 0, 9, 0] = Inl (FrameLengthMismatch a b) \<or>
      decode sample_externals codec_plaintext [0, 0, 0, 9, 0] = Inl (FrameTooLarge a b)) \<and>
   frame_check server_new [0, 0, 0, 1, 9] = None \<and> decode sample_externals codec_plaintext [0, 0, 0, 1, 9] = Inl (UnknownMessageType 9)"
proof -
  have c: "max_frame_bytes codec_plaintext = sv_max_frame_bytes server_new" "max_frame_bytes codec_plaintext = 104857600"
    by (simp_all add: codec_plaintext_def server_new_def DEFAULT_MAX_FRAME_BYTES_def)
  have "frame_check server_new [0, 0, 0, 9, 0] \<noteq> None" "frame_check server_new [0, 0, 0, 1, 9] = None"
    using c by (simp_all add: frame_check_def be_u32_at_def from_be_bytes_def Let_def)
  moreover have "decode sample_externals codec_plaintext [0, 0, 0, 1, 9] = Inl (UnknownMessageType 9)"
    using c by (simp add: decode_def be_u32_at_def from_be_bytes_def Let_def message_type_try_from_def)
  ultimately show ?thesis
    using fast_checks_agree [OF c(1), of "[0, 0, 0, 9, 0]" sample_externals] by auto
qed

subsection \<open>The authentication gate\<close>

text \<open>The two responses of the authentication phase.\<close>

definition auth_accepted :: "frame_codec \<Rightarrow> auth_output \<Rightarrow> packet_envelope" where
  "auth_accepted c out = with_encryption
     (AuthResponse True (map_option as_secs (ao_session_timeout out)) None) (wire_encryption c)"

definition auth_rejected :: "frame_codec \<Rightarrow> api_error \<Rightarrow> packet_envelope" where
  "auth_rejected c err = with_encryption
     (AuthResponse False None (Some (into_payload err))) (wire_encryption c)"

lemma auth_accepted_ok: "packet_ok (auth_accepted c out)"
  by (cases "ao_session_timeout out")
    (simp_all add: auth_accepted_def packet_ok_def json_tag_def json_u64_def opt_error_def)

lemma auth_received:
  assumes "link_ok X rnd c" "encode X rnd c p = Inr frame" "packet_ok p" "pe_encryption p = wire_encryption c"
    and "body_received (pe_body p) = b"
  shows "decode X c frame = Inr (with_encryption b (wire_encryption c))"
  using decode_encode [OF assms(1,3,2)] assms(3-5)
  by (auto simp: envelope_received_def with_encryption_def packet_ok_def body_received_def)

text \<open>The runs of \<open>auth_phase\<close> that get as far as the handler.\<close>

lemma auth_phase_cases:
  assumes "sv_auth_handler S = Some h" "auth_phase X rnd S c cid peer nxt net st = (frames, r, st')"
  obtains (closed) e where "frames = []" "r = Inl e"
  | (accepted) bytes envelope credential out frame where "nxt = Received (Binary bytes)" "decode X c bytes = Inr envelope"
      "pe_body envelope = AuthRequest credential"
      "h \<lparr>au_credential = credential, au_peer_addr = peer, au_connection_id = cid\<rparr> st = (Returned (Inr out), st')"
      "encode X rnd c (auth_accepted c out) = Inr frame" "frames = [frame]"
      "r = rbind (map_err WebSocket net)
         (\<lambda>_. Inr (ao_session_timeout out, if ao_context out \<noteq> [] then Some (ao_context out) else None))"
  | (rejected) bytes envelope credential err frame where "nxt = Received (Binary bytes)" "decode X c bytes = Inr envelope"
      "pe_body envelope = AuthRequest credential"
      "h \<lparr>au_credential = credential, au_peer_addr = peer, au_connection_id = cid\<rparr> st = (Returned (Inl err), st')"
      "encode X rnd c (auth_rejected c err) = Inr frame" "frames = [frame]" "r = Inl (AuthFailed ''authentication rejected'')"
proof -
  consider (dead) e where "frames = []" "r = Inl e"
    | (asked) bytes envelope credential where "nxt = Received (Binary bytes)" "decode X c bytes = Inr envelope"
        "pe_body envelope = AuthRequest credential"
    using assms
    by (auto simp: auth_phase_def split: ws_next.splits ws_message.splits sum.splits packet_body.splits)
  then show thesis
  proof cases
    case asked
    obtain o' st1 where h: "h \<lparr>au_credential = credential, au_peer_addr = peer, au_connection_id = cid\<rparr> st = (o', st1)"
      by fastforce
    show thesis
    proof (cases o')
      case (Returned res)
      then show thesis
        using assms asked h closed accepted rejected
        by (cases res)
          (auto simp: auth_phase_def auth_accepted_def auth_rejected_def Let_def split: sum.splits)
    next
      case Panicked
      then show thesis using assms asked h closed by (auto simp: auth_phase_def)
    qed
  qed (rule closed)
qed

text \<open>
  C13. Nobody gets past a configured authentication handler: when \<open>auth_phase\<close> lets a connection through, the client's
  first frame decoded to an \<open>AuthRequest\<close> whose credential the handler accepted, exactly one frame was
  sent, and that frame decodes for the client to a positive \<open>AuthResponse\<close> with the session timeout in seconds.
  Otherwise the connection ends, and at most one frame was sent: the positive one if the connection broke while sending it,
  or one that decodes to a negative response with the handler's error.
\<close>

theorem auth_gate:
  assumes "sv_auth_handler S = Some h" "link_ok X rnd c"
    and "auth_phase X rnd S c cid peer nxt net st = (frames, r, st')"
  shows "case r of
      Inr (timeout, ctx) \<Rightarrow> \<exists>bytes envelope credential out frame.
        nxt = Received (Binary bytes) \<and> decode X c bytes = Inr envelope \<and> pe_body envelope = AuthRequest credential \<and>
        h \<lparr>au_credential = credential, au_peer_addr = peer, au_connection_id = cid\<rparr> st = (Returned (Inr out), st') \<and>
        timeout = ao_session_timeout out \<and> ctx = (if ao_context out \<noteq> [] then Some (ao_context out) else None) \<and>
        frames = [frame] \<and> decode X c frame = Inr (auth_accepted c out)
    | Inl e \<Rightarrow> frames = [] \<or> (\<exists>frame. frames = [frame] \<and> net \<noteq> Inr ()) \<or>
        (\<exists>credential err frame. frames = [frame] \<and>
           h \<lparr>au_credential = credential, au_peer_addr = peer, au_connection_id = cid\<rparr> st = (Returned (Inl err), st') \<and>
           (packet_ok (auth_rejected c err) \<longrightarrow> decode X c frame = Inr (with_encryption
              (AuthResponse False None (Some (error_payload_norm (into_payload err)))) (wire_encryption c))))"
  using assms(1,3)
proof (cases rule: auth_phase_cases)
  case (accepted bytes envelope credential out frame)
  have "decode X c frame = Inr (auth_accepted c out)"
    unfolding auth_accepted_def
    by (rule auth_received [OF assms(2) accepted(5) auth_accepted_ok]) (simp_all add: auth_accepted_def)
  with accepted show ?thesis by (cases net) auto
next
  case (rejected bytes envelope credential err frame)
  have "packet_ok (auth_rejected c err) \<Longrightarrow> decode X c frame = Inr (with_encryption
      (AuthResponse False None (Some (error_payload_norm (into_payload err)))) (wire_encryption c))"
    by (rule auth_received [OF assms(2) rejected(5)]) (simp_all add: auth_rejected_def)
  with rejected show ?thesis by auto
qed simp

definition token_server :: wscall_server where
  "token_server = server_auth_handler (\<lambda>ctx st.
     (Returned (if au_credential ctx = ''secret'' then Inr auth_output_new else Inl (unauthorized ''invalid token'')), st)) server_new"

lemma sample_plain_encodes:
  assumes "length (put_value (body_serialize (pe_body p))) \<le> 1000" "body_attachments (pe_body p) = []"
  shows "\<exists>frame. encode sample_externals rnd codec_plaintext p = Inr frame"
proof -
  have "json_to_vec sample_externals (body_serialize (pe_body p)) = Inr (put_value (body_serialize (pe_body p)))"
    by (simp add: sample_externals_def)
  then show ?thesis
    using assms by (simp add: encode_plaintext codec_plaintext_def Let_def size_ok_def length_composite_of
        DEFAULT_MAX_FRAME_BYTES_def)
qed

lemma sample_plain_link: "link_ok sample_externals (Inr (replicate 12 7)) codec_plaintext"
  by (simp add: link_ok_def sample_json_law sample_cipher_law codec_ok_builders random_ok_def)
    (simp add: codec_plaintext_def DEFAULT_MAX_FRAME_BYTES_def)

theorem auth_gate_witness:
  "\<exists>frame reply.
     auth_phase sample_externals (Inr (replicate 12 7)) token_server codec_plaintext ''c'' None
       (Received (Binary frame)) (Inr ()) server_state_new = ([reply], Inr (None, None), server_state_new) \<and>
     decode sample_externals codec_plaintext reply = Inr (auth_accepted codec_plaintext auth_output_new)"
proof -
  let ?rnd = "Inr (replicate 12 7)" and ?p = "envelope_new (AuthRequest ''secret'')"
  obtain frame where f: "encode sample_externals ?rnd codec_plaintext ?p = Inr frame"
    using sample_plain_encodes [of ?p] by (auto simp: json_tag_def json_u64_def put_string_def as_bytes_def)
  have "packet_ok ?p"
    by (simp add: packet_ok_def json_tag_def json_u64_def utf8_valid_literal)
  then have d: "decode sample_externals codec_plaintext frame = Inr ?p"
    using decode_encode [OF sample_plain_link _ f]
    by (simp add: envelope_received_def envelope_new_def codec_plaintext_def)
  obtain reply where r: "encode sample_externals ?rnd codec_plaintext (auth_accepted codec_plaintext auth_output_new) = Inr reply"
    using sample_plain_encodes [of "auth_accepted codec_plaintext auth_output_new"]
    by (auto simp: auth_accepted_def auth_output_new_def json_tag_def json_u64_def opt_error_def put_string_def as_bytes_def)
  have a: "auth_phase sample_externals ?rnd token_server codec_plaintext ''c'' None (Received (Binary frame)) (Inr ()) server_state_new
      = ([reply], Inr (None, None), server_state_new)"
    using d r by (simp add: auth_phase_def token_server_def server_auth_handler_def auth_accepted_def auth_output_new_def)
  have "sv_auth_handler token_server = Some (the (sv_auth_handler token_server))"
    by (simp add: token_server_def server_auth_handler_def)
  from auth_gate [OF this sample_plain_link a]
  have "decode sample_externals codec_plaintext reply = Inr (auth_accepted codec_plaintext auth_output_new)"
    by (auto simp: token_server_def server_auth_handler_def split: if_splits)
  with a show ?thesis by blast
qed


subsection \<open>Refused messages\<close>

text \<open>
  C34. Rate limiting in the reader: a data message reaches a handler exactly when the limiter allows it. A refused request is
  answered at once with 503 \<open>service_busy\<close> under its own id, a refused event with an empty \<open>ok\<close>
  acknowledgement under its own id, and packets that are not data messages neither count nor are refused.
\<close>

theorem limiter_decides:
  assumes "frame_check S bytes = None" "decode X c bytes = Inr packet"
    and "check_and_record now cid (sa_ip peer) (length bytes) rl = (verdict, rl')"
  shows "on_binary X S c cid peer now bytes (Some rl) =
    (case pe_body packet of
       ApiRequest i _ _ _ _ \<Rightarrow>
         (if verdict = Allowed then SpawnHandler packet
          else ReplyNow (with_encryption (ApiResponse i False 503 (Object []) (Some
            \<lparr>ep_code = ''service_busy'', ep_message = ''rate limit exceeded'', ep_status = 503, ep_details = None\<rparr>)
            (Object [])) (sv_default_encryption S)), Some rl')
     | EventEmit i _ _ _ _ _ \<Rightarrow>
         (if verdict = Allowed then SpawnHandler packet
          else ReplyNow (with_encryption (EventAck i True (Object []) None) (sv_default_encryption S)), Some rl')
     | _ \<Rightarrow> (ProcessInline packet, Some rl))"
  using assms
  by (cases "pe_body packet"; cases verdict)
    (simp_all add: on_binary_def Let_def service_busy_packet_def silent_ack_packet_def)

lemma sample_request_received:
  "\<exists>frame. encode sample_externals (Inr (replicate 12 7)) codec_plaintext (envelope_new (ApiRequest 8 ''echo'' Null [] Null)) = Inr frame \<and>
     decode sample_externals codec_plaintext frame = Inr (envelope_new (ApiRequest 8 ''echo'' Null [] Null)) \<and>
     frame_check server_new frame = None"
proof -
  let ?rnd = "Inr (replicate 12 7)" and ?p = "envelope_new (ApiRequest 8 ''echo'' Null [] Null)"
  obtain frame where f: "encode sample_externals ?rnd codec_plaintext ?p = Inr frame"
    using sample_plain_encodes [of ?p]
    by (auto simp: json_tag_def json_u64_def put_string_def as_bytes_def opt_meta_def)
  have "packet_ok ?p"
    by (simp add: packet_ok_def json_tag_def json_u64_def utf8_valid_literal opt_meta_def)
  then have "decode sample_externals codec_plaintext frame = Inr ?p"
    using decode_encode [OF sample_plain_link _ f]
    by (simp add: envelope_received_def envelope_new_def codec_plaintext_def meta_norm_def)
  moreover have "frame_check server_new frame = None"
    using encode_header [OF _ f]
    by (auto simp: frame_check_def server_new_def codec_plaintext_def random_ok_def DEFAULT_MAX_FRAME_BYTES_def Let_def)
  ultimately show ?thesis using f by blast
qed

theorem limiter_decides_witness:
  "\<exists>frame rl'. on_binary sample_externals server_new codec_plaintext ''c'' \<lparr>sa_ip = IpV4 1, sa_port = 80\<rparr> 0 frame
     (Some (build (limit_connection (with_max_messages 0 (rate_limit_config_new 5)) rate_limiter_new))) =
   (ReplyNow (with_encryption (ApiResponse 8 False 503 (Object []) (Some
      \<lparr>ep_code = ''service_busy'', ep_message = ''rate limit exceeded'', ep_status = 503, ep_details = None\<rparr>)
      (Object [])) NoEncryption), Some rl')"
proof -
  let ?rl = "build (limit_connection (with_max_messages 0 (rate_limit_config_new 5)) rate_limiter_new)"
  obtain frame where f: "decode sample_externals codec_plaintext frame = Inr (envelope_new (ApiRequest 8 ''echo'' Null [] Null))"
      "frame_check server_new frame = None"
    using sample_request_received by blast
  obtain v rl' where v: "check_and_record 0 ''c'' (sa_ip \<lparr>sa_ip = IpV4 1, sa_port = 80\<rparr>) (length frame) ?rl = (v, rl')"
    by fastforce
  have "v = Limited"
    using v verdict_of_check [of 0 "''c''" "IpV4 1" "length frame" ?rl]
    by (simp add: build_def two_limits_defs blocked_def live_ban_def dim_limited_def count_frame_def)
  then show ?thesis
    using limiter_decides [OF f(2,1) v] by (intro exI) (simp add: server_new_def)
qed

subsection \<open>The table of clients over a connection's life\<close>

definition confined :: "('c \<Rightarrow> 'a user) \<Rightarrow> bool" where
  "confined h \<longleftrightarrow> (\<forall>c st. state_ok st \<longrightarrow> only_pushes st (snd (h c st)))"

text \<open>For a handler, the call and every future it returns.\<close>

definition confined_call :: "('c \<Rightarrow> 'a future user) \<Rightarrow> bool" where
  "confined_call h \<longleftrightarrow> confined h \<and> (\<forall>c st future st'. h c st = (Returned future, st') \<longrightarrow> confined (\<lambda>_ :: unit. future))"

definition server_confined :: "wscall_server \<Rightarrow> bool" where
  "server_confined S \<longleftrightarrow>
     (\<forall>h \<in> snd ` set (sv_routes S). confined_call h) \<and> (\<forall>h \<in> set (sv_filters S). confined h) \<and>
     (\<forall>h \<in> snd ` set (sv_event_handlers S). confined_call h) \<and> (\<forall>h \<in> set (sv_connection_handlers S). confined h) \<and>
     (\<forall>h \<in> set (sv_disconnect_handlers S). confined h) \<and> pred_option confined (sv_exception_handler S) \<and>
     pred_option confined (sv_auth_handler S)"

lemma map_ok_mem: "map_ok m \<Longrightarrow> (k, v) \<in> set m \<longleftrightarrow> map_of m k = Some v"
  by (simp add: map_ok_def strict_sorted_iff)

lemma state_ok_map_of:
  "state_ok st \<longleftrightarrow> map_ok (ss_clients st) \<and>
     (\<forall>cid entry. map_of (ss_clients st) cid = Some entry \<longrightarrow> ce_sender entry = cid \<and> ss_channels st cid \<noteq> None) \<and>
     (\<forall>k ch. ss_channels st k = Some ch \<longrightarrow> channel_ok ch)"
  by (auto simp: state_ok_def map_ok_mem)

lemma state_ok_register: "state_ok st \<Longrightarrow> state_ok (register_client cid t a st)"
  by (auto simp: state_ok_map_of register_client_def map_ok_map_insert split: if_splits)

lemma state_ok_teardown: "state_ok st \<Longrightarrow> state_ok (teardown cid st)"
  unfolding teardown_def
  by (rule only_pushes_ok [OF only_pushes_try_send]) (auto simp: state_ok_map_of map_ok_map_remove)

lemma state_ok_abort: "state_ok st \<Longrightarrow> state_ok (abort_writer cid st)"
  by (auto simp: state_ok_map_of abort_writer_def)

lemma notify_all_pushes:
  "\<forall>h \<in> set hs. confined h \<Longrightarrow> state_ok st \<Longrightarrow> only_pushes st (notify_all hs ctx st)"
proof (induction hs arbitrary: st)
  case (Cons h hs)
  have "snd (catch_unwind (h ctx) st) = snd (h ctx st)"
    by (auto simp: catch_unwind_def split: prod.splits outcome.splits)
  moreover have one: "only_pushes st (snd (h ctx st))"
    using Cons.prems by (simp add: confined_def)
  ultimately show ?case
    using Cons.IH [of "snd (h ctx st)"] Cons.prems only_pushes_ok [OF one] only_pushes_trans [OF one]
    by (simp add: notify_all_def)
qed (simp add: notify_all_def)

lemma auth_phase_pushes:
  assumes "server_confined S" "state_ok st" "auth_phase X rnd S c cid peer nxt net st = (frames, r, st')"
  shows "only_pushes st st'"
proof (cases "sv_auth_handler S")
  case None
  then show ?thesis using assms(3) by (auto simp: auth_phase_def)
next
  case (Some h)
  then have "only_pushes st (snd (h a st))" for a
    using assms(1,2) by (simp add: server_confined_def confined_def)
  then have "h a st = (o', st1) \<Longrightarrow> only_pushes st st1" for a o' st1
    by (metis snd_conv)
  then show ?thesis
    using assms(3) Some
    by (auto simp: auth_phase_def Let_def
        split: ws_next.splits ws_message.splits sum.splits packet_body.splits prod.splits outcome.splits)
qed

lemma finish_connection_removes:
  assumes "server_confined S" "state_ok st"
  shows "map_of (ss_clients (finish_connection sh S cid peer r st)) cid = None \<and>
    state_ok (finish_connection sh S cid peer r st) \<and>
    (\<forall>k. k \<noteq> cid \<longrightarrow> map_of (ss_clients (finish_connection sh S cid peer r st)) k = map_of (ss_clients st) k)"
proof -
  let ?st = "abort_writer cid (teardown cid st)"
  have ok: "state_ok ?st" by (simp add: assms(2) state_ok_teardown state_ok_abort)
  have p: "only_pushes ?st (finish_connection sh S cid peer r st)"
    unfolding finish_connection_def notify_disconnected_def
    using assms(1) by (intro notify_all_pushes ok) (simp add: server_confined_def)
  have "ss_clients ?st = map_remove cid (ss_clients st)"
    by (simp add: abort_writer_def teardown_def try_send_to_eq)
  then show ?thesis
    using p only_pushes_ok [OF p ok] by (simp add: only_pushes_def)
qed


lemma notify_connected_pushes:
  "server_confined S \<Longrightarrow> state_ok st \<Longrightarrow> only_pushes st (notify_connected S cid peer a st)"
  unfolding notify_connected_def by (rule notify_all_pushes) (auto simp: server_confined_def)

lemma connected_notice_pushes:
  "state_ok st \<Longrightarrow> only_pushes st (snd (connected_notice X rnd S cid st))"
  using direct.pushes by (simp add: connected_notice_def split_beta Let_def)

lemma send_event_to_queued:
  assumes "send_event_to X rnd H cid name data atts st = (Inr u, st')" "state_ok st"
  shows "\<exists>ch msg. ss_channels st cid = Some ch \<and> ss_channels st' cid = Some (ch\<lparr>ch_queue := ch_queue ch @ [msg]\<rparr>)"
  using assms
  by (auto simp: send_event_to_def Let_def try_send_to_def try_send_def state_ok_map_of
      split: option.splits if_splits sum.splits)

text \<open>How opening a connection may end, with the pushes of user code on the way.\<close>

lemma open_connection_cases:
  assumes "server_confined S" "state_ok st"
    and "open_connection X sh r1 r2 r3 S cid peer now n1 n2 net limiter st = (r, limiter', st')"
  obtains (early) "st' = st" "\<forall>x. r \<noteq> Inr (Some x)"
    | (auth) e where "only_pushes st st'" "r = Inl e"
    | (ok) t a st1 st2 hello st3 where "only_pushes st st1" "state_ok st2" "connected_notice X r3 S cid st2 = (hello, st3)"
        "case hello of Inl e \<Rightarrow> r = Inl e \<and> st' = finish_connection sh S cid (Some peer) (Inl e) st3
           | Inr _ \<Rightarrow> st' = st3 \<and> (\<exists>codec. r = Inr (Some (codec, idle_timeout t)))"
        "only_pushes (register_client cid t a st1) st2" "only_pushes (register_client cid t a st1) st3"
proof -
  consider (early) "st' = st" "\<forall>x. r \<noteq> Inr (Some x)"
    | (auth) frames e c where "auth_phase X r2 S c cid (Some peer) n2 net st = (frames, Inl e, st')" "r = Inl e"
    | (ok) frames t a c st1 st2 hello st3 where
        "auth_phase X r2 S c cid (Some peer) n2 net st = (frames, Inr (t, a), st1)"
        "st2 = notify_connected S cid (Some peer) a (register_client cid t a st1)"
        "connected_notice X r3 S cid st2 = (hello, st3)"
        "case hello of Inl e \<Rightarrow> r = Inl e \<and> st' = finish_connection sh S cid (Some peer) (Inl e) st3
           | Inr _ \<Rightarrow> st' = st3 \<and> (\<exists>codec. r = Inr (Some (codec, idle_timeout t)))"
    using assms(3) unfolding open_connection_def
    by (auto simp: Let_def split: option.splits prod.splits if_splits sum.splits)
  then show thesis
  proof cases
    case ok
    let ?reg = "register_client cid t a st1"
    have p1: "only_pushes st st1" by (rule auth_phase_pushes [OF assms(1,2) ok(1)])
    have ok1: "state_ok ?reg" by (rule state_ok_register [OF only_pushes_ok [OF p1 assms(2)]])
    have p2: "only_pushes ?reg st2"
      unfolding ok(2) by (rule notify_connected_pushes [OF assms(1) ok1])
    have ok2: "state_ok st2" by (rule only_pushes_ok [OF p2 ok1])
    have "only_pushes st2 st3" using connected_notice_pushes [OF ok2, of X r3 S cid] ok(3) by simp
    then show thesis using that(3) [OF p1 ok2 ok(3,4) p2] only_pushes_trans [OF p2] by blast
  qed (use that(1,2) auth_phase_pushes [OF assms(1,2)] in blast)+
qed

text \<open>
  The table of live clients is exact: when user code acts on the server only through its handle, opening a
  connection ends with the client in the table, with the identity its authentication produced and a queue of
  capacity 256, exactly when the reader loop is entered. A banned address, a failed handshake, a failed
  authentication or a failed notice leaves no entry, other clients keep theirs, and the invariant of the
  server state is kept in every case.
\<close>

theorem open_connection_table:
  assumes "server_confined S" "state_ok st" "map_of (ss_clients st) cid = None"
    and "open_connection X sh r1 r2 r3 S cid peer now n1 n2 net limiter st = (r, limiter', st')"
  shows "state_ok st' \<and> (\<forall>k. k \<noteq> cid \<longrightarrow> map_of (ss_clients st') k = map_of (ss_clients st) k) \<and>
    (case r of
       Inr (Some (codec, idle)) \<Rightarrow> \<exists>t a ch. map_of (ss_clients st') cid =
           Some \<lparr>ce_sender = cid, ce_idle_timeout = t, ce_auth_context = a\<rparr> \<and> idle = idle_timeout t \<and>
         ss_channels st' cid = Some ch \<and> ch_capacity ch = 256 \<and> ch_open ch \<and> ch_queue ch \<noteq> []
     | _ \<Rightarrow> map_of (ss_clients st') cid = None)"
proof -
  from assms(1,2,4) show ?thesis
  proof (cases rule: open_connection_cases)
    case early
    then show ?thesis using assms(2,3) by (auto split: sum.split option.split)
  next
    case auth
    then show ?thesis
      using assms(3) only_pushes_ok [OF auth(1) assms(2)] by (simp add: only_pushes_def)
  next
    case (ok t a st1 st2 hello st3)
    have clients: "ss_clients st3 = ss_clients (register_client cid t a st1)" "ss_clients st1 = ss_clients st"
      using ok(1,5,6) by (simp_all add: only_pushes_def)
    note ok2 = ok(2) and p2 = ok(5) and ok3 = only_pushes_ok [OF ok(6) state_ok_register [OF only_pushes_ok [OF ok(1) assms(2)]]]
    show ?thesis
    proof (cases hello)
      case (Inl e)
      then show ?thesis
        using ok(4) finish_connection_removes [OF assms(1) ok3, of sh cid "Some peer" "Inl e"] clients
        by (auto simp: register_client_def)
    next
      case (Inr u)
      obtain ch2 where "ss_channels st2 cid = Some ch2" "queue_grows (channel_new 256) ch2"
        using p2 by (auto simp: only_pushes_def register_client_def SERVER_OUTBOUND_QUEUE_CAPACITY_def option_rel_Some1
            dest!: spec [of _ cid])
      moreover have "\<exists>msg. ss_channels st3 cid = Some (ch2\<lparr>ch_queue := ch_queue ch2 @ [msg]\<rparr>)"
        using send_event_to_queued [OF _ ok2, of X r3 "handle S" cid] ok(3) Inr calculation
        by (fastforce simp: connected_notice_def Let_def split: prod.splits)
      ultimately show ?thesis
        using ok(4) Inr clients ok3
        by (auto simp: register_client_def queue_grows_def channel_new_def)
    qed
  qed
qed

theorem open_connection_table_witness:
  "let S = server_new; st' = snd (snd (open_connection sample_externals (\<lambda>_. []) (Inr []) (Inr []) (Inr []) S ''c''
      \<lparr>sa_ip = IpV4 1, sa_port = 80\<rparr> 0 TimedOut TimedOut (Inr ()) None server_state_new))
   in state_ok st' \<and> (\<forall>k. k \<noteq> ''c'' \<longrightarrow> map_of (ss_clients st') k = None)"
proof -
  have "server_confined server_new" "state_ok server_state_new" "map_of (ss_clients server_state_new) ''c'' = None"
    by (simp_all add: server_confined_def server_new_def state_ok_def server_state_new_def map_ok_def)
  moreover obtain r l st' where o: "open_connection sample_externals (\<lambda>_. []) (Inr []) (Inr []) (Inr []) server_new ''c''
      \<lparr>sa_ip = IpV4 1, sa_port = 80\<rparr> 0 TimedOut TimedOut (Inr ()) None server_state_new = (r, l, st')"
    by (metis surj_pair)
  ultimately show ?thesis
    using open_connection_table [OF _ _ _ o] by (simp add: o server_state_new_def)
qed

text \<open>
  Closing a connection: the entry is gone, so later direct pushes to it answer 404, no other client is
  affected, and its channel is closed, so handlers still running fail to queue instead of waiting for a writer that is gone.
\<close>

theorem finish_connection_exact:
  assumes "server_confined S" "state_ok st" "ss_channels st cid = Some ch"
    and st'_def: "st' = finish_connection sh S cid peer result st"
  shows "state_ok st' \<and> map_of (ss_clients st') cid = None \<and>
    (\<forall>k. k \<noteq> cid \<longrightarrow> map_of (ss_clients st') k = map_of (ss_clients st) k) \<and>
    (\<forall>msg. queue_send cid msg st' = Some (Inl (ApiFailure (internal ''failed to queue outbound packet'')), st')) \<and>
    (\<forall>X rnd name data atts. ae_status (projl (fst (send_event_to X rnd (handle S) cid name data atts st'))) = 404)"
proof -
  let ?st = "abort_writer cid (teardown cid st)"
  have ok: "state_ok ?st" by (simp add: assms(2) state_ok_teardown state_ok_abort)
  have p: "only_pushes ?st st'"
    unfolding st'_def finish_connection_def notify_disconnected_def
    using assms(1) by (intro notify_all_pushes ok) (simp add: server_confined_def)
  obtain ch1 where "ss_channels ?st cid = Some ch1" "\<not> ch_open ch1"
    using assms(3) by (auto simp: abort_writer_def teardown_def try_send_to_eq close_channel_def)
  then obtain ch' where ch': "ss_channels st' cid = Some ch'" "\<not> ch_open ch'"
    using p by (auto simp: only_pushes_def queue_grows_def option_rel_Some1 dest!: spec [of _ cid])
  then have "queue_send cid msg st' = Some (Inl (ApiFailure (internal ''failed to queue outbound packet'')), st')" for msg
    by (simp add: queue_send_def send_def try_send_def)
  moreover have gone: "map_of (ss_clients st') cid = None" "state_ok st'"
      "\<forall>k. k \<noteq> cid \<longrightarrow> map_of (ss_clients st') k = map_of (ss_clients st) k"
    using finish_connection_removes [OF assms(1,2), of sh cid peer result] by (simp_all add: st'_def)
  ultimately show ?thesis
    by (simp add: send_event_to_def Let_def api_error_defs)
qed

theorem finish_connection_exact_witness:
  "map_of (ss_clients (finish_connection (\<lambda>_. []) server_new ''a'' None (Inr ()) two_clients)) ''a'' = None"
proof -
  have "server_confined server_new" by (simp add: server_confined_def server_new_def)
  moreover have "ss_channels two_clients ''a'' = Some (channel_new 256)" by (simp add: two_clients_def)
  ultimately show ?thesis using finish_connection_exact two_clients_ok by blast
qed

end
