(* ===== verification/Client_Runtime.thy ===== *)
theory Client_Runtime
  imports Client_Types Server_Connection "HOL-Library.AList"
begin

section \<open>The client\<close>

text \<open>
  \<open>crates/wscall-client/src/client_runtime.rs\<close>: the client's shared state, calls and events with their tables of
  waiters, dispatch of inbound packets, the connection phases with failover, the bodies of the reader and writer
  tasks, disconnection, and the rounds of the supervisor with their delays. Shared cells
  (\<open>AtomicBool\<close>, \<open>ArcSwapOption\<close>, \<open>DashMap\<close>) are fields of a record. A waiter is the name of a oneshot channel: the table
  holds its sending half under the request id, \<open>cl_results\<close> what was sent to it. A writer is the name of a
  channel in \<open>cl_channels\<close>. Life-cycle handlers are names too, and \<open>cl_handler_calls\<close> records with which event each was invoked (a
  panic of its future is caught and changes nothing else; a panic of the call that makes the future is outside the model). Event handlers return a receipt or panic.
\<close>

definition CLIENT_IDLE_TIMEOUT :: duration where "CLIENT_IDLE_TIMEOUT = from_secs 45"
definition CLIENT_HEARTBEAT_INTERVAL :: duration where "CLIENT_HEARTBEAT_INTERVAL = from_secs 15"
definition CLIENT_OUTBOUND_QUEUE_CAPACITY :: nat where "CLIENT_OUTBOUND_QUEUE_CAPACITY = 256"
definition CLIENT_RECONNECT_BASE_DELAY_SECS :: nat where "CLIENT_RECONNECT_BASE_DELAY_SECS = 3"
definition CLIENT_RECONNECT_MAX_DELAY_SECS :: nat where "CLIENT_RECONNECT_MAX_DELAY_SECS = 30"

definition client_metadata :: jvalue where
  "client_metadata = Object [(''client_name'', String ''rust-demo'')]"

type_synonym waiter = nat
type_synonym pending_map = "(u64 \<times> waiter) list"
type_synonym call_result = "client_error + jvalue"
type_synonym client_handler = "event_message \<Rightarrow> jvalue outcome"

datatype handler_call = ConnectedCall nat connection_event | DisconnectedCall nat disconnect_event

record client =
  cl_urls :: "string list"
  cl_last_url_idx :: nat
  cl_config :: client_config
  cl_writer :: "nat option"
  cl_channels :: "nat \<rightharpoonup> client_outbound channel"
  cl_pending_api :: pending_map
  cl_pending_event :: pending_map
  cl_results :: "waiter \<rightharpoonup> call_result"
  cl_event_handlers :: "(string \<times> client_handler list) list"
  cl_default_timeout :: duration
  cl_is_connected :: bool
  cl_shutdown :: bool
  cl_connection_generation :: u64
  cl_next_request_id :: u64
  cl_next_event_id :: u64
  cl_connected_handlers :: "nat list"
  cl_disconnected_handlers :: "nat list"
  cl_handler_calls :: "handler_call list"

definition client_new :: "string \<Rightarrow> client_config \<Rightarrow> client" where
  "client_new url config = \<lparr>cl_urls = url # cc_failover_urls config, cl_last_url_idx = 0, cl_config = config,
     cl_writer = None, cl_channels = Map.empty, cl_pending_api = [], cl_pending_event = [],
     cl_results = Map.empty, cl_event_handlers = [], cl_default_timeout = from_secs 10, cl_is_connected = False,
     cl_shutdown = False, cl_connection_generation = 0, cl_next_request_id = 0, cl_next_event_id = 0,
     cl_connected_handlers = [], cl_disconnected_handlers = [], cl_handler_calls = []\<rparr>"

definition current_url :: "client \<Rightarrow> string" where
  "current_url cl = cl_urls cl ! cl_last_url_idx cl"

definition on_event :: "string \<Rightarrow> client_handler \<Rightarrow> client \<Rightarrow> client" where
  "on_event name h cl = cl\<lparr>cl_event_handlers := map_insert name
     ((case map_of (cl_event_handlers cl) name of Some hs \<Rightarrow> hs | None \<Rightarrow> []) @ [h]) (cl_event_handlers cl)\<rparr>"

definition client_on_connected :: "nat \<Rightarrow> client \<Rightarrow> client" where
  "client_on_connected h cl =
     (let cl = cl\<lparr>cl_connected_handlers := cl_connected_handlers cl @ [h]\<rparr> in
      if cl_is_connected cl
      then cl\<lparr>cl_handler_calls := cl_handler_calls cl @ [ConnectedCall h \<lparr>cev_url = current_url cl\<rparr>]\<rparr>
      else cl)"

definition client_on_disconnected :: "nat \<Rightarrow> client \<Rightarrow> client" where
  "client_on_disconnected h cl = cl\<lparr>cl_disconnected_handlers := cl_disconnected_handlers cl @ [h]\<rparr>"

definition emit_connected :: "client \<Rightarrow> client" where
  "emit_connected cl =
     (let event = \<lparr>cev_url = current_url cl\<rparr> in
      cl\<lparr>cl_handler_calls := cl_handler_calls cl @ map (\<lambda>h. ConnectedCall h event) (cl_connected_handlers cl)\<rparr>)"

definition emit_disconnected :: "disconnect_event \<Rightarrow> client \<Rightarrow> client" where
  "emit_disconnected event cl =
     cl\<lparr>cl_handler_calls := cl_handler_calls cl @ map (\<lambda>h. DisconnectedCall h event) (cl_disconnected_handlers cl)\<rparr>"

subsection \<open>Reconnect delays\<close>

definition saturating_mul :: "nat \<Rightarrow> nat \<Rightarrow> nat" where
  "saturating_mul a b = min (a * b) (2 ^ 64 - 1)"

definition reconnect_delay :: "u32 \<Rightarrow> duration" where
  "reconnect_delay attempt =
     (let attempt = max (unat attempt) 1;
          exponent = min (attempt - 1) 6;
          seconds = min (saturating_mul CLIENT_RECONNECT_BASE_DELAY_SECS (2 ^ exponent)) CLIENT_RECONNECT_MAX_DELAY_SECS
      in from_secs seconds)"

text \<open>\<open>buf\<close> is what \<open>getrandom\<close> wrote, or \<open>None\<close> when it failed.\<close>

definition reconnect_jitter :: "u32 option \<Rightarrow> duration" where
  "reconnect_jitter buf =
     (let nanos = (case buf of Some w \<Rightarrow> unat w | None \<Rightarrow> 0);
          max_nanos = (CLIENT_RECONNECT_BASE_DELAY_SECS * 1000000000) div 2
      in nanos mod max max_nanos 1)"

definition saturating_add_u32 :: "u32 \<Rightarrow> u32 \<Rightarrow> u32" where
  "saturating_add_u32 a b = (if unat a + unat b < 2 ^ 32 then a + b else - 1)"

subsection \<open>Sending\<close>

text \<open>\<open>writer.load_full()\<close> and then \<open>send\<close>, which waits while the queue is full (\<open>None\<close>).\<close>

definition send_on :: "nat \<Rightarrow> client_outbound \<Rightarrow> client \<Rightarrow> ((client_error + unit) \<times> client) option" where
  "send_on w msg cl =
     (case cl_channels cl w of
        None \<Rightarrow> Some (Inl Disconnected, cl)
      | Some ch \<Rightarrow> (case send msg ch of
          None \<Rightarrow> None
        | Some (Inl _) \<Rightarrow> Some (Inl Disconnected, cl)
        | Some (Inr ch') \<Rightarrow> Some (Inr (), cl\<lparr>cl_channels := (cl_channels cl)(w \<mapsto> ch')\<rparr>)))"

definition send_outbound :: "client_outbound \<Rightarrow> client \<Rightarrow> ((client_error + unit) \<times> client) option" where
  "send_outbound msg cl =
     (case cl_writer cl of None \<Rightarrow> Some (Inl Disconnected, cl) | Some w \<Rightarrow> send_on w msg cl)"

text \<open>
  \<open>call\<close> in the pieces between its await points: the check of the connection, taking an id and registering
  the waiter, and (after the send) the end of the wait. \<open>fetch_add\<close> wraps.
\<close>

definition call_register :: "waiter \<Rightarrow> client \<Rightarrow> u64 \<times> client" where
  "call_register w cl =
     (let request_id = cl_next_request_id cl + 1 in
      (request_id, cl\<lparr>cl_next_request_id := request_id, cl_pending_api := AList.update request_id w (cl_pending_api cl)\<rparr>))"

definition request_packet :: "client \<Rightarrow> u64 \<Rightarrow> string \<Rightarrow> jvalue \<Rightarrow> file_attachment list \<Rightarrow> packet_envelope" where
  "request_packet cl request_id rt params attachments =
     with_encryption (ApiRequest request_id rt params attachments client_metadata)
       (cc_default_encryption (cl_config cl))"

definition event_register :: "waiter \<Rightarrow> client \<Rightarrow> u64 \<times> client" where
  "event_register w cl =
     (let event_id = cl_next_event_id cl + 1 in
      (event_id, cl\<lparr>cl_next_event_id := event_id, cl_pending_event := AList.update event_id w (cl_pending_event cl)\<rparr>))"

definition client_event_packet :: "client \<Rightarrow> u64 \<Rightarrow> string \<Rightarrow> json_map \<Rightarrow> file_attachment list \<Rightarrow> packet_envelope" where
  "client_event_packet cl event_id name data attachments =
     with_encryption (EventEmit event_id name data attachments client_metadata True)
       (cc_default_encryption (cl_config cl))"

definition call_withdraw :: "u64 \<Rightarrow> client \<Rightarrow> client" where
  "call_withdraw request_id cl = cl\<lparr>cl_pending_api := AList.delete request_id (cl_pending_api cl)\<rparr>"

definition event_withdraw :: "u64 \<Rightarrow> client \<Rightarrow> client" where
  "event_withdraw event_id cl = cl\<lparr>cl_pending_event := AList.delete event_id (cl_pending_event cl)\<rparr>"

text \<open>
  The start of \<open>call\<close>: \<open>Inl\<close> when it returns at once, \<open>Inr\<close> the id under which it waits. \<open>None\<close> means that it is
  waiting for space in the queue.
\<close>

definition call_begin ::
  "waiter \<Rightarrow> string \<Rightarrow> jvalue \<Rightarrow> file_attachment list \<Rightarrow> client \<Rightarrow> ((client_error + u64) \<times> client) option" where
  "call_begin w rt params attachments cl =
     (if \<not> cl_is_connected cl then Some (Inl Disconnected, cl)
      else
        let (request_id, cl) = call_register w cl in
        (case send_outbound (ClientPacket (request_packet cl request_id rt params attachments)) cl of
           None \<Rightarrow> None
         | Some (Inl _, cl) \<Rightarrow> Some (Inl Disconnected, call_withdraw request_id cl)
         | Some (Inr _, cl) \<Rightarrow> Some (Inr request_id, cl)))"

definition send_event_begin ::
  "waiter \<Rightarrow> string \<Rightarrow> json_map \<Rightarrow> file_attachment list \<Rightarrow> client \<Rightarrow> ((client_error + u64) \<times> client) option" where
  "send_event_begin w name data attachments cl =
     (if \<not> cl_is_connected cl then Some (Inl Disconnected, cl)
      else
        let (event_id, cl) = event_register w cl in
        (case send_outbound (ClientPacket (client_event_packet cl event_id name data attachments)) cl of
           None \<Rightarrow> None
         | Some (Inl _, cl) \<Rightarrow> Some (Inl Disconnected, event_withdraw event_id cl)
         | Some (Inr _, cl) \<Rightarrow> Some (Inr event_id, cl)))"

text \<open>
  The end of the wait: the result when one was sent; \<open>Disconnected\<close> when the sender was dropped without a
  result; otherwise the time is up and the entry is removed.
\<close>

definition call_end :: "u64 \<Rightarrow> waiter \<Rightarrow> client \<Rightarrow> call_result \<times> client" where
  "call_end request_id w cl =
     (case cl_results cl w of
        Some r \<Rightarrow> (r, cl)
      | None \<Rightarrow>
          if w \<notin> snd ` set (cl_pending_api cl) then (Inl Disconnected, cl)
          else (Inl Timeout, call_withdraw request_id cl))"

definition send_event_end :: "u64 \<Rightarrow> waiter \<Rightarrow> client \<Rightarrow> call_result \<times> client" where
  "send_event_end event_id w cl =
     (case cl_results cl w of
        Some r \<Rightarrow> (r, cl)
      | None \<Rightarrow>
          if w \<notin> snd ` set (cl_pending_event cl) then (Inl Disconnected, cl)
          else (Inl Timeout, event_withdraw event_id cl))"

subsection \<open>Inbound packets\<close>

definition missing_error :: error_payload where
  "missing_error = \<lparr>ep_code = ''remote_error'', ep_message = ''missing remote error'', ep_status = 500, ep_details = None\<rparr>"

definition remote_result :: "bool \<Rightarrow> jvalue \<Rightarrow> error_payload option \<Rightarrow> call_result" where
  "remote_result okay data err =
     (if okay then Inr data else Inl (Remote (case err of Some e \<Rightarrow> e | None \<Rightarrow> missing_error)))"

text \<open>\<open>if let Some((_, tx)) = pending.remove(&id) { let _ = tx.send(result); }\<close> on either table.\<close>

type_synonym waiters = "pending_map \<times> (waiter \<rightharpoonup> call_result)"

definition resolve :: "u64 \<Rightarrow> call_result \<Rightarrow> waiters \<Rightarrow> waiters" where
  "resolve i result t =
     (case map_of (fst t) i of
        None \<Rightarrow> t
      | Some w \<Rightarrow> (AList.delete i (fst t), (snd t)(w \<mapsto> result)))"

definition resolve_api :: "u64 \<Rightarrow> call_result \<Rightarrow> client \<Rightarrow> client" where
  "resolve_api i result cl =
     (let (p, rs) = resolve i result (cl_pending_api cl, cl_results cl) in cl\<lparr>cl_pending_api := p, cl_results := rs\<rparr>)"

definition resolve_event :: "u64 \<Rightarrow> call_result \<Rightarrow> client \<Rightarrow> client" where
  "resolve_event i result cl =
     (let (p, rs) = resolve i result (cl_pending_event cl, cl_results cl) in cl\<lparr>cl_pending_event := p, cl_results := rs\<rparr>)"

text \<open>\<open>join_all\<close> over the handlers of an event; a panic of one ends the task.\<close>

definition run_event_handlers :: "client \<Rightarrow> event_message \<Rightarrow> jvalue outcome" where
  "run_event_handlers cl event =
     (let handlers = (case map_of (cl_event_handlers cl) (em_name event) of Some hs \<Rightarrow> hs | None \<Rightarrow> []) in
      if handlers = [] then Returned (Object [(''handled'', Bool False)])
      else
        let results = map (\<lambda>h. h event) handlers in
        if Panicked \<in> set results then Panicked else last results)"

definition ack_packet :: "client \<Rightarrow> u64 \<Rightarrow> jvalue \<Rightarrow> packet_envelope" where
  "ack_packet cl event_id receipt =
     with_encryption (EventAck event_id True receipt None) (cc_default_encryption (cl_config cl))"

definition handle_packet :: "packet_envelope \<Rightarrow> client \<Rightarrow> client option" where
  "handle_packet packet cl =
     (case pe_body packet of
        ApiResponse request_id okay status data err meta \<Rightarrow> Some (resolve_api request_id (remote_result okay data err) cl)
      | EventAck event_id okay receipt err \<Rightarrow> Some (resolve_event event_id (remote_result okay receipt err) cl)
      | EventEmit event_id name data attachments meta expect_ack \<Rightarrow>
          (case run_event_handlers cl \<lparr>em_event_id = event_id, em_name = name, em_data = data,
                  em_attachments = attachments, em_metadata = meta\<rparr> of
             Panicked \<Rightarrow> Some cl
           | Returned receipt \<Rightarrow>
               if expect_ack then map_option snd (send_outbound (ClientPacket (ack_packet cl event_id receipt)) cl)
               else Some cl)
      | _ \<Rightarrow> Some cl)"

subsection \<open>Connecting\<close>

text \<open>
  \<open>reach url\<close> is the result of \<open>connect_async\<close>. The loop over the candidate URLs, from the last good one on;
  the result is the index that answered, or the last error.
\<close>

fun try_urls :: "(string \<Rightarrow> string + unit) \<Rightarrow> string list \<Rightarrow> nat list \<Rightarrow> client_error option \<Rightarrow> client_error + nat" where
  "try_urls reach urls [] last_error =
     Inl (case last_error of Some e \<Rightarrow> e | None \<Rightarrow> ConnectionClosed ''all server URLs unreachable'')"
| "try_urls reach urls (i # is) last_error =
     (case reach (urls ! i) of
        Inr _ \<Rightarrow> Inr i
      | Inl e \<Rightarrow> try_urls reach urls is (Some (ClientWebSocket e)))"

definition connect_any :: "(string \<Rightarrow> string + unit) \<Rightarrow> client \<Rightarrow> (client_error + nat) \<times> client" where
  "connect_any reach cl =
     (let start = cl_last_url_idx cl; count = length (cl_urls cl);
          r = try_urls reach (cl_urls cl) (map (\<lambda>offset. (start + offset) mod count) [0..<count]) None
      in (r, case r of Inr i \<Rightarrow> cl\<lparr>cl_last_url_idx := i\<rparr> | Inl _ \<Rightarrow> cl))"

text \<open>The key exchange: the key sent, then the codec of the session.\<close>

definition client_ecdh ::
  "externals \<Rightarrow> random \<Rightarrow> string + unit \<Rightarrow> ws_next \<Rightarrow> client_error + (bytes \<times> frame_codec)" where
  "client_ecdh X rnd net nxt =
     rbind (map_err ClientProtocol (ecdh_generate X rnd)) (\<lambda>keypair.
     rbind (map_err ConnectionClosed net) (\<lambda>_.
     rbind (case nxt of
              Received (Binary bytes) \<Rightarrow> map_err ClientProtocol (parse_peer_public bytes)
            | _ \<Rightarrow> Inl (ConnectionClosed ''ECDH handshake failed: no valid server public key'')) (\<lambda>server_public.
       Inr (public_bytes keypair,
            codec_with_chacha20_key (keypair_derive_session_key X keypair server_public) codec_plaintext))))"

text \<open>The frame a credential is sent in, and the verdict on the server's answer.\<close>

definition auth_request_frame :: "externals \<Rightarrow> random \<Rightarrow> frame_codec \<Rightarrow> string \<Rightarrow> client_error + bytes" where
  "auth_request_frame X rnd c credential =
     map_err ClientProtocol (encode X rnd c (envelope_new (AuthRequest credential)))"

definition auth_verdict :: "externals \<Rightarrow> frame_codec \<Rightarrow> ws_next \<Rightarrow> client_error + unit" where
  "auth_verdict X c nxt =
     rbind (case nxt of
              Received (Binary bytes) \<Rightarrow> Inr bytes
            | _ \<Rightarrow> Inl (ConnectionClosed ''auth handshake failed: no valid server response'')) (\<lambda>response_frame.
     rbind (map_err ClientProtocol (decode X c response_frame)) (\<lambda>envelope.
       case pe_body envelope of
         AuthResponse okay st err \<Rightarrow>
           if okay then Inr ()
           else (case err of
                   Some e \<Rightarrow> Inl (ClientAuthFailed e)
                 | None \<Rightarrow> Inl (ConnectionClosed ''authentication rejected by server''))
       | _ \<Rightarrow> Inl (ConnectionClosed ''auth handshake failed: unexpected response frame'')))"

definition client_auth ::
  "externals \<Rightarrow> random \<Rightarrow> frame_codec \<Rightarrow> string option \<Rightarrow> string + unit \<Rightarrow> ws_next \<Rightarrow> client_error + unit" where
  "client_auth X rnd c credential net nxt =
     (case credential of
        None \<Rightarrow> Inr ()
      | Some credential \<Rightarrow>
          rbind (auth_request_frame X rnd c credential) (\<lambda>encoded.
          rbind (map_err ConnectionClosed net) (\<lambda>_. auth_verdict X c nxt)))"

text \<open>The session is installed: a fresh channel becomes the writer, then the connected event is emitted.\<close>

definition install_session :: "nat \<Rightarrow> client \<Rightarrow> client" where
  "install_session w cl =
     emit_connected (cl\<lparr>cl_channels := (cl_channels cl)(w \<mapsto> channel_new CLIENT_OUTBOUND_QUEUE_CAPACITY),
       cl_writer := Some w, cl_is_connected := True\<rparr>)"

text \<open>\<open>establish_connection\<close> up to the spawning of its tasks; \<open>w\<close> is the fresh channel.\<close>

definition establish_connection ::
  "externals \<Rightarrow> random \<Rightarrow> random \<Rightarrow> (string \<Rightarrow> string + unit) \<Rightarrow> string + unit \<Rightarrow> ws_next \<Rightarrow> string + unit \<Rightarrow> ws_next \<Rightarrow> nat
     \<Rightarrow> client \<Rightarrow> (client_error + frame_codec) \<times> client" where
  "establish_connection X rnd_key rnd_auth reach net_key nxt_key net_auth nxt_auth w cl =
     (let (r, cl) = connect_any reach cl in
      case rbind r (\<lambda>_.
             rbind (if cc_use_ecdh (cl_config cl)
                    then rbind (client_ecdh X rnd_key net_key nxt_key) (\<lambda>(_, c). Inr c)
                    else Inr (cc_codec (cl_config cl))) (\<lambda>codec.
             rbind (client_auth X rnd_auth codec (cc_credential (cl_config cl)) net_auth nxt_auth) (\<lambda>_. Inr codec))) of
        Inl e \<Rightarrow> (Inl e, cl)
      | Inr codec \<Rightarrow> (Inr codec, install_session w cl))"

subsection \<open>Disconnecting\<close>

definition is_connection_generation_active :: "u64 \<Rightarrow> client \<Rightarrow> bool" where
  "is_connection_generation_active generation cl \<longleftrightarrow> cl_connection_generation cl = generation"

definition client_disconnect_reason :: "(client_error \<Rightarrow> string) \<Rightarrow> client_error \<Rightarrow> string" where
  "client_disconnect_reason show_error err =
     (case err of
        ConnectionClosed reason \<Rightarrow> reason
      | ClientIdleTimeout \<Rightarrow> ''idle timeout''
      | Disconnected \<Rightarrow> ''disconnected''
      | other \<Rightarrow> show_error other)"

text \<open>Draining a table: its keys are collected, then each entry is removed and its waiter told.\<close>

definition drain :: "call_result \<Rightarrow> waiters \<Rightarrow> waiters" where
  "drain result t = fold (\<lambda>key. resolve key result) (map fst (fst t)) t"

definition handle_disconnect :: "(client_error \<Rightarrow> string) \<Rightarrow> u64 \<Rightarrow> client_error \<Rightarrow> client \<Rightarrow> client" where
  "handle_disconnect show_error generation err cl =
     (if \<not> is_connection_generation_active generation cl then cl
      else if \<not> cl_is_connected cl then cl
      else
        let reason = client_disconnect_reason show_error err;
            cl = cl\<lparr>cl_is_connected := False, cl_writer := None\<rparr>;
            (api, results) = drain (Inl (ConnectionClosed reason)) (cl_pending_api cl, cl_results cl);
            (event, results) = drain (Inl (ConnectionClosed reason)) (cl_pending_event cl, results);
            cl = cl\<lparr>cl_pending_api := api, cl_pending_event := event, cl_results := results\<rparr>;
            retry = (\<not> cl_shutdown cl \<and> cc_auto_reconnect (cl_config cl))
        in emit_disconnected \<lparr>dev_url = current_url cl, dev_reason = reason, dev_will_reconnect = retry,
             dev_retry_after = (if retry then Some (reconnect_delay 1) else None)\<rparr> cl)"

subsection \<open>The tasks of a session\<close>

text \<open>
  One message of the queue in the writer: the frames shipped and, when the loop breaks, its error. A packet
  that does not encode is skipped.
\<close>

definition client_write :: "externals \<Rightarrow> random \<Rightarrow> frame_codec \<Rightarrow> string + unit \<Rightarrow> client_outbound \<Rightarrow> ws_message list \<times> client_error option" where
  "client_write X rnd codec net outbound =
     (let ship = (\<lambda>msg. case net of Inl e \<Rightarrow> ([], Some (ConnectionClosed e)) | Inr _ \<Rightarrow> ([msg], None)) in
      case outbound of
        ClientPacket packet \<Rightarrow> (case encode X rnd codec packet of Inl _ \<Rightarrow> ([], None) | Inr encoded \<Rightarrow> ship (Binary encoded))
      | ClientPing payload \<Rightarrow> ship (Ping payload)
      | ClientPong payload \<Rightarrow> ship (Pong payload)
      | ClientClose \<Rightarrow> (fst (ship CloseFrame), Some (ConnectionClosed ''client closed'')))"

text \<open>One round of the reader: inline dispatch, dispatch on a task of its own, a pong to queue, or the end.\<close>

datatype client_action =
    Dispatch packet_envelope
  | SpawnDispatch packet_envelope
  | QueueClientPong bytes
  | Skip
  | EndClientReader client_error

definition client_read :: "externals \<Rightarrow> frame_codec \<Rightarrow> ws_next \<Rightarrow> client_action" where
  "client_read X codec nxt =
     (case nxt of
        TimedOut \<Rightarrow> EndClientReader ClientIdleTimeout
      | StreamEnded \<Rightarrow> EndClientReader (ConnectionClosed ''reader loop stopped'')
      | StreamError e \<Rightarrow> EndClientReader (ConnectionClosed e)
      | Received (Binary bytes) \<Rightarrow>
          (case decode X codec bytes of
             Inl _ \<Rightarrow> Skip
           | Inr packet \<Rightarrow> (case pe_body packet of
                EventEmit _ _ _ _ _ _ \<Rightarrow> SpawnDispatch packet
              | _ \<Rightarrow> Dispatch packet))
      | Received CloseFrame \<Rightarrow> EndClientReader (ConnectionClosed ''server closed connection'')
      | Received (Ping payload) \<Rightarrow> QueueClientPong payload
      | Received _ \<Rightarrow> Skip)"

subsection \<open>The supervisor\<close>

text \<open>
  The loop of \<open>run_connection_supervisor\<close>: \<open>begin_round\<close> is its start up to the call of \<open>establish_connection\<close> (\<open>None\<close> when it returns), \<open>end_round\<close> what
  follows the connection's end or its failure: the message to the caller of \<open>connect\<close>, if it still waits, and the
  supervisor with the time it sleeps before the next round, or \<open>None\<close> when it returns.
\<close>

record supervisor =
  su_ready :: bool
  su_attempt :: u32

definition supervisor_new :: supervisor where
  "supervisor_new = \<lparr>su_ready = True, su_attempt = 0\<rparr>"

definition begin_round :: "client \<Rightarrow> (u64 \<times> client) option" where
  "begin_round cl =
     (if cl_shutdown cl then None
      else let generation = cl_connection_generation cl + 1 in
        Some (generation, cl\<lparr>cl_connection_generation := generation\<rparr>))"

definition end_round ::
  "u32 option \<Rightarrow> client_error + unit \<Rightarrow> client \<Rightarrow> supervisor \<Rightarrow> (client_error + unit) option \<times> (supervisor \<times> duration) option" where
  "end_round buf established cl su =
     (let ready = (if su_ready su then Some established else None);
          attempt = (case established of Inr _ \<Rightarrow> 0 | Inl _ \<Rightarrow> su_attempt su) in
      if su_ready su \<and> established \<noteq> Inr () then (ready, None)
      else if cl_shutdown cl then (ready, None)
      else if \<not> cc_auto_reconnect (cl_config cl) then (ready, None)
      else
        let attempt = saturating_add_u32 attempt 1 in
        (ready, Some (\<lparr>su_ready = False, su_attempt = attempt\<rparr>, reconnect_delay attempt + reconnect_jitter buf)))"

subsection \<open>The tables of waiters\<close>

interpretation pending_store: keyed_store "[]" AList.update AList.delete map_of "\<lambda>m. distinct (map fst m)"
  by unfold_locales (simp_all add: update_conv' delete_conv' distinct_update distinct_delete)

fun waiting :: "client \<Rightarrow> msg_key \<Rightarrow> waiter option" where
  "waiting cl (RequestKey i) = map_of (cl_pending_api cl) i"
| "waiting cl (EventKey i) = map_of (cl_pending_event cl) i"

text \<open>Keys are unique, no waiter is registered twice, and a registered waiter has no result yet.\<close>

definition waits_ok :: "pending_map \<Rightarrow> pending_map \<Rightarrow> (waiter \<rightharpoonup> call_result) \<Rightarrow> bool" where
  "waits_ok p q results \<longleftrightarrow> distinct (map fst p) \<and> distinct (map fst q) \<and> distinct (map snd p @ map snd q) \<and>
     (\<forall>w \<in> snd ` set p \<union> snd ` set q. results w = None)"

definition tables_ok :: "client \<Rightarrow> bool" where
  "tables_ok cl \<longleftrightarrow> waits_ok (cl_pending_api cl) (cl_pending_event cl) (cl_results cl) \<and>
     (\<forall>i \<in> fst ` set (cl_pending_api cl). i \<le> cl_next_request_id cl) \<and>
     (\<forall>i \<in> fst ` set (cl_pending_event cl). i \<le> cl_next_event_id cl)"

definition session_ok :: "client \<Rightarrow> bool" where
  "session_ok cl \<longleftrightarrow> cl_last_url_idx cl < length (cl_urls cl) \<and> (cl_is_connected cl \<longleftrightarrow> cl_writer cl \<noteq> None) \<and>
     (\<forall>w. cl_writer cl = Some w \<longrightarrow> cl_channels cl w \<noteq> None) \<and>
     (\<forall>w ch. cl_channels cl w = Some ch \<longrightarrow> channel_ok ch \<and> ch_capacity ch = CLIENT_OUTBOUND_QUEUE_CAPACITY)"

definition client_ok :: "client \<Rightarrow> bool" where
  "client_ok cl \<longleftrightarrow> tables_ok cl \<and> session_ok cl"

text \<open>The contract of a table of waiters, for the two the client keeps.\<close>

locale waiter_table =
  fixes table other :: "client \<Rightarrow> pending_map"
    and resolve_in :: "u64 \<Rightarrow> call_result \<Rightarrow> client \<Rightarrow> client"
    and withdraw :: "u64 \<Rightarrow> client \<Rightarrow> client"
  assumes resolve_known: "map_of (table cl) i = Some w \<Longrightarrow>
      table (resolve_in i r cl) = AList.delete i (table cl) \<and> cl_results (resolve_in i r cl) = (cl_results cl)(w \<mapsto> r)"
    and resolve_unknown: "map_of (table cl) i = None \<Longrightarrow> resolve_in i r cl = cl"
    and resolve_other: "other (resolve_in i r cl) = other cl"
    and withdraw_table: "table (withdraw i cl) = AList.delete i (table cl)"
begin

lemma lookup_after: "map_of (table (resolve_in i r cl)) = (map_of (table cl))(i := None)"
  using resolve_known [of cl i] resolve_unknown [of cl i]
  by (cases "map_of (table cl) i") (auto simp: delete_conv' fun_eq_iff)

lemma resolve_once: "resolve_in i r' (resolve_in i r cl) = resolve_in i r cl"
  by (rule resolve_unknown) (simp add: lookup_after)

lemma results_after:
  "cl_results (resolve_in i r cl) = (case map_of (table cl) i of None \<Rightarrow> cl_results cl | Some w \<Rightarrow> (cl_results cl)(w \<mapsto> r))"
  using resolve_known [of cl i] resolve_unknown [of cl i] by (auto split: option.splits)

lemma resolve_after_withdraw: "resolve_in i r (withdraw i cl) = withdraw i cl"
  by (rule resolve_unknown) (simp add: withdraw_table delete_conv')

lemma table_subset: "set (table (resolve_in i r cl)) \<subseteq> set (table cl)"
  using resolve_known [of cl i] resolve_unknown [of cl i]
  by (cases "map_of (table cl) i") (auto simp: AList.delete_eq)

end

interpretation api_waiters: waiter_table cl_pending_api cl_pending_event resolve_api call_withdraw
  by unfold_locales (auto simp: resolve_api_def resolve_def call_withdraw_def split: option.splits)

interpretation event_waiters: waiter_table cl_pending_event cl_pending_api resolve_event event_withdraw
  by unfold_locales (auto simp: resolve_event_def resolve_def event_withdraw_def split: option.splits)

subsection \<open>Answers reach their callers\<close>

fun answer_of :: "packet_body \<Rightarrow> (msg_key \<times> call_result) option" where
  "answer_of (ApiResponse i okay _ data err _) = Some (RequestKey i, remote_result okay data err)"
| "answer_of (EventAck i okay receipt err) = Some (EventKey i, remote_result okay receipt err)"
| "answer_of _ = None"

lemma map_of_snd: "map_of al i = Some w \<Longrightarrow> w \<in> snd ` set al"
  by (metis image_eqI map_of_SomeD snd_conv)

lemma deleted_waiter:
  assumes "distinct (map snd al)" "map_of al i = Some w"
  shows "w \<notin> snd ` set (AList.delete i al)"
proof
  assume "w \<in> snd ` set (AList.delete i al)"
  then obtain j where "(j, w) \<in> set al" "j \<noteq> i" by (auto simp: AList.delete_eq)
  moreover have "(i, w) \<in> set al" using assms(2) by (rule map_of_SomeD)
  ultimately show False
    using assms(1) inj_onD [of snd "set al" "(j, w)" "(i, w)"] by (simp add: distinct_map)
qed

lemma distinct_snd_delete: "distinct (map snd al) \<Longrightarrow> distinct (map snd (AList.delete i al))"
  unfolding AList.delete_eq by (rule distinct_map_filter)

lemma set_delete_subset: "set (AList.delete i al) \<subseteq> set al"
  by (auto simp: AList.delete_eq)

lemma session_ok_resolve [simp]:
  "session_ok (resolve_api i r cl) = session_ok cl" "session_ok (resolve_event i r cl) = session_ok cl"
  by (simp_all add: session_ok_def resolve_api_def resolve_event_def current_url_def split_beta)

lemma counters_resolve [simp]:
  "cl_next_request_id (resolve_api i r cl) = cl_next_request_id cl" "cl_next_event_id (resolve_api i r cl) = cl_next_event_id cl"
  "cl_next_request_id (resolve_event i r cl) = cl_next_request_id cl" "cl_next_event_id (resolve_event i r cl) = cl_next_event_id cl"
  by (simp_all add: resolve_api_def resolve_event_def split_beta)

lemma waits_ok_sym: "waits_ok p q rs \<longleftrightarrow> waits_ok q p rs"
  by (auto simp: waits_ok_def)

lemma update_outside:
  "A' \<subseteq> A \<Longrightarrow> A \<inter> B = {} \<Longrightarrow> \<forall>v \<in> A \<union> B. rs v = None \<Longrightarrow> w \<notin> A' \<Longrightarrow> w \<notin> B \<Longrightarrow>
     A' \<inter> B = {} \<and> (\<forall>v \<in> A' \<union> B. (rs(w \<mapsto> r)) v = None)"
  by auto

lemma subset_outside:
  "A' \<subseteq> A \<Longrightarrow> A \<inter> B = {} \<Longrightarrow> \<forall>v \<in> A \<union> B. rs v = None \<Longrightarrow> A' \<inter> B = {} \<and> (\<forall>v \<in> A' \<union> B. rs v = None)"
  by auto

lemma waits_ok_resolve:
  assumes "waits_ok p q rs" "resolve i r (p, rs) = (p', rs')"
  shows "waits_ok p' q rs' \<and> fst ` set p' \<subseteq> fst ` set p"
proof (cases "map_of p i")
  case (Some w)
  then have eq: "p' = AList.delete i p" "rs' = rs(w \<mapsto> r)" using assms(2) by (auto simp: resolve_def)
  have "distinct (map snd p)" using assms(1) by (simp add: waits_ok_def)
  then have "w \<notin> snd ` set p'" unfolding eq using Some by (rule deleted_waiter)
  moreover have "w \<notin> snd ` set q"
    using assms(1) map_of_SomeD [OF Some] by (force simp: waits_ok_def)
  moreover have sub: "set p' \<subseteq> set p" unfolding eq by (rule set_delete_subset)
  moreover have "distinct (map fst p')" "distinct (map snd p')"
    using assms(1) by (simp_all add: eq waits_ok_def distinct_delete distinct_snd_delete)
  moreover have "snd ` set p \<inter> snd ` set q = {}" "\<forall>v \<in> snd ` set p \<union> snd ` set q. rs v = None"
      "distinct (map fst q)" "distinct (map snd q)"
    using assms(1) by (simp_all add: waits_ok_def)
  ultimately have "waits_ok p' q rs'"
    using update_outside [OF image_mono [OF sub, of snd], of "snd ` set q" rs w r]
    unfolding waits_ok_def eq(2) distinct_append set_map by simp
  then show ?thesis using sub by blast
qed (use assms in \<open>simp add: resolve_def\<close>)

lemma tables_ok_resolve_api:
  assumes "tables_ok cl"
  shows "tables_ok (resolve_api i r cl)"
proof -
  obtain p rs where r: "resolve i r (cl_pending_api cl, cl_results cl) = (p, rs)" by fastforce
  have "waits_ok p (cl_pending_event cl) rs \<and> fst ` set p \<subseteq> fst ` set (cl_pending_api cl)"
    using waits_ok_resolve [OF _ r, of "cl_pending_event cl"] assms by (simp add: tables_ok_def)
  moreover from this have "\<forall>j \<in> fst ` set p. j \<le> cl_next_request_id cl"
    using assms unfolding tables_ok_def by (meson subsetD)
  ultimately show ?thesis
    using assms by (simp add: tables_ok_def resolve_api_def r)
qed

lemma tables_ok_resolve_event:
  assumes "tables_ok cl"
  shows "tables_ok (resolve_event i r cl)"
proof -
  obtain p rs where r: "resolve i r (cl_pending_event cl, cl_results cl) = (p, rs)" by fastforce
  have "waits_ok (cl_pending_api cl) p rs \<and> fst ` set p \<subseteq> fst ` set (cl_pending_event cl)"
    using waits_ok_resolve [OF _ r, of "cl_pending_api cl"] assms
    by (simp add: tables_ok_def waits_ok_sym [of "cl_pending_api cl"])
  moreover from this have "\<forall>j \<in> fst ` set p. j \<le> cl_next_event_id cl"
    using assms unfolding tables_ok_def by (meson subsetD)
  ultimately show ?thesis
    using assms by (simp add: tables_ok_def resolve_event_def r)
qed

lemma waiting_no_result: "tables_ok cl \<Longrightarrow> waiting cl k = Some w \<Longrightarrow> cl_results cl w = None"
  by (cases k) (simp_all add: tables_ok_def waits_ok_def map_of_snd)

fun resolve_key :: "msg_key \<Rightarrow> call_result \<Rightarrow> client \<Rightarrow> client" where
  "resolve_key (RequestKey i) = resolve_api i"
| "resolve_key (EventKey i) = resolve_event i"

lemma handle_answer: "answer_of (pe_body p) = Some (k, r) \<Longrightarrow> handle_packet p cl = Some (resolve_key k r cl)"
  by (cases "pe_body p") (auto simp: handle_packet_def)

lemma resolve_key_waiting: "waiting (resolve_key k r cl) = (waiting cl)(k := None)"
proof
  fix k'
  show "waiting (resolve_key k r cl) k' = ((waiting cl)(k := None)) k'"
    by (cases k; cases k')
      (simp_all add: api_waiters.lookup_after event_waiters.lookup_after api_waiters.resolve_other event_waiters.resolve_other)
qed

lemma client_ok_resolve_key: "client_ok cl \<Longrightarrow> client_ok (resolve_key k r cl)"
  by (cases k) (simp_all add: client_ok_def tables_ok_resolve_api tables_ok_resolve_event)

lemma resolve_key_once: "resolve_key k r' (resolve_key k r cl) = resolve_key k r cl"
  by (cases k) (simp_all add: api_waiters.resolve_once event_waiters.resolve_once)

lemma resolve_key_results:
  "cl_results (resolve_key k r cl) = (case waiting cl k of None \<Rightarrow> cl_results cl | Some w \<Rightarrow> (cl_results cl)(w \<mapsto> r))"
  by (cases k) (simp_all add: api_waiters.results_after event_waiters.results_after)

lemma resolve_key_unknown: "waiting cl k = None \<Longrightarrow> resolve_key k r cl = cl"
  by (cases k) (simp_all add: api_waiters.resolve_unknown event_waiters.resolve_unknown)

text \<open>
  C7. Every answer reaches exactly the caller that waits for it: when an \<open>ApiResponse\<close> or \<open>EventAck\<close> arrives, the
  waiter registered under its id (of the table of its kind) gets the data, or the server's error (one is made up when
  the server sent none), and no other waiter gets anything; the entry is removed and all others stay. An answer
  nobody waits for, in particular a second answer to the same id, changes nothing. The invariant of the client is kept.
\<close>

theorem answers_reach_callers:
  assumes "client_ok cl" "answer_of (pe_body p) = Some (k, r)"
  shows "\<exists>cl'. handle_packet p cl = Some cl' \<and> client_ok cl' \<and> handle_packet p cl' = Some cl' \<and>
    waiting cl' = (waiting cl)(k := None) \<and>
    (case waiting cl k of
       None \<Rightarrow> cl' = cl
     | Some w \<Rightarrow> cl_results cl w = None \<and> cl_results cl' = (cl_results cl)(w \<mapsto> r))"
proof -
  have "waiting cl k = Some w \<Longrightarrow> cl_results cl w = None" for w
    using assms(1) waiting_no_result by (simp add: client_ok_def)
  then show ?thesis
    using client_ok_resolve_key [OF assms(1), of k r]
    by (auto simp: handle_answer [OF assms(2)] resolve_key_once resolve_key_waiting resolve_key_results
        resolve_key_unknown split: option.splits)
qed

definition sample_client :: client where
  "sample_client = snd (event_register 6 (snd (call_register 5 (install_session 0 (client_new ''ws://a'' config_plaintext)))))"

lemmas sample_client_simps = sample_client_def event_register_def call_register_def install_session_def client_new_def
  config_plaintext_def emit_connected_def current_url_def channel_new_def CLIENT_OUTBOUND_QUEUE_CAPACITY_def

lemma sample_client_ok: "client_ok sample_client"
  by (simp add: client_ok_def tables_ok_def waits_ok_def session_ok_def channel_ok_def sample_client_simps)

theorem answers_reach_callers_witness:
  "\<exists>cl'. handle_packet (envelope_new (ApiResponse 1 True 200 (Bool True) None (Object []))) sample_client = Some cl' \<and>
     cl_results cl' = [5 \<mapsto> Inr (Bool True)] \<and> waiting cl' (EventKey 1) = Some 6"
proof -
  let ?p = "envelope_new (ApiResponse 1 True 200 (Bool True) None (Object []))"
  have a: "answer_of (pe_body ?p) = Some (RequestKey 1, Inr (Bool True))"
    by (simp add: envelope_new_def remote_result_def)
  have "waiting sample_client (RequestKey 1) = Some 5" "waiting sample_client (EventKey 1) = Some 6"
      "cl_results sample_client = Map.empty"
    by (simp_all add: sample_client_simps)
  moreover from this obtain cl' where "handle_packet ?p sample_client = Some cl'"
      "waiting cl' = (waiting sample_client)(RequestKey 1 := None)" "cl_results cl' = (cl_results sample_client)(5 \<mapsto> Inr (Bool True))"
    using answers_reach_callers [OF sample_client_ok a] by auto
  ultimately show ?thesis
    by (intro exI [of _ cl']) (simp del: waiting.simps)
qed

subsection \<open>Calls\<close>

definition fresh_waiter :: "waiter \<Rightarrow> client \<Rightarrow> bool" where
  "fresh_waiter w cl \<longleftrightarrow>
     w \<notin> snd ` set (cl_pending_api cl) \<union> snd ` set (cl_pending_event cl) \<and> cl_results cl w = None"

lemma send_outbound_eq:
  assumes "cl_writer cl = Some x" "cl_channels cl x = Some ch"
  shows "send_outbound msg cl =
    (if \<not> ch_open ch then Some (Inl Disconnected, cl)
     else if length (ch_queue ch) < ch_capacity ch
     then Some (Inr (), cl\<lparr>cl_channels := (cl_channels cl)(x \<mapsto> ch\<lparr>ch_queue := ch_queue ch @ [msg]\<rparr>)\<rparr>)
     else None)"
  using assms by (simp add: send_outbound_def send_on_def send_def try_send_def)

lemma waiting_channels [simp]: "waiting (cl\<lparr>cl_channels := c\<rparr>) = waiting cl"
proof
  show "waiting (cl\<lparr>cl_channels := c\<rparr>) k = waiting cl k" for k by (cases k) simp_all
qed

lemma channel_ok_push: "length (ch_queue ch) < ch_capacity ch \<Longrightarrow> channel_ok (ch\<lparr>ch_queue := ch_queue ch @ [msg]\<rparr>)"
  by (simp add: channel_ok_def)

lemma client_ok_queue:
  assumes "client_ok cl" "cl_channels cl x = Some ch" "length (ch_queue ch) < ch_capacity ch"
  shows "client_ok (cl\<lparr>cl_channels := (cl_channels cl)(x \<mapsto> ch\<lparr>ch_queue := ch_queue ch @ [msg]\<rparr>)\<rparr>)"
  using assms channel_ok_push [of ch msg] by (auto simp: client_ok_def tables_ok_def session_ok_def)

text \<open>What the start of a call may do: fail at once, wait for space in a full queue, or register and queue.\<close>

definition started :: "client \<Rightarrow> waiter \<Rightarrow> msg_key \<Rightarrow> u64 \<Rightarrow> packet_envelope \<Rightarrow> ((client_error + u64) \<times> client) option \<Rightarrow> bool" where
  "started cl w key i p r \<longleftrightarrow>
     (case cl_writer cl of
        None \<Rightarrow> r = Some (Inl Disconnected, cl)
      | Some y \<Rightarrow> waiting cl key = None \<and> (\<exists>ch. cl_channels cl y = Some ch \<and>
          (case r of
             None \<Rightarrow> ch_open ch \<and> length (ch_queue ch) = CLIENT_OUTBOUND_QUEUE_CAPACITY
           | Some (Inl e, cl') \<Rightarrow> e = Disconnected \<and> \<not> ch_open ch \<and> client_ok cl' \<and>
               waiting cl' = waiting cl \<and> cl_channels cl' = cl_channels cl
           | Some (Inr i', cl') \<Rightarrow> i' = i \<and> ch_open ch \<and> client_ok cl' \<and> waiting cl' = (waiting cl)(key \<mapsto> w) \<and>
               cl_channels cl' = (cl_channels cl)(y \<mapsto> ch\<lparr>ch_queue := ch_queue ch @ [ClientPacket p]\<rparr>))))"

lemma writer_channel: "client_ok cl \<Longrightarrow> cl_writer cl = Some y \<Longrightarrow> \<exists>ch. cl_channels cl y = Some ch"
  by (auto simp: client_ok_def session_ok_def)

text \<open>The contract of an operation that registers a waiter, queues a packet and withdraws when that fails.\<close>

locale caller = waiter_table table other resolve_in withdraw
  for table other :: "client \<Rightarrow> pending_map"
    and resolve_in :: "u64 \<Rightarrow> call_result \<Rightarrow> client \<Rightarrow> client"
    and withdraw :: "u64 \<Rightarrow> client \<Rightarrow> client" +
  fixes counter :: "client \<Rightarrow> u64"
    and key :: "u64 \<Rightarrow> msg_key"
    and register :: "waiter \<Rightarrow> client \<Rightarrow> u64 \<times> client"
    and packet :: "client \<Rightarrow> u64 \<Rightarrow> 'a \<Rightarrow> packet_envelope"
    and start :: "waiter \<Rightarrow> 'a \<Rightarrow> client \<Rightarrow> ((client_error + u64) \<times> client) option"
  assumes start_eq: "start w x cl =
      (if \<not> cl_is_connected cl then Some (Inl Disconnected, cl)
       else let (i, cl) = register w cl in
         (case send_outbound (ClientPacket (packet cl i x)) cl of
            None \<Rightarrow> None
          | Some (Inl _, cl) \<Rightarrow> Some (Inl Disconnected, withdraw i cl)
          | Some (Inr _, cl) \<Rightarrow> Some (Inr i, cl)))"
    and register_id: "fst (register w cl) = counter cl + 1"
    and register_waiting: "waiting (snd (register w cl)) = (waiting cl)(key (counter cl + 1) \<mapsto> w)"
    and register_frame: "cl_writer (snd (register w cl)) = cl_writer cl" "cl_channels (snd (register w cl)) = cl_channels cl"
    and register_packet: "packet (snd (register w cl)) i x = packet cl i x"
    and register_ok: "client_ok cl \<Longrightarrow> fresh_waiter w cl \<Longrightarrow> counter cl \<noteq> - 1 \<Longrightarrow>
      client_ok (snd (register w cl)) \<and> waiting cl (key (counter cl + 1)) = None"
    and withdraw_waiting: "waiting (withdraw i cl) = (waiting cl)(key i := None)"
    and withdraw_frame: "cl_channels (withdraw i cl) = cl_channels cl"
    and withdraw_ok: "client_ok cl \<Longrightarrow> client_ok (withdraw i cl)"
begin

lemma start_connected:
  assumes "client_ok cl" "fresh_waiter w cl" "counter cl \<noteq> - 1" "cl_writer cl = Some y" "cl_channels cl y = Some ch"
  defines "i \<equiv> counter cl + 1"
  shows "waiting cl (key i) = None \<and>
    (case start w x cl of
       None \<Rightarrow> ch_open ch \<and> length (ch_queue ch) = CLIENT_OUTBOUND_QUEUE_CAPACITY
     | Some (Inl e, cl') \<Rightarrow> e = Disconnected \<and> \<not> ch_open ch \<and> client_ok cl' \<and> waiting cl' = waiting cl \<and> cl_channels cl' = cl_channels cl
     | Some (Inr i', cl') \<Rightarrow> i' = i \<and> ch_open ch \<and> client_ok cl' \<and> waiting cl' = (waiting cl)(key i \<mapsto> w) \<and>
         cl_channels cl' = (cl_channels cl)(y \<mapsto> ch\<lparr>ch_queue := ch_queue ch @ [ClientPacket (packet cl i x)]\<rparr>))"
proof -
  obtain cl1 where r: "register w cl = (i, cl1)" using register_id [of w cl] by (cases "register w cl") (simp add: i_def)
  have cl1: "client_ok cl1" "waiting cl (key i) = None" "waiting cl1 = (waiting cl)(key i \<mapsto> w)" "cl_writer cl1 = Some y"
      "cl_channels cl1 = cl_channels cl" "packet cl1 i x = packet cl i x"
    using register_ok [OF assms(1-3)] register_waiting [of w cl] register_frame [of w cl] register_packet [of w cl i x] assms(4)
    by (simp_all add: r i_def)
  have conn: "cl_is_connected cl" "channel_ok ch" "ch_capacity ch = CLIENT_OUTBOUND_QUEUE_CAPACITY"
    using assms(1,4,5) by (auto simp: client_ok_def session_ok_def)
  have "(waiting cl)(key i := None) = waiting cl" using cl1(2) by (simp add: fun_upd_idem)
  then show ?thesis
    using cl1 conn assms(5) client_ok_queue [of cl1 y ch "ClientPacket (packet cl i x)"]
    by (simp add: start_eq r send_outbound_eq [OF cl1(4), of ch] withdraw_waiting withdraw_frame withdraw_ok channel_ok_def)
qed

lemma start_disconnected: "client_ok cl \<Longrightarrow> cl_writer cl = None \<Longrightarrow> start w x cl = Some (Inl Disconnected, cl)"
  by (simp add: start_eq client_ok_def session_ok_def)

lemma start_spec:
  assumes "client_ok cl" "fresh_waiter w cl" "counter cl \<noteq> - 1"
  defines "i \<equiv> counter cl + 1"
  shows "started cl w (key i) i (packet cl i x) (start w x cl)"
proof (cases "cl_writer cl")
  case (Some y)
  then obtain ch where ch: "cl_channels cl y = Some ch" using writer_channel [OF assms(1)] by blast
  show ?thesis
    using start_connected [OF assms(1-3) Some ch, of x] by (simp add: started_def Some ch i_def)
qed (simp add: started_def start_disconnected [OF assms(1)])

end

lemma u64_next_greater: "n \<noteq> - 1 \<Longrightarrow> i \<le> n \<Longrightarrow> i < 1 + (n :: u64)"
  using unatSuc [of n] by (simp add: word_less_nat_alt word_le_nat_alt add_eq_0_iff)

lemma update_fresh: "k \<notin> fst ` set al \<Longrightarrow> AList.update k v al = al @ [(k, v)]"
  by (induction al) auto

lemma waits_ok_register:
  assumes "waits_ok p q rs" "i \<notin> fst ` set p" "w \<notin> snd ` set p \<union> snd ` set q" "rs w = None"
  shows "waits_ok (AList.update i w p) q rs"
  using assms by (auto simp: waits_ok_def update_fresh)

lemma waits_ok_delete:
  assumes "waits_ok p q rs"
  shows "waits_ok (AList.delete i p) q rs"
proof -
  have sub: "snd ` set (AList.delete i p) \<subseteq> snd ` set p" by (rule image_mono) (rule set_delete_subset)
  have "snd ` set p \<inter> snd ` set q = {}" "\<forall>v \<in> snd ` set p \<union> snd ` set q. rs v = None"
    using assms by (simp_all add: waits_ok_def)
  from subset_outside [OF sub this] show ?thesis
    using assms by (simp add: waits_ok_def distinct_delete distinct_snd_delete)
qed

lemma register_table:
  assumes "waits_ok p q rs" "\<forall>j \<in> fst ` set p. j \<le> n" "n \<noteq> - 1" "w \<notin> snd ` set p \<union> snd ` set q" "rs w = None"
  shows "waits_ok (AList.update (n + 1) w p) q rs \<and> (\<forall>j \<in> fst ` set (AList.update (n + 1) w p). j \<le> n + 1) \<and>
    map_of p (n + 1) = None"
proof -
  have lt: "\<forall>j \<in> fst ` set p. j < n + 1" using u64_next_greater [OF assms(3)] assms(2) by (simp add: add.commute)
  then have new: "n + 1 \<notin> fst ` set p" by blast
  then show ?thesis
    using waits_ok_register [OF assms(1) new assms(4,5)] lt
    by (simp add: update_fresh [OF new] less_imp_le map_of_eq_None_iff)
qed

lemma register_ok_api:
  assumes "client_ok cl" "fresh_waiter w cl" "cl_next_request_id cl \<noteq> - 1"
  shows "client_ok (snd (call_register w cl)) \<and> waiting cl (RequestKey (cl_next_request_id cl + 1)) = None"
proof -
  have "tables_ok (snd (call_register w cl)) \<and> waiting cl (RequestKey (cl_next_request_id cl + 1)) = None"
    using register_table [OF _ _ assms(3), of "cl_pending_api cl" "cl_pending_event cl" "cl_results cl" w] assms(1,2)
    by (simp add: client_ok_def tables_ok_def fresh_waiter_def call_register_def Let_def)
  then show ?thesis
    using assms(1) by (simp add: client_ok_def session_ok_def call_register_def Let_def)
qed

lemma register_ok_event:
  assumes "client_ok cl" "fresh_waiter w cl" "cl_next_event_id cl \<noteq> - 1"
  shows "client_ok (snd (event_register w cl)) \<and> waiting cl (EventKey (cl_next_event_id cl + 1)) = None"
proof -
  have "tables_ok (snd (event_register w cl)) \<and> waiting cl (EventKey (cl_next_event_id cl + 1)) = None"
    using register_table [OF _ _ assms(3), of "cl_pending_event cl" "cl_pending_api cl" "cl_results cl" w] assms(1,2)
    by (simp add: client_ok_def tables_ok_def fresh_waiter_def event_register_def Let_def waits_ok_sym [of "cl_pending_api cl"])
  then show ?thesis
    using assms(1) by (simp add: client_ok_def session_ok_def event_register_def Let_def)
qed

lemma withdraw_ok:
  assumes "client_ok cl"
  shows "client_ok (call_withdraw i cl)" "client_ok (event_withdraw i cl)"
proof -
  have w: "waits_ok (cl_pending_api cl) (cl_pending_event cl) (cl_results cl)"
    using assms by (simp add: client_ok_def tables_ok_def)
  have sub: "fst ` set (AList.delete i al) \<subseteq> fst ` set al" for al :: pending_map
    by (rule image_mono) (rule set_delete_subset)
  have "\<forall>j \<in> fst ` set (AList.delete i (cl_pending_api cl)). j \<le> cl_next_request_id cl"
      "\<forall>j \<in> fst ` set (AList.delete i (cl_pending_event cl)). j \<le> cl_next_event_id cl"
    using assms sub unfolding client_ok_def tables_ok_def by (meson subsetD)+
  then show "client_ok (call_withdraw i cl)" "client_ok (event_withdraw i cl)"
    using assms waits_ok_delete [OF w, of i] waits_ok_delete [OF w [unfolded waits_ok_sym [of "cl_pending_api cl"]], of i]
    by (simp_all add: client_ok_def tables_ok_def session_ok_def call_withdraw_def event_withdraw_def
        waits_ok_sym [of "cl_pending_api cl" "AList.delete i _"])
qed

lemma waiting_eqI: "(\<And>i. waiting cl (RequestKey i) = f (RequestKey i)) \<Longrightarrow> (\<And>i. waiting cl (EventKey i) = f (EventKey i)) \<Longrightarrow> waiting cl = f"
  by (rule ext, rule_tac y = x in msg_key.exhaust) auto

interpretation calls: caller cl_pending_api cl_pending_event resolve_api call_withdraw cl_next_request_id RequestKey call_register
  "\<lambda>cl i (rt, params, atts). request_packet cl i rt params atts" "\<lambda>w (rt, params, atts). call_begin w rt params atts"
  by unfold_locales
    (auto simp: call_begin_def register_ok_api withdraw_ok intro!: waiting_eqI,
     auto simp: call_register_def call_withdraw_def request_packet_def update_conv' delete_conv' Let_def dest: register_ok_api)

interpretation events: caller cl_pending_event cl_pending_api resolve_event event_withdraw cl_next_event_id EventKey event_register
  "\<lambda>cl i (name, data, atts). client_event_packet cl i name data atts" "\<lambda>w (name, data, atts). send_event_begin w name data atts"
  by unfold_locales
    (auto simp: send_event_begin_def register_ok_event withdraw_ok intro!: waiting_eqI,
     auto simp: event_register_def event_withdraw_def client_event_packet_def update_conv' delete_conv' Let_def dest: register_ok_event)

text \<open>
  C29. Calls and events wait under ids of their own. With a fresh waiter and a counter that has not reached \<open>2^64 - 1\<close>,
  \<open>call\<close> takes the next id, under which nobody waits, registers there and queues exactly one packet with that id;
  it fails with \<open>Disconnected\<close> and leaves tables and queues as they were when there is no session or its writer is gone,
  and waits only when the queue holds 256 messages; likewise \<open>send_event\<close>. When the time of a call is up it returns \<open>Timeout\<close>, and an answer
  that comes later is ignored.
\<close>

theorem calls_wait_under_their_ids:
  assumes "client_ok cl"
  shows "(fresh_waiter w cl \<and> cl_next_request_id cl \<noteq> - 1 \<longrightarrow>
      (let i = cl_next_request_id cl + 1 in
       started cl w (RequestKey i) i (request_packet cl i rt params atts) (call_begin w rt params atts cl))) \<and>
    (fresh_waiter w cl \<and> cl_next_event_id cl \<noteq> - 1 \<longrightarrow>
      (let i = cl_next_event_id cl + 1 in
       started cl w (EventKey i) i (client_event_packet cl i name data atts) (send_event_begin w name data atts cl))) \<and>
    (waiting cl (RequestKey i) = Some w \<longrightarrow>
      (\<exists>cl'. call_end i w cl = (Inl Timeout, cl') \<and> client_ok cl' \<and> waiting cl' = (waiting cl)(RequestKey i := None) \<and>
        (\<forall>p r. answer_of (pe_body p) = Some (RequestKey i, r) \<longrightarrow> handle_packet p cl' = Some cl')))"
proof (intro conjI impI)
  show "let i = cl_next_request_id cl + 1 in
       started cl w (RequestKey i) i (request_packet cl i rt params atts) (call_begin w rt params atts cl)"
    if "fresh_waiter w cl \<and> cl_next_request_id cl \<noteq> - 1"
    using calls.start_spec [OF assms, of w "(rt, params, atts)"] that by (simp add: Let_def)
  show "let i = cl_next_event_id cl + 1 in
       started cl w (EventKey i) i (client_event_packet cl i name data atts) (send_event_begin w name data atts cl)"
    if "fresh_waiter w cl \<and> cl_next_event_id cl \<noteq> - 1"
    using events.start_spec [OF assms, of w "(name, data, atts)"] that by (simp add: Let_def)
  assume w: "waiting cl (RequestKey i) = Some w"
  have "cl_results cl w = None" using assms waiting_no_result [OF _ w] by (simp add: client_ok_def)
  moreover have "w \<in> snd ` set (cl_pending_api cl)" using w by (simp add: map_of_snd)
  ultimately have "call_end i w cl = (Inl Timeout, call_withdraw i cl)" by (simp add: call_end_def)
  then show "\<exists>cl'. call_end i w cl = (Inl Timeout, cl') \<and> client_ok cl' \<and> waiting cl' = (waiting cl)(RequestKey i := None) \<and>
      (\<forall>p r. answer_of (pe_body p) = Some (RequestKey i, r) \<longrightarrow> handle_packet p cl' = Some cl')"
    using withdraw_ok(1) [OF assms] by (simp add: calls.withdraw_waiting handle_answer api_waiters.resolve_after_withdraw)
qed

theorem calls_wait_under_their_ids_witness:
  "\<exists>cl'. call_begin 7 ''echo'' (Object []) [] sample_client = Some (Inr 2, cl') \<and>
     waiting cl' (RequestKey 2) = Some 7 \<and> waiting cl' (RequestKey 1) = Some 5 \<and> client_ok cl' \<and>
     (\<exists>cl''. call_end 2 7 cl' = (Inl Timeout, cl''))"
proof -
  have f: "fresh_waiter 7 sample_client" "cl_next_request_id sample_client = 1"
      "cl_writer sample_client = Some 0" "cl_channels sample_client 0 = Some (channel_new 256)"
    by (simp_all add: fresh_waiter_def sample_client_simps)
  then have st: "started sample_client 7 (RequestKey 2) 2 (request_packet sample_client 2 ''echo'' (Object []) [])
      (call_begin 7 ''echo'' (Object []) [] sample_client)"
    using calls_wait_under_their_ids [OF sample_client_ok, of 7 "''echo''" "Object []" "[]"] by simp
  have "\<exists>cl'. call_begin 7 ''echo'' (Object []) [] sample_client = Some (Inr 2, cl') \<and> client_ok cl' \<and>
      waiting cl' = (waiting sample_client)(RequestKey 2 \<mapsto> 7)"
  proof (cases "call_begin 7 ''echo'' (Object []) [] sample_client")
    case (Some rc)
    obtain r cl' where "rc = (r, cl')" by fastforce
    then show ?thesis using st Some by (cases r) (simp_all add: started_def f channel_new_def)
  qed (use st in \<open>simp add: started_def f channel_new_def CLIENT_OUTBOUND_QUEUE_CAPACITY_def\<close>)
  then obtain cl' where cl': "call_begin 7 ''echo'' (Object []) [] sample_client = Some (Inr 2, cl')" "client_ok cl'"
      "waiting cl' = (waiting sample_client)(RequestKey 2 \<mapsto> 7)" by blast
  have w: "waiting cl' (RequestKey 2) = Some 7" "waiting cl' (RequestKey 1) = Some 5"
    by (simp_all add: cl'(3) sample_client_simps del: waiting.simps) (simp add: sample_client_simps)
  then show ?thesis
    using calls_wait_under_their_ids [OF cl'(2), of 7 _ _ _ _ _ 2] cl'(1,2) by blast
qed

end
