(* ===== verification/Client_Session.thy ===== *)
theory Client_Session
  imports Client_Runtime
begin

section \<open>Sessions of the client\<close>

text \<open>
  What holds of a client across its sessions: a disconnect tells every waiter and leaves no session behind, failover
  prefers the last good server and reaches every other, and the supervisor's delays follow their schedule.
\<close>

subsection \<open>Disconnecting\<close>

lemma resolve_pair:
  "resolve i r (p, rs) = (case map_of p i of None \<Rightarrow> (p, rs) | Some w \<Rightarrow> (AList.delete i p, rs(w \<mapsto> r)))"
  by (simp add: resolve_def split: option.split)

lemma drain_eq:
  assumes "distinct (map fst p)"
  shows "drain r (p, rs) = ([], \<lambda>w. if w \<in> snd ` set p then Some r else rs w)"
proof -
  have "fold (\<lambda>key. resolve key r) (map fst p) (p, rs) = ([], \<lambda>w. if w \<in> snd ` set p then Some r else rs w)"
    using assms
  proof (induction p arbitrary: rs)
    case (Cons kw p)
    obtain k w where kw: "kw = (k, w)" by fastforce
    have "k \<notin> fst ` set p" using Cons.prems by (simp add: kw)
    then have "resolve k r (kw # p, rs) = (p, rs(w \<mapsto> r))" by (simp add: resolve_pair kw)
    then show ?case using Cons.prems by (auto simp: kw Cons.IH fun_eq_iff)
  qed simp
  then show ?thesis by (simp add: drain_def)
qed

lemma waiting_waiters: "(\<exists>k. waiting cl k = Some w) \<longleftrightarrow> w \<in> snd ` set (cl_pending_api cl) \<union> snd ` set (cl_pending_event cl)"
  if "tables_ok cl"
proof -
  have d: "distinct (map fst (cl_pending_api cl))" "distinct (map fst (cl_pending_event cl))"
    using that by (simp_all add: tables_ok_def waits_ok_def)
  have m: "(\<exists>i. map_of al i = Some w) \<longleftrightarrow> w \<in> snd ` set al" if "distinct (map fst al)" for al :: pending_map
  proof
    show "w \<in> snd ` set al \<Longrightarrow> \<exists>i. map_of al i = Some w" using map_of_is_SomeI [OF that] by auto blast
  qed (auto dest: map_of_snd)
  have "(\<exists>k. waiting cl k = Some w) \<longleftrightarrow> (\<exists>i. waiting cl (RequestKey i) = Some w) \<or> (\<exists>i. waiting cl (EventKey i) = Some w)"
    by (metis msg_key.exhaust)
  then show ?thesis by (simp add: m [OF d(1)] m [OF d(2)])
qed

text \<open>The state of a client after a disconnect it did not know of.\<close>

lemma handle_disconnect_eq:
  fixes sh err cl
  assumes "tables_ok cl" "cl_is_connected cl" "g = cl_connection_generation cl"
  defines "reason \<equiv> client_disconnect_reason sh err"
    and "retry \<equiv> \<not> cl_shutdown cl \<and> cc_auto_reconnect (cl_config cl)"
  shows "handle_disconnect sh g err cl = cl\<lparr>cl_is_connected := False, cl_writer := None, cl_pending_api := [], cl_pending_event := [],
    cl_results := (\<lambda>w. if \<exists>k. waiting cl k = Some w then Some (Inl (ConnectionClosed reason)) else cl_results cl w),
    cl_handler_calls := cl_handler_calls cl @ map (\<lambda>h. DisconnectedCall h \<lparr>dev_url = current_url cl, dev_reason = reason,
      dev_will_reconnect = retry, dev_retry_after = (if retry then Some (reconnect_delay 1) else None)\<rparr>)
      (cl_disconnected_handlers cl)\<rparr>"
proof -
  have d: "distinct (map fst (cl_pending_api cl))" "distinct (map fst (cl_pending_event cl))"
    using assms(1) by (simp_all add: tables_ok_def waits_ok_def)
  have "(\<lambda>w. if w \<in> snd ` set (cl_pending_event cl) then Some r else if w \<in> snd ` set (cl_pending_api cl) then Some r else cl_results cl w)
      = (\<lambda>w. if \<exists>k. waiting cl k = Some w then Some r else cl_results cl w)" for r
    unfolding waiting_waiters [OF assms(1)] by auto
  then show ?thesis
    using assms(2,3) unfolding handle_disconnect_def is_connection_generation_active_def reason_def retry_def
    by (simp add: drain_eq [OF d(1)] drain_eq [OF d(2)] emit_disconnected_def current_url_def Let_def)
qed

text \<open>
  C22. A disconnect is final for the session and is reported once. When the current session ends, every caller still
  waiting, of a request or an event, gets \<open>ConnectionClosed\<close> with the reason and nobody else gets anything; no waiter, no writer and no
  connection are left; every disconnect handler is invoked once, announcing a retry exactly when auto-reconnect is
  on and the client was not closed. Reports by the other tasks of the session change nothing any more, reports of
  earlier sessions never do, and calls fail at once until the next session.
\<close>

theorem disconnect_tells_everyone:
  fixes sh err
  assumes "client_ok cl" "cl_is_connected cl"
  defines "cl' \<equiv> handle_disconnect sh (cl_connection_generation cl) err cl"
    and "result \<equiv> Inl (ConnectionClosed (client_disconnect_reason sh err)) :: call_result"
  shows "client_ok cl' \<and> \<not> cl_is_connected cl' \<and> cl_writer cl' = None \<and> waiting cl' = Map.empty \<and>
    (\<forall>w. cl_results cl' w = (if \<exists>k. waiting cl k = Some w then Some result else cl_results cl w)) \<and>
    (\<exists>ev. cl_handler_calls cl' = cl_handler_calls cl @ map (\<lambda>h. DisconnectedCall h ev) (cl_disconnected_handlers cl) \<and>
       dev_url ev = current_url cl \<and> dev_reason ev = client_disconnect_reason sh err \<and>
       (dev_will_reconnect ev \<longleftrightarrow> \<not> cl_shutdown cl \<and> cc_auto_reconnect (cl_config cl))) \<and>
    (\<forall>g e. handle_disconnect sh g e cl' = cl') \<and>
    (\<forall>g e. g \<noteq> cl_connection_generation cl \<longrightarrow> handle_disconnect sh g e cl = cl) \<and>
    (\<forall>w rt params atts. call_begin w rt params atts cl' = Some (Inl Disconnected, cl'))"
proof -
  have t: "tables_ok cl" and s: "session_ok cl" using assms(1) by (simp_all add: client_ok_def)
  note eq = handle_disconnect_eq [OF t assms(2) refl, of sh err, folded cl'_def result_def]
  let ?retry = "\<not> cl_shutdown cl \<and> cc_auto_reconnect (cl_config cl)"
  let ?ev = "\<lparr>dev_url = current_url cl, dev_reason = client_disconnect_reason sh err, dev_will_reconnect = ?retry,
    dev_retry_after = (if ?retry then Some (reconnect_delay 1) else None)\<rparr>"
  have "waiting cl' = Map.empty" by (rule waiting_eqI) (simp_all add: eq)
  moreover have "client_ok cl'" using s by (simp add: eq client_ok_def tables_ok_def waits_ok_def session_ok_def)
  moreover have "\<forall>g e. handle_disconnect sh g e cl' = cl'" by (simp add: handle_disconnect_def eq)
  moreover have "\<forall>g e. g \<noteq> cl_connection_generation cl \<longrightarrow> handle_disconnect sh g e cl = cl"
    by (auto simp: handle_disconnect_def is_connection_generation_active_def)
  moreover have "\<forall>w rt params atts. call_begin w rt params atts cl' = Some (Inl Disconnected, cl')"
    by (simp add: call_begin_def eq)
  moreover have "\<exists>ev. cl_handler_calls cl' = cl_handler_calls cl @ map (\<lambda>h. DisconnectedCall h ev) (cl_disconnected_handlers cl) \<and>
       dev_url ev = current_url cl \<and> dev_reason ev = client_disconnect_reason sh err \<and>
       (dev_will_reconnect ev \<longleftrightarrow> \<not> cl_shutdown cl \<and> cc_auto_reconnect (cl_config cl))"
    by (intro exI [of _ "?ev"]) (simp add: eq)
  ultimately show ?thesis by (simp add: eq)
qed

theorem disconnect_tells_everyone_witness:
  "let cl' = handle_disconnect (\<lambda>_. []) 0 ClientIdleTimeout sample_client in
   cl_results cl' 5 = Some (Inl (ConnectionClosed ''idle timeout'')) \<and>
   cl_results cl' 6 = Some (Inl (ConnectionClosed ''idle timeout'')) \<and> cl_results cl' 7 = None"
proof -
  have s: "cl_is_connected sample_client" "cl_connection_generation sample_client = 0"
      "waiting sample_client (RequestKey 1) = Some 5" "waiting sample_client (EventKey 1) = Some 6" "cl_results sample_client 7 = None"
    by (simp_all add: sample_client_simps)
  have "waiting sample_client k \<noteq> Some 7" for k by (cases k) (simp_all add: sample_client_simps)
  then show ?thesis
    using disconnect_tells_everyone [OF sample_client_ok s(1), of "\<lambda>_. []" ClientIdleTimeout] s
    by (auto simp: client_disconnect_reason_def simp del: waiting.simps)
qed

subsection \<open>Failover\<close>

lemma try_urls_reached:
  "try_urls reach urls is e = Inr i \<Longrightarrow>
     \<exists>k < length is. i = is ! k \<and> reach (urls ! i) = Inr () \<and> (\<forall>j < k. \<exists>x. reach (urls ! (is ! j)) = Inl x)"
proof (induction reach urls "is" e rule: try_urls.induct)
  case (2 reach urls i0 "is" e)
  show ?case
  proof (cases "reach (urls ! i0)")
    case (Inl x)
    then obtain k where "k < length is" "i = is ! k" "reach (urls ! i) = Inr ()" "\<forall>j < k. \<exists>x. reach (urls ! (is ! j)) = Inl x"
      using 2 by auto
    then show ?thesis
      using Inl by (intro exI [of _ "Suc k"]) (auto simp: less_Suc_eq_0_disj)
  qed (use 2 in auto)
qed (auto split: option.splits)

lemma try_urls_failed:
  "try_urls reach urls is e = Inl err \<Longrightarrow> (\<forall>i \<in> set is. \<exists>x. reach (urls ! i) = Inl x) \<and>
     (is \<noteq> [] \<longrightarrow> (\<exists>x. reach (urls ! last is) = Inl x \<and> err = ClientWebSocket x))"
proof (induction reach urls "is" e rule: try_urls.induct)
  case (2 reach urls i0 "is" e)
  then show ?case by (cases "reach (urls ! i0)") (auto split: if_splits)
qed simp

lemma rotation: "i < n \<Longrightarrow> s < n \<Longrightarrow> \<exists>k < n. (s + k) mod n = (i :: nat)"
proof -
  assume "i < n" "s < n"
  then show ?thesis
    by (intro exI [of _ "if s \<le> i then i - s else n + i - s"]) auto
qed

text \<open>
  C30. Sticky failover. The candidate URLs are tried in rotation from the last good one: the first that answers is used
  and remembered, and all tried before it had failed; in particular the last good server is used again whenever it answers. Connecting
  fails exactly when no URL answers, with the error of the last attempt and without forgetting the last good one.
\<close>

theorem failover_sticky:
  assumes "cl_last_url_idx cl < length (cl_urls cl)"
  defines "n \<equiv> length (cl_urls cl)"
    and "nth_try \<equiv> \<lambda>k. cl_urls cl ! ((cl_last_url_idx cl + k) mod length (cl_urls cl))"
  shows "(reach (current_url cl) = Inr () \<longrightarrow> connect_any reach cl = (Inr (cl_last_url_idx cl), cl)) \<and>
    (case connect_any reach cl of
       (Inr i, cl') \<Rightarrow> cl' = cl\<lparr>cl_last_url_idx := i\<rparr> \<and> i < n \<and> current_url cl' = cl_urls cl ! i \<and> reach (current_url cl') = Inr () \<and>
         (\<exists>k < n. i = (cl_last_url_idx cl + k) mod n \<and> (\<forall>j < k. \<exists>x. reach (nth_try j) = Inl x))
     | (Inl e, cl') \<Rightarrow> cl' = cl \<and> (\<forall>u \<in> set (cl_urls cl). \<exists>x. reach u = Inl x) \<and>
         (\<exists>x. e = ClientWebSocket x \<and> reach (nth_try (n - 1)) = Inl x))"
proof
  let ?is = "map (\<lambda>offset. (cl_last_url_idx cl + offset) mod n) [0..<n]"
  have n: "0 < n" using assms(1) unfolding n_def by linarith
  then have c: "?is = cl_last_url_idx cl # tl ?is" using assms(1) by (simp add: upt_conv_Cons n_def)
  have eq: "connect_any reach cl = (let r = try_urls reach (cl_urls cl) ?is None in
      (r, case r of Inr i \<Rightarrow> cl\<lparr>cl_last_url_idx := i\<rparr> | Inl _ \<Rightarrow> cl))"
    by (simp add: connect_any_def n_def Let_def)
  show "reach (current_url cl) = Inr () \<longrightarrow> connect_any reach cl = (Inr (cl_last_url_idx cl), cl)"
    unfolding eq by (subst c) (simp add: current_url_def)
  show "case connect_any reach cl of
       (Inr i, cl') \<Rightarrow> cl' = cl\<lparr>cl_last_url_idx := i\<rparr> \<and> i < n \<and> current_url cl' = cl_urls cl ! i \<and> reach (current_url cl') = Inr () \<and>
         (\<exists>k < n. i = (cl_last_url_idx cl + k) mod n \<and> (\<forall>j < k. \<exists>x. reach (nth_try j) = Inl x))
     | (Inl e, cl') \<Rightarrow> cl' = cl \<and> (\<forall>u \<in> set (cl_urls cl). \<exists>x. reach u = Inl x) \<and>
         (\<exists>x. e = ClientWebSocket x \<and> reach (nth_try (n - 1)) = Inl x)"
  proof (cases "try_urls reach (cl_urls cl) ?is None")
    case (Inl e)
    have all: "\<exists>x. reach u = Inl x" if u: "u \<in> set (cl_urls cl)" for u
    proof -
      obtain i where "u = cl_urls cl ! i" "i < n" using u by (auto simp: in_set_conv_nth n_def)
      moreover from this obtain k where "k < n" "(cl_last_url_idx cl + k) mod n = i" using rotation assms(1) by (metis n_def)
      ultimately show ?thesis using try_urls_failed [OF Inl] by auto
    qed
    have "last ?is = (cl_last_url_idx cl + (n - 1)) mod n" using n by (simp add: last_map)
    then have "\<exists>x. e = ClientWebSocket x \<and> reach (nth_try (n - 1)) = Inl x"
      using try_urls_failed [OF Inl] n by (auto simp: nth_try_def n_def)
    then show ?thesis using all by (simp add: eq Inl)
  next
    case (Inr i)
    then obtain k where k: "k < n" "i = (cl_last_url_idx cl + k) mod n" "reach (cl_urls cl ! i) = Inr ()"
        "\<forall>j < k. \<exists>x. reach (cl_urls cl ! (?is ! j)) = Inl x"
      using try_urls_reached [OF Inr] by auto
    then have "\<forall>j < k. \<exists>x. reach (nth_try j) = Inl x" by (auto simp: nth_try_def n_def)
    then show ?thesis
      using k(1-3) n unfolding eq Inr Let_def by (auto simp: current_url_def)
  qed
qed

theorem failover_sticky_witness:
  "let cl = (client_new ''a'' (with_failover_urls [''b'', ''c''] config_default))\<lparr>cl_last_url_idx := 2\<rparr>;
       reach = (\<lambda>u. if u = ''b'' then Inr () else Inl ''refused'') in
   fst (connect_any reach cl) = Inr 1 \<and> current_url (snd (connect_any reach cl)) = ''b''"
proof -
  let ?cl = "(client_new ''a'' (with_failover_urls [''b'', ''c''] config_default))\<lparr>cl_last_url_idx := 2\<rparr>"
  let ?reach = "\<lambda>u. if u = ''b'' then Inr () else Inl ''refused''"
  have l: "cl_last_url_idx ?cl < length (cl_urls ?cl)"
    by (simp add: client_new_def with_failover_urls_def config_default_def)
  have "fst (connect_any ?reach ?cl) = Inr 1"
    by (simp add: connect_any_def client_new_def with_failover_urls_def config_default_def upt_rec)
  then show ?thesis
    using failover_sticky [OF l, of ?reach] by (cases "connect_any ?reach ?cl") (simp add: client_new_def with_failover_urls_def config_default_def)
qed

subsection \<open>Reconnecting\<close>

definition backoff :: "nat \<Rightarrow> duration" where
  "backoff k = from_secs (min 30 (3 * 2 ^ k))"

lemma min_pow: "min 30 (3 * 2 ^ min k 6) = min 30 (3 * 2 ^ k :: nat)"
proof (cases "k \<le> 6")
  case False
  then have "(2 :: nat) ^ 6 \<le> 2 ^ k" by (intro power_increasing) auto
  then show ?thesis using False by (simp add: min_def)
qed (simp add: min_def)

lemma reconnect_delay_backoff: "reconnect_delay a = backoff (unat a - 1)"
proof -
  have "(2 :: nat) ^ min (max (unat a) 1 - 1) 6 \<le> 2 ^ 6" by (intro power_increasing) auto
  then have "saturating_mul 3 (2 ^ min (max (unat a) 1 - 1) 6) = 3 * 2 ^ min (unat a - 1) 6"
    by (simp add: saturating_mul_def max_def split: if_splits)
  then show ?thesis
    by (simp add: reconnect_delay_def backoff_def CLIENT_RECONNECT_BASE_DELAY_SECS_def CLIENT_RECONNECT_MAX_DELAY_SECS_def
        Let_def min_pow min.commute [of _ 30])
qed

lemma reconnect_jitter_less: "reconnect_jitter buf < 1500000000"
  by (simp add: reconnect_jitter_def CLIENT_RECONNECT_BASE_DELAY_SECS_def Let_def)

lemma unat_saturating_add: "unat (saturating_add_u32 a 1) = min (unat a + 1) (2 ^ 32 - 1)"
proof (cases "unat a + 1 < 2 ^ 32")
  case True
  then have "unat (a + 1) = unat a + 1" by (simp add: unat_word_ariths)
  then show ?thesis using True by (simp add: saturating_add_u32_def)
next
  case False
  then show ?thesis by (simp add: saturating_add_u32_def unsigned_minus_1_eq_mask mask_eq_exp_minus_1)
qed

text \<open>The rounds of the supervisor while every attempt to connect fails, and how long it slept after each.\<close>

fun retries :: "(u32 option \<times> client_error) list \<Rightarrow> client \<Rightarrow> supervisor \<Rightarrow> (supervisor \<times> duration list) option" where
  "retries [] cl su = Some (su, [])"
| "retries ((buf, e) # fs) cl su =
     (case snd (end_round buf (Inl e) cl su) of
        None \<Rightarrow> None
      | Some (su, d) \<Rightarrow> map_option (\<lambda>(su, ds). (su, d # ds)) (retries fs cl su))"

lemma backoff_saturates: "backoff (min k (2 ^ 32 - 2)) = backoff k"
proof (cases "k \<le> 2 ^ 32 - 2")
  case False
  have "backoff (min (2 ^ 32 - 2) 6) = backoff (2 ^ 32 - 2)" "backoff (min k 6) = backoff k"
    by (simp_all only: backoff_def min_pow)
  then show ?thesis using False by (simp add: min_def)
qed (simp add: min_def)

lemma retries_schedule:
  assumes "\<not> cl_shutdown cl" "cc_auto_reconnect (cl_config cl)" "\<not> su_ready su"
  shows "\<exists>su' ds. retries fs cl su = Some (su', ds) \<and> length ds = length fs \<and>
    (\<forall>k < length fs. backoff (unat (su_attempt su) + k) \<le> ds ! k \<and> ds ! k < backoff (unat (su_attempt su) + k) + 1500000000)"
  using assms(3)
proof (induction fs arbitrary: su)
  case (Cons f fs)
  obtain buf e where f: "f = (buf, e)" by fastforce
  let ?a = "saturating_add_u32 (su_attempt su) 1"
  let ?su = "\<lparr>su_ready = False, su_attempt = ?a\<rparr>" and ?d = "reconnect_delay ?a + reconnect_jitter buf"
  have r: "end_round buf (Inl e) cl su = (None, Some (?su, ?d))"
    using assms(1,2) Cons.prems by (simp add: end_round_def Let_def)
  obtain su' ds where ds: "retries fs cl ?su = Some (su', ds)" "length ds = length fs"
      "\<forall>k < length fs. backoff (unat ?a + k) \<le> ds ! k \<and> ds ! k < backoff (unat ?a + k) + 1500000000"
    using Cons.IH [of ?su] by auto
  have a: "backoff (unat ?a + k) = backoff (unat (su_attempt su) + Suc k)" for k
  proof (cases "unat (su_attempt su) + 1 < 2 ^ 32")
    case False
    then have u: "unat (su_attempt su) = 2 ^ 32 - 1" using unat_u32_less [of "su_attempt su"] by linarith
    have "backoff (min m 6) = backoff m" for m by (simp only: backoff_def min_pow)
    from this [of "unat ?a + k"] this [of "unat (su_attempt su) + Suc k"] show ?thesis
      by (simp add: unat_saturating_add u)
  qed (simp add: unat_saturating_add)
  have d: "backoff (unat (su_attempt su)) \<le> ?d \<and> ?d < backoff (unat (su_attempt su)) + 1500000000"
    using a [of 0] reconnect_jitter_less [of buf] backoff_saturates [of "unat (su_attempt su)"]
    by (simp add: reconnect_delay_backoff unat_saturating_add min_diff)
  show ?case
    using ds d by (auto simp: f r a less_Suc_eq_0_disj nth_Cons split: nat.splits)
qed simp

text \<open>
  C31. The reconnect schedule. A failed first attempt is reported to the caller of \<open>connect\<close> and never retried. After a
  session the supervisor sleeps 3 s, then, for the k-th failed attempt in a row (from 0), 6, 12, 24 and 30 s and never more, each
  plus less than 1.5 s of jitter, and it never gives up; a session resets the schedule. A closed client
  starts no round, and without auto-reconnect or after a close no round follows. Every round gets a generation different from the last.
\<close>

theorem reconnect_schedule:
  "end_round buf (Inl e) cl supervisor_new = (Some (Inl e), None) \<and>
   (cl_shutdown cl \<or> \<not> cc_auto_reconnect (cl_config cl) \<longrightarrow> snd (end_round buf r cl su) = None) \<and>
   (case begin_round cl of
      None \<Rightarrow> cl_shutdown cl
    | Some (g, cl') \<Rightarrow> \<not> cl_shutdown cl \<and> cl_connection_generation cl' = g \<and> g \<noteq> cl_connection_generation cl) \<and>
   (\<not> cl_shutdown cl \<and> cc_auto_reconnect (cl_config cl) \<longrightarrow>
     (\<exists>su' d. end_round buf (Inr ()) cl su = (if su_ready su then Some (Inr ()) else None, Some (su', d)) \<and>
        from_secs 3 \<le> d \<and> d < from_secs 3 + 1500000000 \<and>
        (\<exists>su'' ds. retries fs cl su' = Some (su'', ds) \<and> length ds = length fs \<and>
           (\<forall>k < length fs. from_secs (min 30 (6 * 2 ^ k)) \<le> ds ! k \<and> ds ! k < from_secs (min 30 (6 * 2 ^ k)) + 1500000000))))"
proof (intro conjI impI)
  show "end_round buf (Inl e) cl supervisor_new = (Some (Inl e), None)"
    by (simp add: end_round_def supervisor_new_def)
  show "snd (end_round buf r cl su) = None" if "cl_shutdown cl \<or> \<not> cc_auto_reconnect (cl_config cl)"
    using that by (auto simp: end_round_def Let_def)
  show "case begin_round cl of
      None \<Rightarrow> cl_shutdown cl
    | Some (g, cl') \<Rightarrow> \<not> cl_shutdown cl \<and> cl_connection_generation cl' = g \<and> g \<noteq> cl_connection_generation cl"
    by (simp add: begin_round_def Let_def)
  assume c: "\<not> cl_shutdown cl \<and> cc_auto_reconnect (cl_config cl)"
  let ?su = "\<lparr>su_ready = False, su_attempt = 1\<rparr>"
  have "saturating_add_u32 0 1 = 1" by (simp add: saturating_add_u32_def)
  then have r: "end_round buf (Inr ()) cl su =
      (if su_ready su then Some (Inr ()) else None, Some (?su, reconnect_delay 1 + reconnect_jitter buf))"
    using c by (simp add: end_round_def Let_def)
  have b: "backoff (Suc k) = from_secs (min 30 (6 * 2 ^ k))" for k by (simp add: backoff_def)
  have "\<exists>su'' ds. retries fs cl ?su = Some (su'', ds) \<and> length ds = length fs \<and>
      (\<forall>k < length fs. from_secs (min 30 (6 * 2 ^ k)) \<le> ds ! k \<and> ds ! k < from_secs (min 30 (6 * 2 ^ k)) + 1500000000)"
    using retries_schedule [of cl ?su fs] c by (simp add: b)
  moreover have "reconnect_delay 1 = from_secs 3" by (simp add: reconnect_delay_backoff backoff_def)
  ultimately show "\<exists>su' d. end_round buf (Inr ()) cl su = (if su_ready su then Some (Inr ()) else None, Some (su', d)) \<and>
      from_secs 3 \<le> d \<and> d < from_secs 3 + 1500000000 \<and>
      (\<exists>su'' ds. retries fs cl su' = Some (su'', ds) \<and> length ds = length fs \<and>
        (\<forall>k < length fs. from_secs (min 30 (6 * 2 ^ k)) \<le> ds ! k \<and> ds ! k < from_secs (min 30 (6 * 2 ^ k)) + 1500000000))"
    using r reconnect_jitter_less [of buf] by simp
qed

theorem reconnect_schedule_witness:
  "\<exists>su d su' ds. end_round None (Inr ()) (client_new ''a'' config_default) supervisor_new = (Some (Inr ()), Some (su, d)) \<and>
     retries (replicate 5 (None, Disconnected)) (client_new ''a'' config_default) su = Some (su', ds) \<and>
     from_secs 6 \<le> ds ! 0 \<and> from_secs 24 \<le> ds ! 2 \<and> from_secs 30 \<le> ds ! 4"
proof -
  let ?cl = "client_new ''a'' config_default" and ?fs = "replicate 5 (None, Disconnected)"
  have c: "\<not> cl_shutdown ?cl \<and> cc_auto_reconnect (cl_config ?cl)" by (simp add: client_new_def config_default_def)
  obtain su d su' ds where r: "end_round None (Inr ()) ?cl supervisor_new = (if su_ready supervisor_new then Some (Inr ()) else None, Some (su, d))"
      "retries ?fs ?cl su = Some (su', ds)"
      "\<forall>k < 5. from_secs (min 30 (6 * 2 ^ k)) \<le> ds ! k"
    using reconnect_schedule [of None Disconnected ?cl "Inr ()" supervisor_new ?fs, THEN conjunct2, THEN conjunct2,
        THEN conjunct2, THEN mp, OF c] by auto
  have "su_ready supervisor_new" by (simp add: supervisor_new_def)
  then show ?thesis
    using r(1,2) r(3) [rule_format, of 0] r(3) [rule_format, of 2] r(3) [rule_format, of 4] by auto
qed

end
