(* ===== verification/Client_Machine.thy ===== *)
theory Client_Machine
  imports Client_Session
begin

section \<open>The client's tasks\<close>

text \<open>
  The client at run time: any number of calls and events in progress, \<open>close\<close>, the supervisor, and for every session it
  established a writer, a heartbeat and a reader task and the handler tasks the reader spawns, over the one shared
  \<open>client\<close> record, as a step relation. One step is a stretch of code between two await points or a part of one. Names
  of oneshot channels and queues are taken from the counter \<open>ma_next\<close>. The logs \<open>ma_started\<close>, \<open>ma_returned\<close> and \<open>ma_received\<close> record
  calls made, calls returned and answers read, and influence no step. A session's disconnect signal is shared by its
  three tasks; the supervisor wakes when one of them sends on it or when all three are gone and it is dropped.
\<close>

subsection \<open>State\<close>

datatype call_kind =
    ApiCall string jvalue "file_attachment list"
  | EventCall string json_map "file_attachment list"

datatype call =
    Checked call_kind
  | Registered msg_key waiter packet_envelope
  | Sending msg_key waiter packet_envelope nat
  | Waiting msg_key waiter nat

datatype role = WriterTask | HeartbeatTask | ReaderTask

datatype task_state =
    Running
  | Ponging bytes
  | Pinging
  | Reporting client_error
  | Signalling client_error
  | Stopped

record session =
  se_generation :: u64
  se_channel :: nat
  se_codec :: frame_codec
  se_task :: "role \<Rightarrow> task_state"
  se_signal :: bool
  se_wire :: "ws_message list"

datatype closer = CloseSend nat | CloseReport

datatype dispatch = Handling packet_envelope | Acking nat client_outbound

datatype sup_stage =
    SuTop
  | SuConnecting u64
  | SuEmitting u64 nat frame_codec
  | SuWaiting
  | SuSleeping duration
  | SuDone

record machine =
  ma_client :: client
  ma_supervisor :: supervisor
  ma_stage :: sup_stage
  ma_ready :: "(client_error + unit) option"
  ma_sessions :: "session list"
  ma_calls :: "call list"
  ma_dropped :: "call list"
  ma_closers :: "closer list"
  ma_dispatches :: "dispatch list"
  ma_next :: nat
  ma_started :: nat
  ma_returned :: "(msg_key option \<times> call_result) list"
  ma_received :: "packet_body list"

definition machine_init :: "client \<Rightarrow> machine" where
  "machine_init cl = \<lparr>ma_client = cl, ma_supervisor = supervisor_new, ma_stage = SuTop, ma_ready = None, ma_sessions = [],
     ma_calls = [], ma_dropped = [], ma_closers = [], ma_dispatches = [], ma_next = 0, ma_started = 0, ma_returned = [], ma_received = []\<rparr>"

subsection \<open>Calls and events\<close>

text \<open>The operations of the two kinds of calls by key.\<close>

fun register_call :: "call_kind \<Rightarrow> waiter \<Rightarrow> client \<Rightarrow> msg_key \<times> packet_envelope \<times> client" where
  "register_call (ApiCall rt params atts) w cl =
     (let (i, cl) = call_register w cl in (RequestKey i, request_packet cl i rt params atts, cl))"
| "register_call (EventCall name data atts) w cl =
     (let (i, cl) = event_register w cl in (EventKey i, client_event_packet cl i name data atts, cl))"

fun ids_left :: "call_kind \<Rightarrow> client \<Rightarrow> bool" where
  "ids_left (ApiCall _ _ _) cl \<longleftrightarrow> cl_next_request_id cl \<noteq> - 1"
| "ids_left (EventCall _ _ _) cl \<longleftrightarrow> cl_next_event_id cl \<noteq> - 1"

fun withdraw_key :: "msg_key \<Rightarrow> client \<Rightarrow> client" where
  "withdraw_key (RequestKey i) cl = call_withdraw i cl"
| "withdraw_key (EventKey i) cl = event_withdraw i cl"

fun call_outcome :: "msg_key \<Rightarrow> waiter \<Rightarrow> client \<Rightarrow> call_result \<times> client" where
  "call_outcome (RequestKey i) w cl = call_end i w cl"
| "call_outcome (EventKey i) w cl = send_event_end i w cl"

definition returns :: "msg_key option \<Rightarrow> call_result \<Rightarrow> machine \<Rightarrow> machine" where
  "returns key r m = m\<lparr>ma_returned := ma_returned m @ [(key, r)]\<rparr>"

text \<open>
  A call that is dropped while it waits leaves its entry in the table: nothing but an answer or a disconnect removes it.
\<close>

inductive call_step :: "machine \<Rightarrow> machine \<Rightarrow> bool" where
  refused: "\<not> cl_is_connected (ma_client m) \<Longrightarrow>
    call_step m (returns None (Inl Disconnected) (m\<lparr>ma_started := Suc (ma_started m)\<rparr>))"
| checked: "cl_is_connected (ma_client m) \<Longrightarrow>
    call_step m (m\<lparr>ma_started := Suc (ma_started m), ma_calls := ma_calls m @ [Checked kind]\<rparr>)"
| register: "\<lbrakk>ma_calls m = cs @ Checked kind # cs'; ids_left kind (ma_client m);
    register_call kind (ma_next m) (ma_client m) = (key, packet, cl)\<rbrakk> \<Longrightarrow>
    call_step m (m\<lparr>ma_client := cl, ma_next := Suc (ma_next m), ma_calls := cs @ Registered key (ma_next m) packet # cs'\<rparr>)"
| no_writer: "\<lbrakk>ma_calls m = cs @ Registered key w packet # cs'; cl_writer (ma_client m) = None\<rbrakk> \<Longrightarrow>
    call_step m (returns (Some key) (Inl Disconnected)
      (m\<lparr>ma_client := withdraw_key key (ma_client m), ma_calls := cs @ cs'\<rparr>))"
| writer: "\<lbrakk>ma_calls m = cs @ Registered key w packet # cs'; cl_writer (ma_client m) = Some ch\<rbrakk> \<Longrightarrow>
    call_step m (m\<lparr>ma_calls := cs @ Sending key w packet ch # cs'\<rparr>)"
| sent: "\<lbrakk>ma_calls m = cs @ Sending key w packet ch # cs';
    send_on ch (ClientPacket packet) (ma_client m) = Some (Inr (), cl)\<rbrakk> \<Longrightarrow>
    call_step m (m\<lparr>ma_client := cl, ma_calls := cs @ Waiting key w ch # cs'\<rparr>)"
| unsent: "\<lbrakk>ma_calls m = cs @ Sending key w packet ch # cs';
    send_on ch (ClientPacket packet) (ma_client m) = Some (Inl e, cl)\<rbrakk> \<Longrightarrow>
    call_step m (returns (Some key) (Inl Disconnected) (m\<lparr>ma_client := withdraw_key key cl, ma_calls := cs @ cs'\<rparr>))"
| outcome: "\<lbrakk>ma_calls m = cs @ Waiting key w ch # cs'; call_outcome key w (ma_client m) = (r, cl)\<rbrakk> \<Longrightarrow>
    call_step m (returns (Some key) r (m\<lparr>ma_client := cl, ma_calls := cs @ cs'\<rparr>))"
| dropped_sending: "ma_calls m = cs @ Sending key w packet ch # cs' \<Longrightarrow>
    call_step m (m\<lparr>ma_calls := cs @ cs', ma_dropped := ma_dropped m @ [Sending key w packet ch]\<rparr>)"
| dropped_waiting: "ma_calls m = cs @ Waiting key w ch # cs' \<Longrightarrow>
    call_step m (m\<lparr>ma_calls := cs @ cs', ma_dropped := ma_dropped m @ [Waiting key w ch]\<rparr>)"

subsection \<open>The tasks of a session\<close>

definition close_queue :: "nat \<Rightarrow> client \<Rightarrow> client" where
  "close_queue ch cl = cl\<lparr>cl_channels := (cl_channels cl)(ch := map_option close_channel (cl_channels cl ch))\<rparr>"

definition goto :: "role \<Rightarrow> task_state \<Rightarrow> session \<Rightarrow> session" where
  "goto r t s = s\<lparr>se_task := (se_task s)(r := t)\<rparr>"

text \<open>A task ends; the receiving half of the queue belongs to the writer task and goes with it.\<close>

definition task_ends :: "role \<Rightarrow> session \<Rightarrow> client \<Rightarrow> client" where
  "task_ends r s cl = (if r = WriterTask then close_queue (se_channel s) cl else cl)"

text \<open>Whether \<open>handle_disconnect\<close> gets past its two checks.\<close>

definition takes_effect :: "u64 \<Rightarrow> client \<Rightarrow> bool" where
  "takes_effect generation cl \<longleftrightarrow> is_connection_generation_active generation cl \<and> cl_is_connected cl"

text \<open>Whether a sending half of the queue exists besides those of the session's own tasks.\<close>

fun holds_sender :: "nat \<Rightarrow> call \<Rightarrow> bool" where
  "holds_sender ch (Sending _ _ _ ch') \<longleftrightarrow> ch' = ch"
| "holds_sender ch _ \<longleftrightarrow> False"

definition senders_gone :: "machine \<Rightarrow> session \<Rightarrow> bool" where
  "senders_gone m s \<longleftrightarrow> se_task s HeartbeatTask = Stopped \<and> se_task s ReaderTask = Stopped \<and>
     cl_writer (ma_client m) \<noteq> Some (se_channel s) \<and> \<not> list_ex (holds_sender (se_channel s)) (ma_calls m) \<and>
     CloseSend (se_channel s) \<notin> set (ma_closers m) \<and> (\<forall>msg. Acking (se_channel s) msg \<notin> set (ma_dispatches m))"

fun dispatch_next :: "packet_envelope \<Rightarrow> client \<Rightarrow> dispatch list" where
  "dispatch_next packet cl =
     (case pe_body packet of
        EventEmit event_id name data attachments meta expect_ack \<Rightarrow>
          (case run_event_handlers cl \<lparr>em_event_id = event_id, em_name = name, em_data = data,
                  em_attachments = attachments, em_metadata = meta\<rparr> of
             Panicked \<Rightarrow> []
           | Returned receipt \<Rightarrow>
               if expect_ack then (case cl_writer cl of
                   Some ch \<Rightarrow> [Acking ch (ClientPacket (ack_packet cl event_id receipt))] | None \<Rightarrow> [])
               else [])
      | _ \<Rightarrow> [])"

definition put_session :: "session list \<Rightarrow> session \<Rightarrow> session list \<Rightarrow> client \<Rightarrow> machine \<Rightarrow> machine" where
  "put_session ss s ss' cl m = m\<lparr>ma_sessions := ss @ s # ss', ma_client := cl\<rparr>"

inductive session_step :: "externals \<Rightarrow> (client_error \<Rightarrow> string) \<Rightarrow> machine \<Rightarrow> machine \<Rightarrow> bool" for X sh where
  write_out: "\<lbrakk>ma_sessions m = ss @ s # ss'; se_task s WriterTask = Running; cl_channels (ma_client m) (se_channel s) = Some ch;
    recv ch = Some (msg, ch'); client_write X rnd (se_codec s) net msg = (frames, broken)\<rbrakk> \<Longrightarrow>
    session_step X sh m (put_session ss
      (goto WriterTask (case broken of None \<Rightarrow> Running | Some e \<Rightarrow> Reporting e) (s\<lparr>se_wire := se_wire s @ frames\<rparr>)) ss'
      ((ma_client m)\<lparr>cl_channels := (cl_channels (ma_client m))(se_channel s \<mapsto> ch')\<rparr>) m)"
| writer_drained: "\<lbrakk>ma_sessions m = ss @ s # ss'; se_task s WriterTask = Running; cl_channels (ma_client m) (se_channel s) = Some ch;
    ch_queue ch = []; senders_gone m s\<rbrakk> \<Longrightarrow>
    session_step X sh m (put_session ss (goto WriterTask (Reporting (ConnectionClosed ''writer loop stopped'')) s) ss' (ma_client m) m)"
| tick: "\<lbrakk>ma_sessions m = ss @ s # ss'; se_task s HeartbeatTask = Running\<rbrakk> \<Longrightarrow>
    session_step X sh m (put_session ss (goto HeartbeatTask
      (if is_connection_generation_active (se_generation s) (ma_client m) then Pinging else Stopped) s) ss' (ma_client m) m)"
| ping: "\<lbrakk>ma_sessions m = ss @ s # ss'; se_task s HeartbeatTask = Pinging;
    send_on (se_channel s) (ClientPing []) (ma_client m) = Some (r, cl)\<rbrakk> \<Longrightarrow>
    session_step X sh m (put_session ss (goto HeartbeatTask
      (case r of Inr _ \<Rightarrow> Running | Inl _ \<Rightarrow> Reporting (ConnectionClosed ''heartbeat stopped'')) s) ss' cl m)"
| read_answer: "\<lbrakk>ma_sessions m = ss @ s # ss'; se_task s ReaderTask = Running;
    client_read X (se_codec s) nxt = Dispatch packet; handle_packet packet (ma_client m) = Some cl\<rbrakk> \<Longrightarrow>
    session_step X sh m ((put_session ss s ss' cl m)\<lparr>ma_received := ma_received m @ [pe_body packet]\<rparr>)"
| read_event: "\<lbrakk>ma_sessions m = ss @ s # ss'; se_task s ReaderTask = Running;
    client_read X (se_codec s) nxt = SpawnDispatch packet\<rbrakk> \<Longrightarrow>
    session_step X sh m (m\<lparr>ma_dispatches := ma_dispatches m @ [Handling packet]\<rparr>)"
| read_ping: "\<lbrakk>ma_sessions m = ss @ s # ss'; se_task s ReaderTask = Running;
    client_read X (se_codec s) nxt = QueueClientPong payload\<rbrakk> \<Longrightarrow>
    session_step X sh m (put_session ss (goto ReaderTask (Ponging payload) s) ss' (ma_client m) m)"
| read_skip: "\<lbrakk>ma_sessions m = ss @ s # ss'; se_task s ReaderTask = Running; client_read X (se_codec s) nxt = Skip\<rbrakk> \<Longrightarrow>
    session_step X sh m m"
| read_ends: "\<lbrakk>ma_sessions m = ss @ s # ss'; se_task s ReaderTask = Running;
    client_read X (se_codec s) nxt = EndClientReader e\<rbrakk> \<Longrightarrow>
    session_step X sh m (put_session ss (goto ReaderTask (Reporting e) s) ss' (ma_client m) m)"
| pong: "\<lbrakk>ma_sessions m = ss @ s # ss'; se_task s ReaderTask = Ponging payload;
    send_on (se_channel s) (ClientPong payload) (ma_client m) = Some (r, cl)\<rbrakk> \<Longrightarrow>
    session_step X sh m (put_session ss (goto ReaderTask
      (case r of Inr _ \<Rightarrow> Running | Inl _ \<Rightarrow> Reporting (ConnectionClosed ''failed to queue pong response'')) s) ss' cl m)"
| report: "\<lbrakk>ma_sessions m = ss @ s # ss'; se_task s r = Reporting e; takes_effect (se_generation s) (ma_client m)\<rbrakk> \<Longrightarrow>
    session_step X sh m (put_session ss (goto r (Signalling e) s) ss'
      (handle_disconnect sh (se_generation s) e (ma_client m)) m)"
| report_late: "\<lbrakk>ma_sessions m = ss @ s # ss'; se_task s r = Reporting e; \<not> takes_effect (se_generation s) (ma_client m)\<rbrakk> \<Longrightarrow>
    session_step X sh m (put_session ss (goto r Stopped s) ss'
      (task_ends r s (handle_disconnect sh (se_generation s) e (ma_client m))) m)"
| signal: "\<lbrakk>ma_sessions m = ss @ s # ss'; se_task s r = Signalling e\<rbrakk> \<Longrightarrow>
    session_step X sh m (put_session ss ((goto r Stopped s)\<lparr>se_signal := True\<rparr>) ss' (task_ends r s (ma_client m)) m)"
| run_handlers: "ma_dispatches m = ds @ Handling packet # ds' \<Longrightarrow>
    session_step X sh m (m\<lparr>ma_dispatches := ds @ dispatch_next packet (ma_client m) @ ds'\<rparr>)"
| ack: "\<lbrakk>ma_dispatches m = ds @ Acking ch msg # ds'; send_on ch msg (ma_client m) = Some (r, cl)\<rbrakk> \<Longrightarrow>
    session_step X sh m (m\<lparr>ma_dispatches := ds @ ds', ma_client := cl\<rparr>)"

subsection \<open>Closing, the supervisor and the application\<close>

inductive close_step :: "(client_error \<Rightarrow> string) \<Rightarrow> machine \<Rightarrow> machine \<Rightarrow> bool" for sh where
  close: "close_step sh m (m\<lparr>ma_client := (ma_client m)\<lparr>cl_shutdown := True\<rparr>,
      ma_closers := ma_closers m @ [case cl_writer (ma_client m) of Some ch \<Rightarrow> CloseSend ch | None \<Rightarrow> CloseReport]\<rparr>)"
| close_sent: "\<lbrakk>ma_closers m = xs @ CloseSend ch # xs'; send_on ch ClientClose (ma_client m) = Some (r, cl)\<rbrakk> \<Longrightarrow>
    close_step sh m (m\<lparr>ma_client := cl, ma_closers := xs @ CloseReport # xs'\<rparr>)"
| closed: "ma_closers m = xs @ CloseReport # xs' \<Longrightarrow>
    close_step sh m (m\<lparr>ma_client :=
        handle_disconnect sh (cl_connection_generation (ma_client m)) Disconnected (ma_client m), ma_closers := xs @ xs'\<rparr>)"

definition after_round :: "(supervisor \<times> duration) option \<Rightarrow> machine \<Rightarrow> machine" where
  "after_round next m =
     (case next of None \<Rightarrow> m\<lparr>ma_stage := SuDone\<rparr> | Some (su, d) \<Rightarrow> m\<lparr>ma_supervisor := su, ma_stage := SuSleeping d\<rparr>)"

definition woken :: "session \<Rightarrow> bool" where
  "woken s \<longleftrightarrow> se_signal s \<or> (\<forall>r. se_task s r = Stopped)"

inductive supervisor_step :: "externals \<Rightarrow> machine \<Rightarrow> machine \<Rightarrow> bool" for X where
  over: "\<lbrakk>ma_stage m = SuTop; begin_round (ma_client m) = None\<rbrakk> \<Longrightarrow> supervisor_step X m (m\<lparr>ma_stage := SuDone\<rparr>)"
| round: "\<lbrakk>ma_stage m = SuTop; cl_connection_generation (ma_client m) \<noteq> - 1; begin_round (ma_client m) = Some (g, cl)\<rbrakk> \<Longrightarrow>
    supervisor_step X m (m\<lparr>ma_client := cl, ma_stage := SuConnecting g\<rparr>)"
| fails: "\<lbrakk>ma_stage m = SuConnecting g;
    establish_connection X r1 r2 reach n1 f1 n2 f2 (ma_next m) (ma_client m) = (Inl e, cl);
    end_round buf (Inl e) cl (ma_supervisor m) = (ready, next)\<rbrakk> \<Longrightarrow>
    supervisor_step X m (after_round next (m\<lparr>ma_client := cl, ma_ready := (if ready = None then ma_ready m else ready)\<rparr>))"
| establishes: "\<lbrakk>ma_stage m = SuConnecting g;
    establish_connection X r1 r2 reach n1 f1 n2 f2 (ma_next m) (ma_client m) = (Inr codec, cl)\<rbrakk> \<Longrightarrow>
    supervisor_step X m (m\<lparr>ma_client := cl, ma_next := Suc (ma_next m), ma_stage := SuEmitting g (ma_next m) codec\<rparr>)"
| spawn: "ma_stage m = SuEmitting g ch codec \<Longrightarrow>
    supervisor_step X m (m\<lparr>ma_sessions := ma_sessions m @
        [\<lparr>se_generation = g, se_channel = ch, se_codec = codec, se_task = (\<lambda>_. Running), se_signal = False, se_wire = []\<rparr>],
      ma_ready := (if su_ready (ma_supervisor m) then Some (Inr ()) else ma_ready m),
      ma_supervisor := \<lparr>su_ready = False, su_attempt = 0\<rparr>, ma_stage := SuWaiting\<rparr>)"
| wakes: "\<lbrakk>ma_stage m = SuWaiting; ma_sessions m = ss @ [s]; woken s;
    end_round buf (Inr ()) (ma_client m) (ma_supervisor m) = (ready, next)\<rbrakk> \<Longrightarrow>
    supervisor_step X m (after_round next m)"
| slept: "ma_stage m = SuSleeping d \<Longrightarrow> supervisor_step X m (m\<lparr>ma_stage := SuTop\<rparr>)"

text \<open>The application has the client only once \<open>connect\<close> has returned it.\<close>

inductive client_step :: "externals \<Rightarrow> (client_error \<Rightarrow> string) \<Rightarrow> machine \<Rightarrow> machine \<Rightarrow> bool" for X sh where
  session: "session_step X sh m m' \<Longrightarrow> client_step X sh m m'"
| supervisor: "supervisor_step X m m' \<Longrightarrow> client_step X sh m m'"
| call: "\<lbrakk>ma_ready m = Some (Inr ()); call_step m m'\<rbrakk> \<Longrightarrow> client_step X sh m m'"
| closing: "\<lbrakk>ma_ready m = Some (Inr ()); close_step sh m m'\<rbrakk> \<Longrightarrow> client_step X sh m m'"
| event_handler: "ma_ready m = Some (Inr ()) \<Longrightarrow> client_step X sh m (m\<lparr>ma_client := on_event name h (ma_client m)\<rparr>)"
| connected_handler: "ma_ready m = Some (Inr ()) \<Longrightarrow> client_step X sh m (m\<lparr>ma_client := client_on_connected hn (ma_client m)\<rparr>)"
| disconnected_handler: "ma_ready m = Some (Inr ()) \<Longrightarrow> client_step X sh m (m\<lparr>ma_client := client_on_disconnected hn (ma_client m)\<rparr>)"

subsection \<open>Connecting\<close>

definition connect :: "string \<Rightarrow> client_config \<Rightarrow> machine" where
  "connect url config = machine_init (client_new url config)"

text \<open>What \<open>connect\<close> returns: the supervisor's message, or an error when the supervisor ended without one.\<close>

definition connect_result :: "machine \<Rightarrow> (client_error + unit) option" where
  "connect_result m =
     (case ma_ready m of
        Some r \<Rightarrow> Some r
      | None \<Rightarrow> if ma_stage m = SuDone then Some (Inl (ConnectionClosed ''connection setup task stopped unexpectedly'')) else None)"

definition connect_plaintext :: "string \<Rightarrow> machine" where
  "connect_plaintext url = connect url config_plaintext"

definition connect_with_auto_reconnect :: "string \<Rightarrow> bool \<Rightarrow> machine" where
  "connect_with_auto_reconnect url auto_reconnect = connect url (with_auto_reconnect auto_reconnect config_plaintext)"

definition connect_with_chacha20 :: "string \<Rightarrow> bytes \<Rightarrow> machine" where
  "connect_with_chacha20 url key = connect url (config_psk_chacha20 key)"

definition connect_with_aes256 :: "string \<Rightarrow> bytes \<Rightarrow> machine" where
  "connect_with_aes256 url key = connect url (config_psk_aes256 key)"

definition connect_with_ecdh :: "string \<Rightarrow> machine" where
  "connect_with_ecdh url = connect url config_default"

subsection \<open>Effects on the shared record\<close>

text \<open>
  Steps that leave waiters, results, session and counters as they are; they may queue or take a message, register a handler or set
  the shutdown flag.
\<close>

definition queue_open :: "client \<Rightarrow> nat \<Rightarrow> bool" where
  "queue_open cl ch \<longleftrightarrow> (\<exists>c. cl_channels cl ch = Some c \<and> ch_open c)"

definition quiet :: "client \<Rightarrow> client \<Rightarrow> bool" where
  "quiet cl cl' \<longleftrightarrow> waiting cl' = waiting cl \<and> cl_results cl' = cl_results cl \<and> cl_writer cl' = cl_writer cl \<and>
     cl_is_connected cl' = cl_is_connected cl \<and> cl_connection_generation cl' = cl_connection_generation cl \<and>
     cl_next_request_id cl' = cl_next_request_id cl \<and> cl_next_event_id cl' = cl_next_event_id cl \<and>
     (cl_shutdown cl \<longrightarrow> cl_shutdown cl') \<and> (client_ok cl \<longrightarrow> client_ok cl') \<and>
     dom (cl_channels cl') = dom (cl_channels cl) \<and> queue_open cl' = queue_open cl"

lemma quiet_refl [simp]: "quiet cl cl"
  by (simp add: quiet_def)

lemma quiet_channel:
  assumes "cl_channels cl w = Some ch" "ch_open ch' = ch_open ch" "ch_capacity ch' = ch_capacity ch" "channel_ok ch \<longrightarrow> channel_ok ch'"
  shows "quiet cl (cl\<lparr>cl_channels := (cl_channels cl)(w \<mapsto> ch')\<rparr>)"
  using assms by (auto simp: quiet_def client_ok_def tables_ok_def session_ok_def queue_open_def fun_eq_iff)

lemma quiet_send_on: "send_on w msg cl = Some (r, cl') \<Longrightarrow> quiet cl cl'"
  by (auto simp: send_on_def send_def try_send_def split: option.splits sum.splits if_splits
      intro!: quiet_channel) (auto simp: channel_ok_def)

lemma quiet_recv:
  "cl_channels cl w = Some ch \<Longrightarrow> recv ch = Some (msg, ch') \<Longrightarrow> quiet cl (cl\<lparr>cl_channels := (cl_channels cl)(w \<mapsto> ch')\<rparr>)"
  by (erule quiet_channel) (auto simp: recv_def channel_ok_def split: list.splits)

lemma waiting_frame:
  "cl_pending_api cl' = cl_pending_api cl \<Longrightarrow> cl_pending_event cl' = cl_pending_event cl \<Longrightarrow> waiting cl' = waiting cl"
  by (rule waiting_eqI) simp_all

lemma waiting_fields [simp]:
  "waiting (cl\<lparr>cl_event_handlers := a\<rparr>) = waiting cl" "waiting (cl\<lparr>cl_connected_handlers := b\<rparr>) = waiting cl"
  "waiting (cl\<lparr>cl_disconnected_handlers := b\<rparr>) = waiting cl" "waiting (cl\<lparr>cl_handler_calls := c\<rparr>) = waiting cl"
  "waiting (cl\<lparr>cl_shutdown := d\<rparr>) = waiting cl" "waiting (cl\<lparr>cl_last_url_idx := n\<rparr>) = waiting cl"
  "waiting (cl\<lparr>cl_writer := v\<rparr>) = waiting cl" "waiting (cl\<lparr>cl_is_connected := d\<rparr>) = waiting cl"
  "waiting (cl\<lparr>cl_connection_generation := g\<rparr>) = waiting cl"
  by (rule waiting_frame; simp)+

lemma quiet_fields:
  "quiet cl (cl\<lparr>cl_event_handlers := a\<rparr>)" "quiet cl (cl\<lparr>cl_connected_handlers := b\<rparr>)" "quiet cl (cl\<lparr>cl_disconnected_handlers := b\<rparr>)"
  "quiet cl (cl\<lparr>cl_handler_calls := c\<rparr>)" "quiet cl (cl\<lparr>cl_shutdown := True\<rparr>)"
  by (simp_all add: quiet_def client_ok_def tables_ok_def session_ok_def queue_open_def fun_eq_iff)

lemma quiet_trans: "quiet a b \<Longrightarrow> quiet b c \<Longrightarrow> quiet a c"
  by (simp add: quiet_def)

lemma quiet_handlers: "quiet cl (on_event name h cl)" "quiet cl (client_on_connected hn cl)" "quiet cl (client_on_disconnected hn cl)"
  by (auto simp: on_event_def client_on_connected_def client_on_disconnected_def Let_def
      intro: quiet_fields quiet_trans [OF quiet_fields(2) quiet_fields(4)])

lemma close_channel_ok: "channel_ok (close_channel ch)" "ch_capacity (close_channel ch) = ch_capacity ch"
  by (simp_all add: close_channel_def channel_ok_def)

lemma client_ok_close_queue: "client_ok cl \<Longrightarrow> client_ok (close_queue w cl)"
  by (auto simp: close_queue_def client_ok_def tables_ok_def session_ok_def close_channel_ok split: if_splits)

lemma close_queue_simps [simp]:
  "waiting (close_queue w cl) = waiting cl" "cl_results (close_queue w cl) = cl_results cl" "cl_writer (close_queue w cl) = cl_writer cl"
  "cl_is_connected (close_queue w cl) = cl_is_connected cl" "cl_connection_generation (close_queue w cl) = cl_connection_generation cl"
  "cl_next_request_id (close_queue w cl) = cl_next_request_id cl" "cl_next_event_id (close_queue w cl) = cl_next_event_id cl"
  "cl_shutdown (close_queue w cl) = cl_shutdown cl" "dom (cl_channels (close_queue w cl)) = dom (cl_channels cl)"
  "queue_open (close_queue w cl) ch \<longleftrightarrow> ch \<noteq> w \<and> queue_open cl ch"
  by (auto simp: close_queue_def queue_open_def close_channel_def split: if_splits)

lemma withdraw_key_simps [simp]:
  "cl_results (withdraw_key k cl) = cl_results cl" "cl_writer (withdraw_key k cl) = cl_writer cl"
  "cl_is_connected (withdraw_key k cl) = cl_is_connected cl" "cl_connection_generation (withdraw_key k cl) = cl_connection_generation cl"
  "cl_next_request_id (withdraw_key k cl) = cl_next_request_id cl" "cl_next_event_id (withdraw_key k cl) = cl_next_event_id cl"
  "cl_shutdown (withdraw_key k cl) = cl_shutdown cl" "cl_channels (withdraw_key k cl) = cl_channels cl"
  by (cases k; simp add: call_withdraw_def event_withdraw_def)+

lemma withdraw_key_waiting: "waiting (withdraw_key k cl) = (waiting cl)(k := None)"
  by (cases k) (simp_all add: calls.withdraw_waiting events.withdraw_waiting)

lemma withdraw_key_ok: "client_ok cl \<Longrightarrow> client_ok (withdraw_key k cl)"
  by (cases k) (simp_all add: withdraw_ok)

lemma resolve_key_simps [simp]:
  "cl_writer (resolve_key k r cl) = cl_writer cl" "cl_is_connected (resolve_key k r cl) = cl_is_connected cl"
  "cl_connection_generation (resolve_key k r cl) = cl_connection_generation cl"
  "cl_next_request_id (resolve_key k r cl) = cl_next_request_id cl" "cl_next_event_id (resolve_key k r cl) = cl_next_event_id cl"
  "cl_shutdown (resolve_key k r cl) = cl_shutdown cl" "cl_channels (resolve_key k r cl) = cl_channels cl"
  by (cases k; simp add: resolve_api_def resolve_event_def split: prod.split)+


lemma disconnect_simps [simp]:
  "cl_connection_generation (handle_disconnect sh g e cl) = cl_connection_generation cl"
  "cl_next_request_id (handle_disconnect sh g e cl) = cl_next_request_id cl"
  "cl_next_event_id (handle_disconnect sh g e cl) = cl_next_event_id cl"
  "cl_shutdown (handle_disconnect sh g e cl) = cl_shutdown cl" "cl_channels (handle_disconnect sh g e cl) = cl_channels cl"
  "cl_config (handle_disconnect sh g e cl) = cl_config cl"
  by (simp_all add: handle_disconnect_def emit_disconnected_def Let_def split: prod.split)

lemma disconnect_ignored: "\<not> takes_effect g cl \<Longrightarrow> handle_disconnect sh g e cl = cl"
  by (auto simp: takes_effect_def handle_disconnect_def)

lemma disconnect_effect:
  assumes "client_ok cl" "takes_effect g cl"
  shows "client_ok (handle_disconnect sh g e cl)" "\<not> cl_is_connected (handle_disconnect sh g e cl)"
    "cl_writer (handle_disconnect sh g e cl) = None" "waiting (handle_disconnect sh g e cl) = Map.empty"
    "cl_results (handle_disconnect sh g e cl) =
      (\<lambda>w. if \<exists>k. waiting cl k = Some w then Some (Inl (ConnectionClosed (client_disconnect_reason sh e))) else cl_results cl w)"
proof -
  have t: "tables_ok cl" and s: "session_ok cl" using assms(1) by (simp_all add: client_ok_def)
  have c: "cl_is_connected cl" and g: "g = cl_connection_generation cl"
    using assms(2) by (simp_all add: takes_effect_def is_connection_generation_active_def)
  note eq = handle_disconnect_eq [OF t c g, of sh e]
  show "waiting (handle_disconnect sh g e cl) = Map.empty" by (rule waiting_eqI) (simp_all add: eq)
  show "client_ok (handle_disconnect sh g e cl)" "\<not> cl_is_connected (handle_disconnect sh g e cl)"
    "cl_writer (handle_disconnect sh g e cl) = None"
    "cl_results (handle_disconnect sh g e cl) =
      (\<lambda>w. if \<exists>k. waiting cl k = Some w then Some (Inl (ConnectionClosed (client_disconnect_reason sh e))) else cl_results cl w)"
    using s by (simp_all add: eq client_ok_def tables_ok_def waits_ok_def session_ok_def)
qed

lemma register_call_simps:
  assumes "register_call kind w cl = (key, p, cl')"
  shows "cl_results cl' = cl_results cl" "cl_writer cl' = cl_writer cl" "cl_is_connected cl' = cl_is_connected cl"
    "cl_connection_generation cl' = cl_connection_generation cl" "cl_shutdown cl' = cl_shutdown cl" "cl_channels cl' = cl_channels cl"
    "waiting cl' = (waiting cl)(key \<mapsto> w)"
  using assms calls.register_waiting [of w cl] events.register_waiting [of w cl]
  by (cases kind; simp add: call_register_def event_register_def Let_def; fastforce)+

definition key_used :: "client \<Rightarrow> msg_key \<Rightarrow> bool" where
  "key_used cl k \<longleftrightarrow> (case k of RequestKey i \<Rightarrow> i \<le> cl_next_request_id cl | EventKey i \<Rightarrow> i \<le> cl_next_event_id cl)"

lemma key_used_frame:
  "cl_next_request_id cl' = cl_next_request_id cl \<Longrightarrow> cl_next_event_id cl' = cl_next_event_id cl \<Longrightarrow> key_used cl' = key_used cl"
  by (auto simp: key_used_def fun_eq_iff split: msg_key.split)

lemma register_call_key:
  assumes "register_call kind w cl = (key, p, cl')" "ids_left kind cl"
  shows "key_used cl' key" "\<not> key_used cl key" "key_used cl k \<Longrightarrow> key_used cl' k"
  using assms u64_next_greater [of "cl_next_request_id cl"] u64_next_greater [of "cl_next_event_id cl"]
  by (cases kind; force simp: call_register_def event_register_def Let_def key_used_def add.commute less_imp_le split: msg_key.splits)+

lemma register_call_ok:
  assumes "register_call kind w cl = (key, p, cl')" "ids_left kind cl" "client_ok cl" "fresh_waiter w cl"
  shows "client_ok cl'"
  using assms register_ok_api [OF assms(3,4)] register_ok_event [OF assms(3,4)]
  by (cases kind) (auto simp: call_register_def event_register_def Let_def)

lemma install_effect:
  assumes "client_ok cl"
  shows "client_ok (install_session w cl)" "waiting (install_session w cl) = waiting cl"
    "cl_results (install_session w cl) = cl_results cl" "cl_writer (install_session w cl) = Some w"
    "cl_is_connected (install_session w cl)" "cl_connection_generation (install_session w cl) = cl_connection_generation cl"
    "cl_shutdown (install_session w cl) = cl_shutdown cl" "cl_next_request_id (install_session w cl) = cl_next_request_id cl"
    "cl_next_event_id (install_session w cl) = cl_next_event_id cl" "dom (cl_channels (install_session w cl)) = insert w (dom (cl_channels cl))"
    "queue_open (install_session w cl) ch \<longleftrightarrow> ch = w \<or> queue_open cl ch"
  using assms by (auto simp: install_session_def emit_connected_def Let_def client_ok_def tables_ok_def session_ok_def
      queue_open_def channel_new_def channel_ok_new [unfolded channel_new_def] simp del: length_greater_0_conv intro!: waiting_frame)

lemma connect_any_quiet: "client_ok cl \<Longrightarrow> connect_any reach cl = (r, cl') \<Longrightarrow> quiet cl cl' \<and> cl_config cl' = cl_config cl"
proof -
  assume a: "client_ok cl" "connect_any reach cl = (r, cl')"
  let ?is = "map (\<lambda>offset. (cl_last_url_idx cl + offset) mod length (cl_urls cl)) [0..<length (cl_urls cl)]"
  have "quiet cl (cl\<lparr>cl_last_url_idx := i\<rparr>)" if i: "try_urls reach (cl_urls cl) ?is None = Inr i" for i
  proof -
    obtain k where "k < length ?is" "i = ?is ! k" using try_urls_reached [OF i] by blast
    moreover have "0 < length (cl_urls cl)" using a(1) by (auto simp: client_ok_def session_ok_def)
    ultimately have "i < length (cl_urls cl)" by simp
    then show ?thesis using a(1) by (simp add: quiet_def client_ok_def tables_ok_def session_ok_def queue_open_def fun_eq_iff)
  qed
  then show ?thesis using a(2) by (auto simp: connect_any_def Let_def split: sum.splits)
qed


subsection \<open>Calls and the tables\<close>

fun entry :: "call \<Rightarrow> (msg_key \<times> waiter) list" where
  "entry (Checked _) = []"
| "entry (Registered k w _) = [(k, w)]"
| "entry (Sending k w _ _) = [(k, w)]"
| "entry (Waiting k w _) = [(k, w)]"

definition entries :: "call list \<Rightarrow> (msg_key \<times> waiter) list" where
  "entries cs = concat (map entry cs)"

lemma entries_simps [simp]: "entries [] = []" "entries (c # cs) = entry c @ entries cs" "entries (cs @ cs') = entries cs @ entries cs'"
  by (simp_all add: entries_def)

text \<open>A result is the answer of a packet that was read, or reports the end of the session.\<close>

definition justified :: "packet_body list \<Rightarrow> msg_key \<Rightarrow> call_result \<Rightarrow> bool" where
  "justified received k r \<longleftrightarrow> (\<exists>b \<in> set received. answer_of b = Some (k, r)) \<or> (\<exists>reason. r = Inl (ConnectionClosed reason))"

definition tracked :: "client \<Rightarrow> (msg_key \<times> waiter) list \<Rightarrow> nat \<Rightarrow> packet_body list \<Rightarrow> bool" where
  "tracked cl es n received \<longleftrightarrow> distinct (map fst es) \<and> distinct (map snd es) \<and>
     (\<forall>(k, w) \<in> set es. w < n \<and> key_used cl k \<and> (waiting cl k = Some w \<or> (\<exists>r. cl_results cl w = Some r \<and> justified received k r))) \<and>
     (\<forall>k w. waiting cl k = Some w \<longrightarrow> (k, w) \<in> set es) \<and> (\<forall>w. cl_results cl w \<noteq> None \<longrightarrow> w < n)"

lemma trackedD:
  assumes "tracked cl es n received"
  shows "distinct (map fst es)" "distinct (map snd es)" "(k, w) \<in> set es \<Longrightarrow> w < n" "(k, w) \<in> set es \<Longrightarrow> key_used cl k"
    "(k, w) \<in> set es \<Longrightarrow> waiting cl k = Some w \<or> (\<exists>r. cl_results cl w = Some r \<and> justified received k r)"
    "waiting cl k = Some w \<Longrightarrow> (k, w) \<in> set es" "cl_results cl w \<noteq> None \<Longrightarrow> w < n"
  using assms by (auto simp: tracked_def)

lemma tracked_frame:
  assumes "tracked cl es n received" "waiting cl' = waiting cl" "cl_results cl' = cl_results cl"
    and "cl_next_request_id cl' = cl_next_request_id cl" "cl_next_event_id cl' = cl_next_event_id cl" "n \<le> n'"
  shows "tracked cl' es n' received"
proof -
  have "key_used cl' = key_used cl" by (rule key_used_frame [OF assms(4,5)])
  then show ?thesis using assms(1-3,6) unfolding tracked_def by (fastforce elim: less_le_trans)
qed

lemma tracked_mset: "tracked cl es n received \<Longrightarrow> mset es' = mset es \<Longrightarrow> tracked cl es' n received"
proof -
  assume a: "tracked cl es n received" "mset es' = mset es"
  have "mset (map fst es') = mset (map fst es)" "mset (map snd es') = mset (map snd es)" "set es' = set es"
    using a(2) by (metis mset_map, metis mset_map, metis set_mset_mset)
  then have "distinct (map fst es') = distinct (map fst es)" "distinct (map snd es') = distinct (map snd es)"
    by (metis mset_eq_imp_distinct_iff)+
  with a(1) \<open>set es' = set es\<close> show ?thesis by (simp add: tracked_def)
qed

lemma tracked_fresh:
  assumes "tracked cl es n received" "client_ok cl"
  shows "fresh_waiter n cl"
proof -
  have "waiting cl k \<noteq> Some n" for k using trackedD(3) [OF assms(1) trackedD(6) [OF assms(1)], of k n] by blast
  moreover have "cl_results cl n = None" using trackedD(7) [OF assms(1), of n] by blast
  ultimately show ?thesis
    using waiting_waiters [of cl n] assms(2) by (simp add: fresh_waiter_def client_ok_def)
qed

lemma tracked_register:
  assumes "tracked cl es n received" "register_call kind n cl = (k, p, cl')" "ids_left kind cl"
  shows "tracked cl' ((k, n) # es) (Suc n) received"
proof -
  note r = register_call_simps [OF assms(2)] and u = register_call_key [OF assms(2,3)] and t = trackedD [OF assms(1)]
  have new: "k \<notin> fst ` set es" "n \<notin> snd ` set es" using u(2) t(3,4) by fastforce+
  show ?thesis
    unfolding tracked_def
  proof (intro conjI)
    show "\<forall>(k', w) \<in> set ((k, n) # es). w < Suc n \<and> key_used cl' k' \<and>
        (waiting cl' k' = Some w \<or> (\<exists>r. cl_results cl' w = Some r \<and> justified received k' r))"
    proof (intro ballI, clarify)
      fix k' w assume m: "(k', w) \<in> set ((k, n) # es)"
      show "w < Suc n \<and> key_used cl' k' \<and> (waiting cl' k' = Some w \<or> (\<exists>r. cl_results cl' w = Some r \<and> justified received k' r))"
      proof (cases "(k', w) = (k, n)")
        case False
        then have e: "(k', w) \<in> set es" using m by auto
        then have "k' \<noteq> k" using new(1) by force
        then show ?thesis using t(3,4,5) [OF e] u(3) r(1,7) by (auto simp: less_SucI)
      qed (simp add: u(1) r(7))
    qed
    show "\<forall>k' w. waiting cl' k' = Some w \<longrightarrow> (k', w) \<in> set ((k, n) # es)" using t(6) by (simp add: r(7))
    show "\<forall>w. cl_results cl' w \<noteq> None \<longrightarrow> w < Suc n" using t(7) by (simp add: r(1) less_SucI)
  qed (use new t(1,2) in simp_all)
qed

lemma tracked_withdraw:
  assumes "tracked cl ((k, w) # es) n received"
  shows "tracked (withdraw_key k cl) es n received"
proof -
  note t = trackedD [OF assms]
  have ne: "k' \<noteq> k" if "(k', w') \<in> set es" for k' w' using t(1) that by force
  have ku: "key_used (withdraw_key k cl) = key_used cl" by (rule key_used_frame) simp_all
  show ?thesis
    using assms ne unfolding tracked_def ku by (auto simp: withdraw_key_waiting split: if_splits)
qed

lemma tracked_done:
  assumes "tracked cl ((k, w) # es) n received" "waiting cl k \<noteq> Some w"
  shows "tracked cl es n received"
  using assms by (auto simp: tracked_def)


lemma tracked_resolve:
  assumes "tracked cl es n received" "answer_of b = Some (k, r)"
  shows "tracked (resolve_key k r cl) es n (received @ [b])"
proof -
  note t = trackedD [OF assms(1)]
  have ku: "key_used (resolve_key k r cl) = key_used cl" by (rule key_used_frame) simp_all
  have j: "justified (received @ [b]) k r" "justified received k' r' \<Longrightarrow> justified (received @ [b]) k' r'" for k' r'
    using assms(2) by (auto simp: justified_def)
  have same: "k' = k" if "(k', w') \<in> set es" "waiting cl k = Some w'" for k' w'
    using t(2) t(6) [OF that(2)] that(1) inj_onD [of snd "set es" "(k, w')" "(k', w')"] by (simp add: distinct_map)
  show ?thesis
    unfolding tracked_def ku
  proof (intro conjI)
    show "\<forall>(k', w) \<in> set es. w < n \<and> key_used cl k' \<and> (waiting (resolve_key k r cl) k' = Some w \<or>
        (\<exists>r'. cl_results (resolve_key k r cl) w = Some r' \<and> justified (received @ [b]) k' r'))"
    proof (intro ballI, clarify)
      fix k' w assume e: "(k', w) \<in> set es"
      show "w < n \<and> key_used cl k' \<and> (waiting (resolve_key k r cl) k' = Some w \<or>
        (\<exists>r'. cl_results (resolve_key k r cl) w = Some r' \<and> justified (received @ [b]) k' r'))"
        using t(3-5) [OF e] same [OF e] j
        by (auto simp: resolve_key_waiting resolve_key_results split: option.split)
    qed
    show "\<forall>k' w. waiting (resolve_key k r cl) k' = Some w \<longrightarrow> (k', w) \<in> set es" using t(6) by (simp add: resolve_key_waiting)
    show "\<forall>w. cl_results (resolve_key k r cl) w \<noteq> None \<longrightarrow> w < n"
      using t(3,6,7) by (auto simp: resolve_key_results split: option.splits if_splits)
  qed (fact t(1), fact t(2))
qed

lemma tracked_disconnect:
  assumes "tracked cl es n received" "client_ok cl" "takes_effect g cl"
  shows "tracked (handle_disconnect sh g e cl) es n received"
proof -
  note t = trackedD [OF assms(1)] and d = disconnect_effect [OF assms(2,3), of sh e]
  have ku: "key_used (handle_disconnect sh g e cl) = key_used cl" by (rule key_used_frame) simp_all
  have j: "justified received k (Inl (ConnectionClosed x))" for k x by (simp add: justified_def)
  show ?thesis
    unfolding tracked_def ku d(4,5)
  proof (intro conjI)
    show "\<forall>(k, w) \<in> set es. w < n \<and> key_used cl k \<and> (Map.empty k = Some w \<or> (\<exists>r.
        (if \<exists>k. waiting cl k = Some w then Some (Inl (ConnectionClosed (client_disconnect_reason sh e))) else cl_results cl w) = Some r \<and>
        justified received k r))"
    proof (intro ballI, clarify)
      fix k w assume e: "(k, w) \<in> set es"
      show "w < n \<and> key_used cl k \<and> (Map.empty k = Some w \<or> (\<exists>r.
        (if \<exists>k. waiting cl k = Some w then Some (Inl (ConnectionClosed (client_disconnect_reason sh e))) else cl_results cl w) = Some r \<and>
        justified received k r))"
        using t(3-5) [OF e] j by auto
    qed
    show "\<forall>w. (if \<exists>k. waiting cl k = Some w then Some (Inl (ConnectionClosed (client_disconnect_reason sh e))) else cl_results cl w) \<noteq> None \<longrightarrow> w < n"
      using t(3,6,7) by auto
  qed (simp_all add: t(1,2))
qed


subsection \<open>The invariant of the calls\<close>

fun sent_on :: "call \<Rightarrow> (waiter \<times> nat) option" where
  "sent_on (Sending _ w _ ch) = Some (w, ch)"
| "sent_on (Waiting _ w ch) = Some (w, ch)"
| "sent_on _ = None"

text \<open>A call without a result has gone, or is going, to the queue of the current session.\<close>

definition routed :: "client \<Rightarrow> call list \<Rightarrow> bool" where
  "routed cl cs \<longleftrightarrow> (\<forall>c \<in> set cs. \<forall>w ch. sent_on c = Some (w, ch) \<and> cl_results cl w = None \<longrightarrow> cl_writer cl = Some ch)"

definition log_ok :: "packet_body list \<Rightarrow> (msg_key option \<times> call_result) list \<Rightarrow> bool" where
  "log_ok received log \<longleftrightarrow> (\<forall>(key, r) \<in> set log.
     r = Inl Disconnected \<or> r = Inl Timeout \<or> (\<exists>k. key = Some k \<and> justified received k r))"

definition calls_ok :: "machine \<Rightarrow> bool" where
  "calls_ok m \<longleftrightarrow> client_ok (ma_client m) \<and> dom (cl_channels (ma_client m)) \<subseteq> {..<ma_next m} \<and>
     tracked (ma_client m) (entries (ma_calls m @ ma_dropped m)) (ma_next m) (ma_received m) \<and>
     routed (ma_client m) (ma_calls m @ ma_dropped m) \<and> log_ok (ma_received m) (ma_returned m) \<and>
     ma_started m = length (ma_calls m) + length (ma_dropped m) + length (ma_returned m)"

lemma routed_simps [simp]:
  "routed cl [] \<longleftrightarrow> True" "routed cl (cs @ cs') \<longleftrightarrow> routed cl cs \<and> routed cl cs'"
  "routed cl (c # cs) \<longleftrightarrow> (\<forall>w ch. sent_on c = Some (w, ch) \<and> cl_results cl w = None \<longrightarrow> cl_writer cl = Some ch) \<and> routed cl cs"
  by (auto simp: routed_def)

lemma routed_frame: "routed cl cs \<Longrightarrow> cl_results cl' = cl_results cl \<Longrightarrow> cl_writer cl' = cl_writer cl \<Longrightarrow> routed cl' cs"
  by (simp add: routed_def)

lemma log_ok_simps [simp]:
  "log_ok rs [] \<longleftrightarrow> True" "log_ok rs (l @ l') \<longleftrightarrow> log_ok rs l \<and> log_ok rs l'"
  "log_ok rs [(key, r)] \<longleftrightarrow> r = Inl Disconnected \<or> r = Inl Timeout \<or> (\<exists>k. key = Some k \<and> justified rs k r)"
  by (auto simp: log_ok_def)

lemma returns_simps [simp]:
  "ma_client (returns key r m) = ma_client m" "ma_next (returns key r m) = ma_next m" "ma_calls (returns key r m) = ma_calls m"
  "ma_dropped (returns key r m) = ma_dropped m" "ma_received (returns key r m) = ma_received m" "ma_started (returns key r m) = ma_started m"
  "ma_returned (returns key r m) = ma_returned m @ [(key, r)]" "ma_sessions (returns key r m) = ma_sessions m"
  "ma_stage (returns key r m) = ma_stage m" "ma_closers (returns key r m) = ma_closers m"
  by (simp_all add: returns_def)

lemma calls_ok_quiet:
  assumes "calls_ok m" "quiet (ma_client m) (ma_client m')" "ma_next m' = ma_next m" "ma_calls m' = ma_calls m"
    and "ma_dropped m' = ma_dropped m" "ma_received m' = ma_received m" "ma_started m' = ma_started m" "ma_returned m' = ma_returned m"
  shows "calls_ok m'"
proof -
  note q = assms(2) [unfolded quiet_def]
  have "tracked (ma_client m') (entries (ma_calls m @ ma_dropped m)) (ma_next m) (ma_received m)"
    by (rule tracked_frame [of "ma_client m" _ "ma_next m"]) (use q assms(1) in \<open>simp_all add: calls_ok_def\<close>)
  moreover have "routed (ma_client m') (ma_calls m @ ma_dropped m)"
    by (rule routed_frame [of "ma_client m"]) (use q assms(1) in \<open>simp_all add: calls_ok_def\<close>)
  ultimately show ?thesis using q assms(1,3-8) by (simp add: calls_ok_def)
qed

lemma outcome_timeout: "client_ok cl \<Longrightarrow> waiting cl k = Some w \<Longrightarrow> call_outcome k w cl = (Inl Timeout, withdraw_key k cl)"
  using waiting_no_result [of cl k w]
  by (cases k) (auto simp: client_ok_def call_end_def send_event_end_def dest: map_of_snd)

lemma outcome_result: "cl_results cl w = Some r \<Longrightarrow> call_outcome k w cl = (r, cl)"
  by (cases k) (simp_all add: call_end_def send_event_end_def)

text \<open>An entry moved to the front, to remove it from the calls.\<close>

lemma tracked_front:
  "tracked cl (entries ((cs @ c # cs') @ ds)) n rs \<Longrightarrow> entry c = [e] \<Longrightarrow> tracked cl (e # entries ((cs @ cs') @ ds)) n rs"
  by (erule tracked_mset) simp

lemma calls_ok_withdraw:
  assumes "calls_ok m" "ma_calls m = cs @ c # cs'" "entry c = [(k, w)]" "quiet (ma_client m) cl" "r = Inl Disconnected \<or> r = Inl Timeout"
  shows "calls_ok (returns (Some k) r (m\<lparr>ma_client := withdraw_key k cl, ma_calls := cs @ cs'\<rparr>))"
proof -
  let ?es = "entries ((cs @ cs') @ ma_dropped m)"
  note q = assms(4) [unfolded quiet_def] and c = assms(1) [unfolded calls_ok_def assms(2)]
  have "tracked (ma_client m) ((k, w) # ?es) (ma_next m) (ma_received m)"
    by (rule tracked_front [OF _ assms(3)]) (use c in blast)
  then have "tracked cl ((k, w) # ?es) (ma_next m) (ma_received m)"
    by (rule tracked_frame) (simp_all add: q)
  then have "tracked (withdraw_key k cl) ?es (ma_next m) (ma_received m)" by (rule tracked_withdraw)
  moreover have "routed (withdraw_key k cl) ((cs @ cs') @ ma_dropped m)"
    by (rule routed_frame [of "ma_client m"]) (use c q in simp_all)
  moreover have "client_ok (withdraw_key k cl)" "dom (cl_channels cl) = dom (cl_channels (ma_client m))"
    using c q withdraw_key_ok by simp_all
  ultimately show ?thesis
    using c assms(5) unfolding calls_ok_def by (simp, blast)
qed

lemma call_step_ok:
  assumes "call_step m m'" "calls_ok m"
  shows "calls_ok m'"
  using assms(1)
proof (cases rule: call_step.cases)
  case (register cs kind cs' key packet cl)
  let ?es = "entries (ma_calls m @ ma_dropped m)"
  have t: "tracked (ma_client m) ?es (ma_next m) (ma_received m)" and ok: "client_ok (ma_client m)"
    using assms(2) by (simp_all add: calls_ok_def)
  note s = register_call_simps [OF register(4)]
  have "client_ok cl" by (rule register_call_ok [OF register(4,3) ok tracked_fresh [OF t ok]])
  moreover have "tracked cl (entries (ma_calls m' @ ma_dropped m')) (Suc (ma_next m)) (ma_received m)"
    by (rule tracked_mset [OF tracked_register [OF t register(4,3)]]) (simp add: register(1,2))
  moreover have "routed cl (ma_calls m' @ ma_dropped m')"
    using assms(2) register(1,2) s(1,2) by (auto simp: calls_ok_def intro: routed_frame [of "ma_client m"])
  ultimately show ?thesis
    using assms(2) register(1,2) s(6) by (auto simp: calls_ok_def)
next
  case (no_writer cs key w packet cs')
  then show ?thesis using calls_ok_withdraw [OF assms(2) no_writer(2)] by simp
next
  case (unsent cs key w packet ch cs' e cl)
  then show ?thesis using calls_ok_withdraw [OF assms(2) unsent(2)] quiet_send_on by simp
next
  case (sent cs key w packet ch cs' cl)
  have "calls_ok (m\<lparr>ma_client := cl\<rparr>)"
    using calls_ok_quiet [OF assms(2), of "m\<lparr>ma_client := cl\<rparr>"] quiet_send_on [OF sent(3)] by simp
  then show ?thesis using sent(1,2) by (auto simp: calls_ok_def)
next
  case (outcome cs key w ch cs' r cl)
  have ok: "client_ok (ma_client m)" and t: "tracked (ma_client m) ((key, w) # entries ((cs @ cs') @ ma_dropped m)) (ma_next m) (ma_received m)"
    using assms(2) tracked_front [of _ cs "Waiting key w ch" cs'] by (simp_all add: calls_ok_def outcome(2))
  consider "waiting (ma_client m) key = Some w" | r' where "cl_results (ma_client m) w = Some r'" "justified (ma_received m) key r'"
    using trackedD(5) [OF t, of key w] by auto
  then show ?thesis
  proof cases
    case 1
    then show ?thesis
      using outcome outcome_timeout [OF ok 1] calls_ok_withdraw [OF assms(2) outcome(2), of key w "ma_client m" "Inl Timeout"] by simp
  next
    case 2
    have "waiting (ma_client m) key \<noteq> Some w" using 2(1) waiting_no_result ok by (fastforce simp: client_ok_def)
    from tracked_done [OF t this] show ?thesis
      using outcome(1-3) outcome_result [OF 2(1)] 2(2) assms(2) by (auto simp: calls_ok_def)
  qed
next
  case (dropped_sending cs key w packet ch cs')
  then show ?thesis using assms(2) by (auto simp: calls_ok_def intro: tracked_mset)
next
  case (dropped_waiting cs key w ch cs')
  then show ?thesis using assms(2) by (auto simp: calls_ok_def intro: tracked_mset)
qed (use assms(2) in \<open>auto simp: calls_ok_def\<close>)


lemma put_session_simps [simp]:
  "ma_client (put_session ss s ss' cl m) = cl" "ma_next (put_session ss s ss' cl m) = ma_next m"
  "ma_calls (put_session ss s ss' cl m) = ma_calls m" "ma_dropped (put_session ss s ss' cl m) = ma_dropped m"
  "ma_received (put_session ss s ss' cl m) = ma_received m" "ma_started (put_session ss s ss' cl m) = ma_started m"
  "ma_returned (put_session ss s ss' cl m) = ma_returned m" "ma_sessions (put_session ss s ss' cl m) = ss @ s # ss'"
  "ma_stage (put_session ss s ss' cl m) = ma_stage m" "ma_closers (put_session ss s ss' cl m) = ma_closers m"
  "ma_ready (put_session ss s ss' cl m) = ma_ready m" "ma_dispatches (put_session ss s ss' cl m) = ma_dispatches m" "ma_supervisor (put_session ss s ss' cl m) = ma_supervisor m"
  by (simp_all add: put_session_def)

lemma calls_ok_disconnect:
  assumes "calls_ok m" "ma_client m' = handle_disconnect sh g e (ma_client m)" "ma_next m' = ma_next m" "ma_calls m' = ma_calls m"
    and "ma_dropped m' = ma_dropped m" "ma_received m' = ma_received m" "ma_started m' = ma_started m" "ma_returned m' = ma_returned m"
  shows "calls_ok m'"
proof (cases "takes_effect g (ma_client m)")
  case True
  let ?es = "entries (ma_calls m @ ma_dropped m)"
  have ok: "client_ok (ma_client m)" and t: "tracked (ma_client m) ?es (ma_next m) (ma_received m)"
    using assms(1) by (simp_all add: calls_ok_def)
  note d = disconnect_effect [OF ok True, of sh e]
  have t': "tracked (ma_client m') ?es (ma_next m) (ma_received m)"
    unfolding assms(2) by (rule tracked_disconnect [OF t ok True])
  have "cl_results (ma_client m') w \<noteq> None" if "(k, w) \<in> set ?es" for k w
    using trackedD(5) [OF t' that] d(4) assms(2) by auto
  then have "cl_results (ma_client m') w \<noteq> None" if "c \<in> set (ma_calls m @ ma_dropped m)" "sent_on c = Some (w, ch)" for c w ch
    using that by (cases c) (auto simp: entries_def, (force+)?)
  then have "routed (ma_client m') (ma_calls m @ ma_dropped m)" unfolding routed_def by blast
  then show ?thesis
    using assms(1,3-8) t' d(1) by (simp add: calls_ok_def assms(2))
next
  case False
  then have "ma_client m' = ma_client m" using assms(2) disconnect_ignored by simp
  then show ?thesis using calls_ok_quiet [OF assms(1) _ assms(3-8)] by simp
qed

lemma calls_ok_task_ends: "calls_ok m \<Longrightarrow> calls_ok (m\<lparr>ma_client := task_ends r s (ma_client m)\<rparr>)"
proof -
  assume c: "calls_ok m"
  have "tracked (close_queue ch (ma_client m)) (entries (ma_calls m @ ma_dropped m)) (ma_next m) (ma_received m)"
      "routed (close_queue ch (ma_client m)) (ma_calls m @ ma_dropped m)" for ch
    using c by (auto simp: calls_ok_def intro: tracked_frame [of "ma_client m"] routed_frame [of "ma_client m"])
  then show ?thesis using c client_ok_close_queue by (simp add: calls_ok_def task_ends_def)
qed

lemma justified_more: "justified rs k r \<Longrightarrow> justified (rs @ rs') k r"
  by (auto simp: justified_def)

lemma log_ok_more: "log_ok rs log \<Longrightarrow> log_ok (rs @ rs') log"
  using justified_more by (fastforce simp: log_ok_def)

lemma tracked_more: "tracked cl es n rs \<Longrightarrow> tracked cl es n (rs @ rs')"
  using justified_more unfolding tracked_def by fastforce

lemma dispatch_not_event: "client_read X c nxt = Dispatch p \<Longrightarrow> pe_body p \<noteq> EventEmit i name data atts meta ack"
  by (auto simp: client_read_def split: ws_next.splits ws_message.splits sum.splits packet_body.splits)

lemma inline_packet:
  assumes "client_read X c nxt = Dispatch p" "handle_packet p cl = Some cl'"
  shows "(\<exists>k r. answer_of (pe_body p) = Some (k, r) \<and> cl' = resolve_key k r cl) \<or> cl' = cl"
proof (cases "answer_of (pe_body p)")
  case None
  then have "cl' = cl"
  proof (cases "pe_body p")
    case (EventEmit i name data atts meta ack)
    then show ?thesis using dispatch_not_event [OF assms(1)] by blast
  qed (use assms(2) in \<open>simp_all add: handle_packet_def\<close>)
  then show ?thesis by simp
next
  case (Some kr)
  then show ?thesis using assms(2) handle_answer [of p "fst kr" "snd kr" cl] by (intro disjI1 exI [of _ "fst kr"] exI [of _ "snd kr"]) simp
qed

lemma calls_ok_read:
  assumes "calls_ok m" "client_read X c nxt = Dispatch p" "handle_packet p (ma_client m) = Some cl'"
  shows "calls_ok ((put_session ss s ss' cl' m)\<lparr>ma_received := ma_received m @ [pe_body p]\<rparr>)"
  using inline_packet [OF assms(2,3)]
proof (elim disjE exE conjE)
  fix k r assume a: "answer_of (pe_body p) = Some (k, r)" and cl': "cl' = resolve_key k r (ma_client m)"
  have "cl_results (ma_client m) w = None" if "cl_results cl' w = None" for w
    using that by (auto simp: cl' resolve_key_results split: option.splits if_splits)
  then have "routed cl' (ma_calls m @ ma_dropped m)"
    using assms(1) unfolding calls_ok_def routed_def cl' resolve_key_simps by blast
  then show ?thesis
    using assms(1) tracked_resolve [OF _ a] client_ok_resolve_key log_ok_more by (simp add: calls_ok_def cl')
next
  assume "cl' = ma_client m"
  then show ?thesis using assms(1) tracked_more log_ok_more by (simp add: calls_ok_def)
qed

lemma session_step_ok:
  assumes "session_step X sh m m'" "calls_ok m"
  shows "calls_ok m'"
  using assms(1)
proof (cases rule: session_step.cases)
  case (read_answer ss s ss' nxt packet cl)
  then show ?thesis using calls_ok_read [OF assms(2)] by simp
next
  case (report ss s ss' r e)
  then show ?thesis using calls_ok_disconnect [OF assms(2)] by simp
next
  case (report_late ss s ss' r e)
  then show ?thesis
    using calls_ok_quiet [OF calls_ok_task_ends [OF assms(2), of r s], of m'] disconnect_ignored by simp
next
  case (signal ss s ss' r e)
  then show ?thesis using calls_ok_quiet [OF calls_ok_task_ends [OF assms(2), of r s], of m'] by simp
qed (use calls_ok_quiet [OF assms(2), of m'] in \<open>simp_all add: quiet_recv quiet_send_on\<close>)

lemma close_step_ok:
  assumes "close_step sh m m'" "calls_ok m"
  shows "calls_ok m'"
  using assms(1)
proof (cases rule: close_step.cases)
  case (closed xs xs')
  then show ?thesis using calls_ok_disconnect [OF assms(2)] by simp
qed (use calls_ok_quiet [OF assms(2), of m'] in \<open>simp_all add: quiet_fields quiet_send_on\<close>)


subsection \<open>The supervisor and its sessions\<close>

text \<open>
  A session is live while none of its tasks has reported an end, and told when its signal was sent or is about to
  be: a task that got past the checks of \<open>handle_disconnect\<close> is at \<open>Signalling\<close>.
\<close>

definition live :: "session \<Rightarrow> bool" where
  "live s \<longleftrightarrow> \<not> se_signal s \<and> (\<forall>r. se_task s r \<noteq> Stopped \<and> (\<forall>e. se_task s r \<noteq> Signalling e))"

definition told :: "session \<Rightarrow> bool" where
  "told s \<longleftrightarrow> se_signal s \<or> (\<exists>r e. se_task s r = Signalling e)"

definition queues_ok :: "machine \<Rightarrow> bool" where
  "queues_ok m \<longleftrightarrow> distinct (map se_channel (ma_sessions m)) \<and>
     (\<forall>s \<in> set (ma_sessions m). se_channel s < ma_next m \<and> (queue_open (ma_client m) (se_channel s) \<longleftrightarrow> se_task s WriterTask \<noteq> Stopped))"

definition stage_ok :: "machine \<Rightarrow> bool" where
  "stage_ok m \<longleftrightarrow>
     (let cl = ma_client m; ss = ma_sessions m; gen = cl_connection_generation cl in
      case ma_stage m of
        SuConnecting g \<Rightarrow> g = gen \<and> \<not> cl_is_connected cl \<and> (\<forall>s \<in> set ss. se_generation s < gen)
      | SuEmitting g ch codec \<Rightarrow> g = gen \<and> (\<forall>s \<in> set ss. se_generation s < gen \<and> se_channel s \<noteq> ch) \<and> ch < ma_next m \<and>
          queue_open cl ch \<and> (if cl_is_connected cl then cl_writer cl = Some ch else cl_shutdown cl)
      | SuWaiting \<Rightarrow> ss \<noteq> [] \<and> se_generation (last ss) = gen \<and> (\<forall>s \<in> set (butlast ss). se_generation s < gen) \<and>
          (if cl_is_connected cl then cl_writer cl = Some (se_channel (last ss)) \<and> live (last ss)
           else cl_shutdown cl \<or> told (last ss))
      | _ \<Rightarrow> \<not> cl_is_connected cl)"

definition sup_ok :: "machine \<Rightarrow> bool" where
  "sup_ok m \<longleftrightarrow> queues_ok m \<and> stage_ok m \<and> (ma_closers m \<noteq> [] \<longrightarrow> cl_shutdown (ma_client m)) \<and>
     (\<forall>s \<in> set (ma_sessions m). se_generation s \<le> cl_connection_generation (ma_client m))"

text \<open>Steps that leave the session alone.\<close>

definition same_session :: "client \<Rightarrow> client \<Rightarrow> bool" where
  "same_session cl cl' \<longleftrightarrow> cl_is_connected cl' = cl_is_connected cl \<and> cl_writer cl' = cl_writer cl \<and>
     cl_connection_generation cl' = cl_connection_generation cl \<and> (cl_shutdown cl \<longrightarrow> cl_shutdown cl') \<and> queue_open cl' = queue_open cl"

lemma same_session_quiet: "quiet cl cl' \<Longrightarrow> same_session cl cl'"
  by (simp add: quiet_def same_session_def)

lemma same_session_trans: "same_session a b \<Longrightarrow> same_session b c \<Longrightarrow> same_session a c"
  by (simp add: same_session_def)

lemma same_session_tables:
  "same_session cl (withdraw_key k cl)" "same_session cl (resolve_key k r cl)"
  "register_call kind w cl = (key, p, cl') \<Longrightarrow> same_session cl cl'"
  by (simp_all add: same_session_def queue_open_def fun_eq_iff register_call_simps)

lemma same_session_outcome: "call_outcome k w cl = (r, cl') \<Longrightarrow> same_session cl cl'"
  using same_session_tables(1) [of cl k]
  by (cases k) (auto simp: call_end_def send_event_end_def same_session_quiet split: option.splits if_splits)

lemma sup_ok_same:
  assumes "sup_ok m" "same_session (ma_client m) (ma_client m')" "ma_sessions m' = ma_sessions m" "ma_stage m' = ma_stage m"
    and "ma_next m \<le> ma_next m'" "ma_closers m' \<noteq> [] \<longrightarrow> ma_closers m \<noteq> [] \<or> cl_shutdown (ma_client m')"
  shows "sup_ok m'"
proof -
  note q = assms(2) [unfolded same_session_def]
  have "queues_ok m'" using assms(1,3,5) q by (fastforce simp: sup_ok_def queues_ok_def)
  moreover have "stage_ok m'" using assms(1,3,4,5) q by (auto simp: sup_ok_def stage_ok_def Let_def split: sup_stage.splits)
  ultimately show ?thesis using assms q by (auto simp: sup_ok_def)
qed

lemma queues_ok_put:
  assumes "queues_ok m" "ma_sessions m = ss @ s # ss'" "se_channel s' = se_channel s"
    and "\<forall>ch. ch \<noteq> se_channel s \<longrightarrow> queue_open cl ch = queue_open (ma_client m) ch"
    and "queue_open cl (se_channel s) \<longleftrightarrow> se_task s' WriterTask \<noteq> Stopped"
  shows "queues_ok (put_session ss s' ss' cl m)"
proof -
  have "distinct (map se_channel (ss @ s # ss'))" using assms(1,2) by (simp only: queues_ok_def)
  then have "se_channel s \<notin> se_channel ` (set ss \<union> set ss')" by (simp add: image_Un)
  then have "\<forall>x \<in> set ss \<union> set ss'. queue_open cl (se_channel x) = queue_open (ma_client m) (se_channel x)"
    using assms(4) by (metis imageI)
  then show ?thesis using assms(1-3,5) by (simp add: queues_ok_def)
qed

text \<open>A task of a session takes a step that reports nothing: the supervisor's view stays right.\<close>

lemma sup_ok_put:
  assumes "sup_ok m" "ma_sessions m = ss @ s # ss'" "se_channel s' = se_channel s" "se_generation s' = se_generation s"
    and "cl_is_connected cl = cl_is_connected (ma_client m)" "cl_writer cl = cl_writer (ma_client m)"
      "cl_connection_generation cl = cl_connection_generation (ma_client m)" "cl_shutdown (ma_client m) \<longrightarrow> cl_shutdown cl"
    and "\<forall>ch. ch \<noteq> se_channel s \<longrightarrow> queue_open cl ch = queue_open (ma_client m) ch"
    and "queue_open cl (se_channel s) \<longleftrightarrow> se_task s' WriterTask \<noteq> Stopped"
    and "told s \<longrightarrow> told s'" "takes_effect (se_generation s) (ma_client m) \<and> live s \<longrightarrow> live s'"
  shows "sup_ok (put_session ss s' ss' cl m)"
proof -
  have "queues_ok (put_session ss s' ss' cl m)"
    by (rule queues_ok_put [OF _ assms(2,3,9,10)]) (use assms(1) in \<open>simp add: sup_ok_def\<close>)
  moreover have "stage_ok (put_session ss s' ss' cl m)"
    using assms
    by (cases ss' rule: rev_cases)
      (auto simp: sup_ok_def stage_ok_def Let_def takes_effect_def is_connection_generation_active_def butlast_append split: sup_stage.splits if_splits)
  ultimately show ?thesis using assms by (auto simp: sup_ok_def)
qed


lemma goto_simps [simp]:
  "se_generation (goto r t s) = se_generation s" "se_channel (goto r t s) = se_channel s" "se_signal (goto r t s) = se_signal s"
  "se_task (goto r t s) = (se_task s)(r := t)"
  by (simp_all add: goto_def)

lemma told_moves: "se_task s' = (se_task s)(r := t) \<Longrightarrow> se_signal s' = se_signal s \<Longrightarrow> \<forall>e. se_task s r \<noteq> Signalling e \<Longrightarrow> told s \<Longrightarrow> told s'"
  by (auto simp: told_def)

lemma live_moves:
  "se_task s' = (se_task s)(r := t) \<Longrightarrow> se_signal s' = se_signal s \<Longrightarrow> t \<noteq> Stopped \<Longrightarrow> \<forall>e. t \<noteq> Signalling e \<Longrightarrow> live s \<Longrightarrow> live s'"
  by (simp add: live_def)

lemma sup_ok_queue: "sup_ok m \<Longrightarrow> ma_sessions m = ss @ s # ss' \<Longrightarrow> queue_open (ma_client m) (se_channel s) \<longleftrightarrow> se_task s WriterTask \<noteq> Stopped"
  by (simp add: sup_ok_def queues_ok_def)

lemma sup_ok_moves:
  assumes "sup_ok m" "ma_sessions m = ss @ s # ss'" "quiet (ma_client m) cl"
    and "se_task s' = (se_task s)(r := t)" "se_signal s' = se_signal s" "se_channel s' = se_channel s" "se_generation s' = se_generation s"
    and "se_task s r \<noteq> Stopped" "\<forall>e. se_task s r \<noteq> Signalling e" "t \<noteq> Stopped" "\<forall>e. t \<noteq> Signalling e"
  shows "sup_ok (put_session ss s' ss' cl m)"
proof (rule sup_ok_put [OF assms(1,2,6,7)])
  note q = assms(3) [unfolded quiet_def]
  show "cl_is_connected cl = cl_is_connected (ma_client m)" "cl_writer cl = cl_writer (ma_client m)"
      "cl_connection_generation cl = cl_connection_generation (ma_client m)" "cl_shutdown (ma_client m) \<longrightarrow> cl_shutdown cl"
      "\<forall>ch. ch \<noteq> se_channel s \<longrightarrow> queue_open cl ch = queue_open (ma_client m) ch"
    using q by simp_all
  show "queue_open cl (se_channel s) \<longleftrightarrow> se_task s' WriterTask \<noteq> Stopped"
    using q sup_ok_queue [OF assms(1,2)] assms(4,8,10) by auto
  show "told s \<longrightarrow> told s'" using told_moves [OF assms(4,5,9)] by blast
  show "takes_effect (se_generation s) (ma_client m) \<and> live s \<longrightarrow> live s'" using live_moves [OF assms(4,5,10,11)] by blast
qed

lemma current_session:
  assumes "sup_ok m" "ma_sessions m = ss @ s # ss'" "takes_effect (se_generation s) (ma_client m)"
  shows "ma_stage m = SuWaiting \<and> ss' = [] \<and> live s"
  using assms
  by (cases ss' rule: rev_cases)
    (auto simp: sup_ok_def stage_ok_def Let_def takes_effect_def is_connection_generation_active_def butlast_append split: sup_stage.splits)

lemma sup_ok_report:
  assumes "sup_ok m" "calls_ok m" "ma_sessions m = ss @ s # ss'" "takes_effect (se_generation s) (ma_client m)"
    and "se_task s r = Reporting e"
  shows "sup_ok (put_session ss (goto r (Signalling e) s) ss' (handle_disconnect sh (se_generation s) e (ma_client m)) m)"
proof -
  let ?cl = "handle_disconnect sh (se_generation s) e (ma_client m)"
  have ok: "client_ok (ma_client m)" using assms(2) by (simp add: calls_ok_def)
  note d = disconnect_effect [OF ok assms(4), of sh e] and c = current_session [OF assms(1,3,4)]
  have "queue_open ?cl = queue_open (ma_client m)" by (simp add: queue_open_def fun_eq_iff)
  then have "queues_ok (put_session ss (goto r (Signalling e) s) ss' ?cl m)"
    using sup_ok_queue [OF assms(1,3)] assms(1,5) by (intro queues_ok_put [OF _ assms(3)]) (auto simp: sup_ok_def)
  moreover have "told (goto r (Signalling e) s)" by (auto simp: told_def)
  ultimately show ?thesis
    using assms(1,3) c d(2) by (simp add: sup_ok_def stage_ok_def Let_def)
qed

lemma sup_ok_stops:
  assumes "sup_ok m" "ma_sessions m = ss @ s # ss'" "\<not> (takes_effect (se_generation s) (ma_client m) \<and> live s)"
    and "se_task s' = (se_task s)(r := Stopped)" "se_channel s' = se_channel s" "se_generation s' = se_generation s" "told s \<longrightarrow> told s'"
  shows "sup_ok (put_session ss s' ss' (task_ends r s (ma_client m)) m)"
  by (rule sup_ok_put [OF assms(1,2,5,6)])
    (use assms(3,4,7) sup_ok_queue [OF assms(1,2)] in \<open>auto simp: task_ends_def\<close>)


lemma session_step_sup:
  assumes "session_step X sh m m'" "sup_ok m" "calls_ok m"
  shows "sup_ok m'"
  using assms(1)
proof (cases rule: session_step.cases)
  case (write_out ss s ss' ch msg ch' rnd net frames broken)
  then show ?thesis by (auto intro!: sup_ok_moves [OF assms(2)] quiet_recv split: option.split)
next
  case (writer_drained ss s ss' ch)
  then show ?thesis by (auto intro!: sup_ok_moves [OF assms(2)])
next
  case (tick ss s ss')
  show ?thesis
  proof (cases "is_connection_generation_active (se_generation s) (ma_client m)")
    case True
    then show ?thesis using tick by (auto intro!: sup_ok_moves [OF assms(2)])
  next
    case False
    then have "sup_ok (put_session ss (goto HeartbeatTask Stopped s) ss' (task_ends HeartbeatTask s (ma_client m)) m)"
      using told_moves [of "goto HeartbeatTask Stopped s" s HeartbeatTask Stopped] tick(3)
      by (intro sup_ok_stops [OF assms(2) tick(2)]) (auto simp: takes_effect_def)
    then show ?thesis using False tick(1) by (simp add: task_ends_def)
  qed
next
  case (ping ss s ss' r cl)
  then show ?thesis by (auto intro!: sup_ok_moves [OF assms(2)] quiet_send_on split: sum.split)
next
  case (read_answer ss s ss' nxt packet cl)
  have "same_session (ma_client m) cl"
    using inline_packet [OF read_answer(4,5)] same_session_tables(2) same_session_quiet [OF quiet_refl] by auto
  then show ?thesis by (intro sup_ok_same [OF assms(2)]) (simp_all add: read_answer(1,2))
next
  case (read_ping ss s ss' nxt payload)
  then show ?thesis by (auto intro!: sup_ok_moves [OF assms(2)])
next
  case (read_ends ss s ss' nxt e)
  then show ?thesis by (auto intro!: sup_ok_moves [OF assms(2)])
next
  case (pong ss s ss' payload r cl)
  then show ?thesis by (auto intro!: sup_ok_moves [OF assms(2)] quiet_send_on split: sum.split)
next
  case (report ss s ss' r e)
  then show ?thesis using sup_ok_report [OF assms(2,3)] by simp
next
  case (report_late ss s ss' r e)
  then show ?thesis
    using sup_ok_stops [OF assms(2) report_late(2), of "goto r Stopped s" r] told_moves [of "goto r Stopped s" s r Stopped]
    by (simp add: disconnect_ignored)
next
  case (signal ss s ss' r e)
  have "\<not> live s" using signal(3) by (auto simp: live_def)
  moreover have "told ((goto r Stopped s)\<lparr>se_signal := True\<rparr>)" by (simp add: told_def)
  ultimately show ?thesis
    using sup_ok_stops [OF assms(2) signal(2), of "(goto r Stopped s)\<lparr>se_signal := True\<rparr>" r] by (simp add: signal(1))
qed (use sup_ok_same [OF assms(2), of m'] in \<open>simp_all add: same_session_quiet quiet_send_on\<close>)

lemma close_step_sup:
  assumes "close_step sh m m'" "sup_ok m" "calls_ok m"
  shows "sup_ok m'"
  using assms(1)
proof (cases rule: close_step.cases)
  case (closed xs xs')
  let ?g = "cl_connection_generation (ma_client m)"
  let ?cl = "handle_disconnect sh ?g Disconnected (ma_client m)"
  have ok: "client_ok (ma_client m)" using assms(3) by (simp add: calls_ok_def)
  have sd: "cl_shutdown (ma_client m)" using assms(2) closed(2) by (simp add: sup_ok_def)
  have conn: "\<not> cl_is_connected ?cl"
    using disconnect_effect(2) [OF ok] disconnect_ignored [of ?g "ma_client m" sh Disconnected]
    by (cases "takes_effect ?g (ma_client m)") (auto simp: takes_effect_def is_connection_generation_active_def)
  have "queue_open ?cl = queue_open (ma_client m)" by (simp add: queue_open_def fun_eq_iff)
  then show ?thesis
    using assms(2) conn sd closed(1)
    by (auto simp: sup_ok_def queues_ok_def stage_ok_def Let_def split: sup_stage.splits)
qed (use sup_ok_same [OF assms(2), of m'] in \<open>auto simp: same_session_quiet quiet_fields quiet_send_on\<close>)

lemma call_step_sup:
  assumes "call_step m m'" "sup_ok m"
  shows "sup_ok m'"
  using assms(1)
proof (cases rule: call_step.cases)
  case (unsent cs key w packet ch cs' e cl)
  then have "same_session (ma_client m) (withdraw_key key cl)"
    by (intro same_session_trans [OF same_session_quiet [OF quiet_send_on] same_session_tables(1)])
  then show ?thesis using sup_ok_same [OF assms(2), of m'] by (simp add: unsent(1))
qed (use sup_ok_same [OF assms(2), of m'] in
    \<open>simp_all add: same_session_quiet quiet_send_on same_session_tables same_session_outcome\<close>)


lemma establish_cases:
  assumes "establish_connection X r1 r2 reach n1 f1 n2 f2 w cl = (r, cl')" "client_ok cl"
  obtains (failed) e where "r = Inl e" "quiet cl cl'"
    | (installed) codec cl1 where "r = Inr codec" "quiet cl cl1" "cl' = install_session w cl1"
proof -
  obtain r0 cl1 where c: "connect_any reach cl = (r0, cl1)" by fastforce
  have "quiet cl cl1" using connect_any_quiet [OF assms(2) c] by blast
  moreover obtain p where "(r, cl') = (case p of Inl e \<Rightarrow> (Inl e, cl1) | Inr codec \<Rightarrow> (Inr codec, install_session w cl1))"
    using assms(1) unfolding establish_connection_def c by (simp only: Let_def prod.case) (rule that, erule sym)
  ultimately show thesis using failed installed by (cases p) simp_all
qed

lemma after_round_simps [simp]:
  "ma_client (after_round x m) = ma_client m" "ma_next (after_round x m) = ma_next m" "ma_calls (after_round x m) = ma_calls m"
  "ma_dropped (after_round x m) = ma_dropped m" "ma_received (after_round x m) = ma_received m" "ma_started (after_round x m) = ma_started m"
  "ma_returned (after_round x m) = ma_returned m" "ma_sessions (after_round x m) = ma_sessions m" "ma_closers (after_round x m) = ma_closers m"
  "ma_ready (after_round x m) = ma_ready m"
  "ma_stage (after_round x m) = (case x of None \<Rightarrow> SuDone | Some (su, d) \<Rightarrow> SuSleeping d)"
  by (auto simp: after_round_def split: option.split)

lemma round_ok:
  assumes "client_ok cl" "begin_round cl = Some (g, cl')"
  shows "client_ok cl'" "waiting cl' = waiting cl" "cl' = cl\<lparr>cl_connection_generation := g\<rparr>" "g = cl_connection_generation cl + 1"
proof -
  show e: "cl' = cl\<lparr>cl_connection_generation := g\<rparr>" "g = cl_connection_generation cl + 1"
    using assms(2) by (auto simp: begin_round_def Let_def split: if_splits)
  show "client_ok cl'" using assms(1) unfolding e client_ok_def tables_ok_def session_ok_def by simp
  show "waiting cl' = waiting cl" by (simp add: e)
qed

lemma calls_ok_install:
  assumes "calls_ok m" "\<not> cl_is_connected (ma_client m)" "quiet (ma_client m) cl"
    and "ma_client m' = install_session (ma_next m) cl" "ma_next m' = Suc (ma_next m)" "ma_calls m' = ma_calls m" "ma_dropped m' = ma_dropped m"
    and "ma_received m' = ma_received m" "ma_started m' = ma_started m" "ma_returned m' = ma_returned m"
  shows "calls_ok m'"
proof -
  note q = assms(3) [unfolded quiet_def]
  have ok: "client_ok cl" using assms(1) q by (simp add: calls_ok_def)
  note i = install_effect [OF ok, of "ma_next m"]
  have none: "cl_writer (ma_client m) = None" using assms(1,2) by (auto simp: calls_ok_def client_ok_def session_ok_def)
  have "tracked (ma_client m') (entries (ma_calls m @ ma_dropped m)) (Suc (ma_next m)) (ma_received m)"
    unfolding assms(4) by (rule tracked_frame [of "ma_client m" _ "ma_next m"]) (use assms(1) q i in \<open>simp_all add: calls_ok_def\<close>)
  moreover have "routed (ma_client m') (ma_calls m @ ma_dropped m)"
    using assms(1) none q i(3) unfolding assms(4) calls_ok_def routed_def by fastforce
  ultimately show ?thesis using assms(1,5-10) i(1,10) q by (auto simp: calls_ok_def assms(4))
qed

lemma supervisor_step_ok:
  assumes "supervisor_step X m m'" "calls_ok m" "sup_ok m"
  shows "calls_ok m'"
proof -
  have ok: "client_ok (ma_client m)" using assms(2) by (simp add: calls_ok_def)
  from assms(1) show ?thesis
  proof (cases rule: supervisor_step.cases)
    case (round g cl)
    note r = round_ok [OF ok round(4)]
    have "tracked cl (entries (ma_calls m @ ma_dropped m)) (ma_next m) (ma_received m)"
      by (rule tracked_frame [of "ma_client m" _ "ma_next m"]) (use assms(2) r in \<open>simp_all add: calls_ok_def\<close>)
    moreover have "routed cl (ma_calls m @ ma_dropped m)"
      by (rule routed_frame [of "ma_client m"]) (use assms(2) r in \<open>simp_all add: calls_ok_def\<close>)
    ultimately show ?thesis using assms(2) r by (simp add: calls_ok_def round(1))
  next
    case (fails g r1 r2 reach n1 f1 n2 f2 e cl buf ready next')
    from fails(3) ok show ?thesis
      by (cases rule: establish_cases) (use calls_ok_quiet [OF assms(2), of m'] fails(1) in simp_all)
  next
    case (establishes g r1 r2 reach n1 f1 n2 f2 codec cl)
    have nc: "\<not> cl_is_connected (ma_client m)" using assms(3) establishes(2) by (simp add: sup_ok_def stage_ok_def Let_def)
    from establishes(3) ok show ?thesis
      by (cases rule: establish_cases) (use calls_ok_install [OF assms(2) nc, of _ m'] establishes(1) in simp_all)
  qed (use calls_ok_quiet [OF assms(2), of m'] in simp_all)
qed


lemma woken_not_live: "woken s \<Longrightarrow> \<not> live s"
  by (auto simp: woken_def live_def)

lemma supervisor_step_sup:
  assumes "supervisor_step X m m'" "sup_ok m" "calls_ok m"
  shows "sup_ok m'"
proof -
  have ok: "client_ok (ma_client m)" using assms(3) by (simp add: calls_ok_def)
  have st: "stage_ok m" and qs: "queues_ok m" using assms(2) by (simp_all add: sup_ok_def)
  from assms(1) show ?thesis
  proof (cases rule: supervisor_step.cases)
    case (round g cl)
    note r = round_ok [OF ok round(4)]
    have "se_generation s < g" if "s \<in> set (ma_sessions m)" for s
      using assms(2) that u64_next_greater [OF round(3)] r(4) by (simp add: sup_ok_def add.commute)
    then show ?thesis
      using assms(2) st round(2) unfolding round(1) r(3)
      by (auto simp: sup_ok_def stage_ok_def queues_ok_def queue_open_def less_imp_le)
  next
    case (fails g r1 r2 reach n1 f1 n2 f2 e cl buf ready next')
    have "quiet (ma_client m) cl" using fails(3) ok by (cases rule: establish_cases) simp_all
    then have "sup_ok (m\<lparr>ma_client := cl\<rparr>)" by (intro sup_ok_same [OF assms(2)]) (simp_all add: same_session_quiet)
    then show ?thesis
      using fails(2) unfolding fails(1) by (auto simp: sup_ok_def stage_ok_def queues_ok_def Let_def split: option.split)
  next
    case (establishes g r1 r2 reach n1 f1 n2 f2 codec cl)
    obtain cl1 where q: "quiet (ma_client m) cl1" "cl = install_session (ma_next m) cl1"
      using establishes(3) ok by (cases rule: establish_cases) simp_all
    note i = install_effect [of cl1 "ma_next m"]
    have "client_ok cl1" "queue_open cl1 = queue_open (ma_client m)" "cl_connection_generation cl1 = cl_connection_generation (ma_client m)"
        "cl_shutdown (ma_client m) \<longrightarrow> cl_shutdown cl1"
      using q(1) ok by (simp_all add: quiet_def)
    then show ?thesis
      using assms(2) establishes(2) i unfolding establishes(1) q(2)
      by (auto simp: sup_ok_def stage_ok_def queues_ok_def Let_def less_SucI)
  next
    case (spawn g ch codec)
    then show ?thesis
      using assms(2) by (auto simp: sup_ok_def stage_ok_def queues_ok_def Let_def live_def)
  next
    case (wakes ss s buf ready next')
    have "\<not> cl_is_connected (ma_client m)"
      using st woken_not_live [OF wakes(4)] wakes(2,3) by (auto simp: stage_ok_def Let_def split: if_splits)
    then show ?thesis
      using assms(2) unfolding wakes(1) by (auto simp: sup_ok_def stage_ok_def queues_ok_def Let_def split: option.split)
  qed (use assms(2) in \<open>auto simp: sup_ok_def stage_ok_def queues_ok_def Let_def\<close>)
qed

definition machine_ok :: "machine \<Rightarrow> bool" where
  "machine_ok m \<longleftrightarrow> calls_ok m \<and> sup_ok m"

lemma client_step_ok:
  assumes "client_step X sh m m'" "machine_ok m"
  shows "machine_ok m'"
  using assms(1)
proof (cases rule: client_step.cases)
  case call
  then show ?thesis using assms(2) call_step_ok call_step_sup by (simp add: machine_ok_def)
next
  case session
  then show ?thesis using assms(2) session_step_ok session_step_sup by (simp add: machine_ok_def)
next
  case closing
  then show ?thesis using assms(2) close_step_ok close_step_sup by (simp add: machine_ok_def)
next
  case supervisor
  then show ?thesis using assms(2) supervisor_step_ok supervisor_step_sup by (simp add: machine_ok_def)
qed (use assms(2) calls_ok_quiet [of m m'] sup_ok_same [of m m'] in
    \<open>simp_all add: machine_ok_def quiet_handlers same_session_quiet\<close>)

lemma machine_ok_init: "machine_ok (connect url config)"
proof -
  have "waiting (client_new url config) = Map.empty" by (rule waiting_eqI) (simp_all add: client_new_def)
  then have "tracked (client_new url config) [] 0 []" by (simp add: tracked_def) (simp add: client_new_def)
  then show ?thesis
    by (simp add: machine_ok_def calls_ok_def sup_ok_def connect_def machine_init_def queues_ok_def stage_ok_def)
      (simp add: client_new_def client_ok_def tables_ok_def waits_ok_def session_ok_def)
qed

interpretation machine: step_invariant "client_step X sh" machine_ok for X sh
  by unfold_locales (rule client_step_ok)

lemma machine_ok_reach: "(client_step X sh)\<^sup>*\<^sup>* (connect url config) m \<Longrightarrow> machine_ok m"
  by (rule machine.run_kept [OF _ machine_ok_init])

subsection \<open>What holds of a running client\<close>

text \<open>
  C4. Every call and event is accounted for. In every state a running client can reach, whatever the interleaving of callers, sessions,
  \<open>close\<close> and supervisor: each call made is in progress, returned or was dropped by its caller; no two in progress share an id or
  a result slot; one that has taken an id is in the table under it or has its result; the tables hold no other entries; a call that
  was queued and has no result yet was queued to the session that is connected now, so after a disconnect every such
  call has its result and none waits for a session that is gone.
\<close>

theorem client_calls_accounted:
  assumes "(client_step X sh)\<^sup>*\<^sup>* (connect url config) m"
  defines "cl \<equiv> ma_client m"
  shows "ma_started m = length (ma_calls m) + length (ma_dropped m) + length (ma_returned m) \<and>
    distinct (map fst (entries (ma_calls m @ ma_dropped m))) \<and> distinct (map snd (entries (ma_calls m @ ma_dropped m))) \<and>
    (\<forall>(k, w) \<in> set (entries (ma_calls m)). waiting cl k = Some w \<or> cl_results cl w \<noteq> None) \<and>
    (\<forall>k w. waiting cl k = Some w \<longrightarrow> (k, w) \<in> set (entries (ma_calls m @ ma_dropped m))) \<and>
    (\<forall>c \<in> set (ma_calls m). \<forall>w ch. sent_on c = Some (w, ch) \<and> cl_results cl w = None \<longrightarrow>
       cl_is_connected cl \<and> cl_writer cl = Some ch)"
proof -
  have c: "calls_ok m" using machine_ok_reach [OF assms(1)] by (simp add: machine_ok_def)
  let ?es = "entries (ma_calls m @ ma_dropped m)"
  have t: "tracked cl ?es (ma_next m) (ma_received m)" and r: "routed cl (ma_calls m @ ma_dropped m)"
      and s: "session_ok cl"
    using c unfolding calls_ok_def client_ok_def cl_def by blast+
  have "waiting cl k = Some w \<or> cl_results cl w \<noteq> None" if "(k, w) \<in> set (entries (ma_calls m))" for k w
    using trackedD(5) [OF t, of k w] that by auto
  moreover have "cl_is_connected cl \<and> cl_writer cl = Some ch"
    if "c \<in> set (ma_calls m)" "sent_on c = Some (w, ch)" "cl_results cl w = None" for c w ch
    using r s that by (fastforce simp: routed_def session_ok_def)
  ultimately show ?thesis
    using c trackedD(1,2,6) [OF t] by (auto simp: calls_ok_def)
qed

text \<open>
  C5. A call returns its own answer or none: a result that is not \<open>Disconnected\<close> or \<open>Timeout\<close> is what a packet said that was read
  from a session and carries the call's own id and kind, or the \<open>ConnectionClosed\<close> of a disconnect; ids are not reused by later
  sessions, so an answer read late from an old session never reaches a later call.
\<close>

theorem client_returns_own_answers:
  assumes "(client_step X sh)\<^sup>*\<^sup>* (connect url config) m" "(key, r) \<in> set (ma_returned m)"
    and "r \<noteq> Inl Disconnected" "r \<noteq> Inl Timeout"
  shows "\<exists>k. key = Some k \<and> ((\<exists>b \<in> set (ma_received m). answer_of b = Some (k, r)) \<or> (\<exists>reason. r = Inl (ConnectionClosed reason)))"
proof -
  have "log_ok (ma_received m) (ma_returned m)" using machine_ok_reach [OF assms(1)] by (simp add: machine_ok_def calls_ok_def)
  then show ?thesis using assms(2-4) by (fastforce simp: log_ok_def justified_def)
qed

text \<open>
  C24. One session at a time, and old ones are harmless. While the client is connected, the client's writer is an open queue, and the supervisor is in one of two
  stages: it is announcing the session of the current generation to the \<open>on_connected\<close> handlers, the tasks of that session not being spawned yet and
  all sessions that were spawned having smaller generations; or it is watching exactly one session of the current generation, whose queue that writer is, and
  none of whose tasks has reported its end to the client, signalled it or stopped (a task may have left its loop with the report still before it). All
  earlier sessions have smaller generations, and whatever end one of their remaining tasks reports, the client does not change.
\<close>

theorem client_one_session:
  assumes "(client_step X sh)\<^sup>*\<^sup>* (connect url config) m" "cl_is_connected (ma_client m)"
  defines "cl \<equiv> ma_client m"
  shows "\<exists>ch old. cl_writer cl = Some ch \<and> queue_open cl ch \<and>
    ((\<exists>codec. ma_stage m = SuEmitting (cl_connection_generation cl) ch codec \<and> ma_sessions m = old) \<or>
     (\<exists>s. ma_stage m = SuWaiting \<and> ma_sessions m = old @ [s] \<and> se_generation s = cl_connection_generation cl \<and> se_channel s = ch \<and> live s)) \<and>
    (\<forall>s \<in> set old. se_generation s < cl_connection_generation cl \<and> (\<forall>e. handle_disconnect sh (se_generation s) e cl = cl))"
proof -
  have s: "stage_ok m" "queues_ok m" using machine_ok_reach [OF assms(1)] by (simp_all add: machine_ok_def sup_ok_def)
  have stale: "handle_disconnect sh (se_generation x) e cl = cl" if "se_generation x < cl_connection_generation cl" for x e
    using that by (intro disconnect_ignored) (auto simp: takes_effect_def is_connection_generation_active_def)
  show ?thesis
  proof (cases "ma_stage m")
    case (SuEmitting g ch codec)
    then show ?thesis using s(1) assms(2) stale by (intro exI [of _ ch]) (auto simp: stage_ok_def Let_def cl_def)
  next
    case SuWaiting
    then have w: "ma_sessions m \<noteq> []" "se_generation (last (ma_sessions m)) = cl_connection_generation cl" "live (last (ma_sessions m))"
        "cl_writer cl = Some (se_channel (last (ma_sessions m)))" "\<forall>x \<in> set (butlast (ma_sessions m)). se_generation x < cl_connection_generation cl"
      using s(1) assms(2) by (simp_all add: stage_ok_def Let_def cl_def)
    have "queue_open cl (se_channel (last (ma_sessions m)))"
      using s(2) w(1,3) by (simp add: queues_ok_def live_def cl_def)
    then show ?thesis
      using w stale SuWaiting by (intro exI [of _ "se_channel (last (ma_sessions m))"] exI [of _ "butlast (ma_sessions m)"])
        (auto intro!: exI [of _ "last (ma_sessions m)"])
  qed (use s(1) assms(2) in \<open>simp_all add: stage_ok_def Let_def\<close>)
qed


definition kept :: "machine \<Rightarrow> machine \<Rightarrow> bool" where
  "kept m m' \<longleftrightarrow> ma_calls m' = ma_calls m \<and> ma_ready m' = ma_ready m \<and> ma_closers m' = ma_closers m \<and>
     cl_config (ma_client m') = cl_config (ma_client m)"

lemma told_fires:
  assumes "ma_sessions m = old @ [s]" "told s" "ma_stage m = SuWaiting"
  obtains m1 s1 where "(client_step X sh)\<^sup>*\<^sup>* m m1" "ma_sessions m1 = old @ [s1]" "woken s1" "ma_stage m1 = SuWaiting"
    "kept m m1" "cl_shutdown (ma_client m1) = cl_shutdown (ma_client m)"
    "cl_connection_generation (ma_client m1) = cl_connection_generation (ma_client m)"
proof (cases "se_signal s")
  case True
  then show thesis using assms(1,3) by (intro that [of m s]) (simp_all add: woken_def kept_def)
next
  case False
  then obtain r e where r: "se_task s r = Signalling e" using assms(2) by (auto simp: told_def)
  let ?s1 = "(goto r Stopped s)\<lparr>se_signal := True\<rparr>"
  have "client_step X sh m (put_session old ?s1 [] (task_ends r s (ma_client m)) m)"
    by (rule client_step.session [OF session_step.signal [OF _ r]]) (simp add: assms(1))
  then show thesis
    using assms(3) by (intro that [of "put_session old ?s1 [] (task_ends r s (ma_client m)) m" ?s1])
      (auto simp: task_ends_def close_queue_def woken_def kept_def put_session_def)
qed

lemma woken_goes_on:
  assumes "ma_sessions m = old @ [s]" "woken s" "ma_stage m = SuWaiting" "\<not> cl_shutdown (ma_client m)"
    and "cl_connection_generation (ma_client m) \<noteq> - 1"
  shows "\<exists>m'. (client_step X sh)\<^sup>*\<^sup>* m m' \<and> kept m m' \<and>
    ma_stage m' = (if cc_auto_reconnect (cl_config (ma_client m)) then SuConnecting (cl_connection_generation (ma_client m) + 1) else SuDone)"
proof -
  obtain ready nxt where er: "end_round None (Inr ()) (ma_client m) (ma_supervisor m) = (ready, nxt)" by fastforce
  let ?a = "after_round nxt m" let ?b = "?a\<lparr>ma_stage := SuTop\<rparr>"
  let ?g = "cl_connection_generation (ma_client m) + 1" let ?cl = "(ma_client m)\<lparr>cl_connection_generation := ?g\<rparr>"
  let ?c = "?b\<lparr>ma_client := ?cl, ma_stage := SuConnecting ?g\<rparr>"
  have wake: "client_step X sh m ?a"
    by (rule client_step.supervisor [OF supervisor_step.wakes [OF assms(3,1,2) er]])
  have nxt: "nxt = None \<longleftrightarrow> \<not> cc_auto_reconnect (cl_config (ma_client m))"
    using er assms(4) by (auto simp: end_round_def Let_def split: if_splits)
  show ?thesis
  proof (cases nxt)
    case None
    then show ?thesis using r_into_rtranclp [of "client_step X sh", OF wake] nxt by (intro exI [of _ ?a]) (simp add: kept_def)
  next
    case (Some x)
    have b: "client_step X sh ?a ?b"
      by (rule client_step.supervisor [OF supervisor_step.slept [of _ "snd x"]]) (simp add: Some split: prod.split)
    have "client_step X sh ?b ?c"
      by (rule client_step.supervisor [OF supervisor_step.round]) (use assms(4,5) in \<open>simp_all add: begin_round_def Let_def\<close>)
    from converse_rtranclp_into_rtranclp [OF wake converse_rtranclp_into_rtranclp [OF b r_into_rtranclp [of "client_step X sh", OF this]]]
    show ?thesis using nxt Some by (intro exI [of _ ?c]) (simp add: kept_def)
  qed
qed

lemma supervisor_goes_on:
  assumes "(client_step X sh)\<^sup>*\<^sup>* (connect url config) m"
    and "ma_stage m = SuWaiting" "\<not> cl_is_connected (ma_client m)" "\<not> cl_shutdown (ma_client m)"
    and "cl_connection_generation (ma_client m) \<noteq> - 1"
  shows "(\<exists>old s. ma_sessions m = old @ [s] \<and> told s) \<and>
    (\<exists>m'. (client_step X sh)\<^sup>*\<^sup>* m m' \<and> kept m m' \<and>
      ma_stage m' = (if cc_auto_reconnect (cl_config (ma_client m)) then SuConnecting (cl_connection_generation (ma_client m) + 1) else SuDone))"
proof -
  have "stage_ok m" using machine_ok_reach [OF assms(1)] by (simp add: machine_ok_def sup_ok_def)
  then have "ma_sessions m \<noteq> []" "told (last (ma_sessions m))" using assms(2-4) by (simp_all add: stage_ok_def Let_def)
  then obtain old s where s: "ma_sessions m = old @ [s]" "told s" by (metis append_butlast_last_id)
  obtain m1 s1 where m1: "(client_step X sh)\<^sup>*\<^sup>* m m1" "ma_sessions m1 = old @ [s1]" "woken s1" "ma_stage m1 = SuWaiting" "kept m m1"
      "cl_shutdown (ma_client m1) = cl_shutdown (ma_client m)" "cl_connection_generation (ma_client m1) = cl_connection_generation (ma_client m)"
    using told_fires [OF s assms(2)] by metis
  have "\<not> cl_shutdown (ma_client m1)" "cl_connection_generation (ma_client m1) \<noteq> - 1" using assms(4,5) m1(6,7) by simp_all
  from woken_goes_on [OF m1(2-4) this, of X sh] obtain m' where "(client_step X sh)\<^sup>*\<^sup>* m1 m'" "kept m m'"
      "ma_stage m' = (if cc_auto_reconnect (cl_config (ma_client m)) then SuConnecting (cl_connection_generation (ma_client m) + 1) else SuDone)"
    using m1(5) unfolding m1(7) by (auto simp: kept_def)
  with rtranclp_trans [OF m1(1)] s show ?thesis by blast
qed

text \<open>
  C23. The supervisor never misses the end of a session. When it watches a session and the client is disconnected although nobody
  closed it, the session's signal was sent or one of its tasks is about to send it; and from there, in a few steps of that task
  and the supervisor alone, the supervisor starts the next attempt under a new generation, or ends when reconnecting is off.
\<close>

theorem supervisor_is_woken:
  assumes "(client_step X sh)\<^sup>*\<^sup>* (connect url config) m"
    and "ma_stage m = SuWaiting" "\<not> cl_is_connected (ma_client m)" "\<not> cl_shutdown (ma_client m)"
    and "cl_connection_generation (ma_client m) \<noteq> - 1"
  shows "(\<exists>old s. ma_sessions m = old @ [s] \<and> told s) \<and>
    (\<exists>m'. (client_step X sh)\<^sup>*\<^sup>* m m' \<and> kept m m' \<and>
      ma_stage m' = (if cc_auto_reconnect (cl_config (ma_client m)) then SuConnecting (cl_connection_generation (ma_client m) + 1) else SuDone))"
  by (rule supervisor_goes_on [OF assms])


subsection \<open>A run of the client\<close>

text \<open>A client connects in three steps, queues a call, and its session ends by the idle timeout of the reader.\<close>

definition sample_session :: session where
  "sample_session = \<lparr>se_generation = 1, se_channel = 0, se_codec = codec_plaintext, se_task = (\<lambda>_. Running), se_signal = False, se_wire = []\<rparr>"

abbreviation sample_connect :: machine where
  "sample_connect \<equiv> connect ''ws://a'' config_plaintext"

definition sample_established :: machine where
  "sample_established = sample_connect
     \<lparr>ma_client := install_session 0 ((ma_client sample_connect)\<lparr>cl_connection_generation := 1\<rparr>),
      ma_stage := SuWaiting, ma_next := 1, ma_ready := Some (Inr ()), ma_supervisor := \<lparr>su_ready = False, su_attempt = 0\<rparr>,
      ma_sessions := [sample_session]\<rparr>"

lemma establish_plain:
  assumes "\<not> cc_use_ecdh (cl_config cl)" "cc_credential (cl_config cl) = None" "client_ok cl"
  shows "establish_connection X r1 r2 (\<lambda>_. Inr ()) n1 f1 n2 f2 w cl = (Inr (cc_codec (cl_config cl)), install_session w cl)"
proof -
  have "0 < length (cl_urls cl)" "cl_last_url_idx cl < length (cl_urls cl)"
    using assms(3) by (auto simp: client_ok_def session_ok_def)
  then have "connect_any (\<lambda>_. Inr ()) cl = (Inr (cl_last_url_idx cl), cl)"
    by (simp add: connect_any_def Let_def upt_conv_Cons)
  then show ?thesis using assms(1,2) by (simp add: establish_connection_def client_auth_def)
qed

lemma sample_reached: "(client_step X sh)\<^sup>*\<^sup>* sample_connect sample_established"
proof -
  define cl where "cl = (ma_client sample_connect)\<lparr>cl_connection_generation := 1\<rparr>"
  define m1 where "m1 = sample_connect\<lparr>ma_client := cl, ma_stage := SuConnecting 1\<rparr>"
  define m2 where "m2 = m1\<lparr>ma_client := install_session 0 cl, ma_next := Suc (ma_next m1), ma_stage := SuEmitting 1 0 codec_plaintext\<rparr>"
  note init = connect_def machine_init_def client_new_def config_plaintext_def
  have 1: "supervisor_step X sample_connect m1"
    unfolding m1_def by (rule supervisor_step.round) (simp_all add: init begin_round_def cl_def)
  have ok: "client_ok cl" by (simp add: cl_def init client_ok_def tables_ok_def waits_ok_def session_ok_def)
  have "establish_connection X (Inr []) (Inr []) (\<lambda>_. Inr ()) (Inr ()) TimedOut (Inr ()) TimedOut 0 cl = (Inr codec_plaintext, install_session 0 cl)"
    by (subst establish_plain [OF _ _ ok]) (simp_all add: cl_def init)
  then have 2: "supervisor_step X m1 m2"
    using supervisor_step.establishes [of m1 1 X "Inr []" "Inr []" "\<lambda>_. Inr ()" "Inr ()" TimedOut "Inr ()" TimedOut]
    by (simp add: m2_def m1_def connect_def machine_init_def)
  have 3: "supervisor_step X m2 sample_established"
    using supervisor_step.spawn [of m2 1 0 codec_plaintext X]
    by (simp add: m2_def m1_def cl_def sample_established_def sample_session_def connect_def machine_init_def supervisor_new_def)
  from 1 2 3 show ?thesis by (meson client_step.supervisor r_into_rtranclp rtranclp_trans)
qed

lemma established_simps:
  "ma_stage sample_established = SuWaiting" "ma_sessions sample_established = [sample_session]" "ma_next sample_established = 1"
  "ma_calls sample_established = []" "ma_received sample_established = []" "ma_returned sample_established = []"
  "ma_ready sample_established = Some (Inr ())" "ma_closers sample_established = []"
  "cl_is_connected (ma_client sample_established)" "cl_connection_generation (ma_client sample_established) = 1"
  "\<not> cl_shutdown (ma_client sample_established)" "cl_config (ma_client sample_established) = config_plaintext"
  "cl_writer (ma_client sample_established) = Some 0" "cl_channels (ma_client sample_established) 0 = Some (channel_new 256)"
  "cl_next_request_id (ma_client sample_established) = 0"
  by (simp_all add: sample_established_def connect_def machine_init_def install_session_def emit_connected_def client_new_def Let_def
      CLIENT_OUTBOUND_QUEUE_CAPACITY_def)

lemma sample_called:
  "\<exists>m. (client_step X sh)\<^sup>*\<^sup>* sample_connect m \<and> ma_calls m = [Waiting (RequestKey 1) 1 0] \<and> ma_sessions m = [sample_session] \<and>
     ma_stage m = SuWaiting \<and> ma_received m = [] \<and> ma_returned m = [] \<and> cl_is_connected (ma_client m) \<and> \<not> cl_shutdown (ma_client m) \<and>
     cl_connection_generation (ma_client m) = 1 \<and> ma_ready m = Some (Inr ()) \<and> ma_closers m = [] \<and> cl_config (ma_client m) = config_plaintext"
proof -
  define e k where "e = sample_established" and "k = ApiCall ''echo'' (Object []) []"
  define m1 where "m1 = e\<lparr>ma_started := Suc (ma_started e), ma_calls := ma_calls e @ [Checked k]\<rparr>"
  obtain key p cl where r: "register_call k 1 (ma_client e) = (key, p, cl)" by (metis surj_pair)
  have key: "key = RequestKey 1" "cl_config cl = config_plaintext"
    using r by (auto simp: call_register_def Let_def established_simps e_def k_def)
  note s = register_call_simps [OF r] established_simps [folded e_def]
  define m2 where "m2 = m1\<lparr>ma_client := cl, ma_next := Suc (ma_next m1), ma_calls := [] @ Registered key (ma_next m1) p # []\<rparr>"
  define m3 where "m3 = m2\<lparr>ma_calls := [] @ Sending key 1 p 0 # []\<rparr>"
  define cl' where "cl' = cl\<lparr>cl_channels := (cl_channels cl)(0 \<mapsto> (channel_new 256)\<lparr>ch_queue := [ClientPacket p]\<rparr>)\<rparr>"
  define m4 where "m4 = m3\<lparr>ma_client := cl', ma_calls := [] @ Waiting key 1 0 # []\<rparr>"
  have 1: "call_step e m1" unfolding m1_def by (rule call_step.checked) (simp add: s)
  have "register_call k (ma_next m1) (ma_client m1) = (key, p, cl)" using r by (simp add: m1_def s)
  then have 2: "call_step m1 m2" unfolding m2_def by (rule call_step.register [rotated 2]) (simp_all add: m1_def k_def s)
  have 3: "call_step m2 m3" unfolding m3_def by (rule call_step.writer) (simp_all add: m2_def m1_def s)
  have "send_on 0 (ClientPacket p) cl = Some (Inr (), cl')"
    by (simp add: send_on_def s send_def try_send_def cl'_def) (simp add: channel_new_def)
  then have 4: "call_step m3 m4" unfolding m4_def by (intro call_step.sent) (simp_all add: m3_def m2_def)
  have "ma_ready m1 = Some (Inr ())" "ma_ready m2 = Some (Inr ())" "ma_ready m3 = Some (Inr ())" by (simp_all add: m3_def m2_def m1_def s)
  then have "(client_step X sh)\<^sup>*\<^sup>* e m4"
    using 1 2 3 4 s by (meson client_step.call r_into_rtranclp rtranclp_trans)
  then have "(client_step X sh)\<^sup>*\<^sup>* sample_connect m4"
    using sample_reached unfolding e_def by (rule rtranclp_trans [rotated])
  then show ?thesis
    by (intro exI [of _ m4]) (simp add: m4_def m3_def m2_def m1_def cl'_def key s)
qed

lemma sample_disconnected:
  "\<exists>m. (client_step X sh)\<^sup>*\<^sup>* sample_connect m \<and> ma_calls m = [Waiting (RequestKey 1) 1 0] \<and> ma_stage m = SuWaiting \<and>
     ma_received m = [] \<and> ma_returned m = [] \<and> \<not> cl_is_connected (ma_client m) \<and> \<not> cl_shutdown (ma_client m) \<and>
     cl_connection_generation (ma_client m) = 1 \<and> ma_ready m = Some (Inr ()) \<and> ma_closers m = [] \<and> cl_config (ma_client m) = config_plaintext"
proof -
  obtain m where m: "(client_step X sh)\<^sup>*\<^sup>* sample_connect m" "ma_calls m = [Waiting (RequestKey 1) 1 0]"
      "ma_sessions m = [sample_session]" "ma_stage m = SuWaiting" "ma_received m = []" "ma_returned m = []" "cl_is_connected (ma_client m)"
      "\<not> cl_shutdown (ma_client m)" "cl_connection_generation (ma_client m) = 1"
      "ma_ready m = Some (Inr ())" "ma_closers m = []" "cl_config (ma_client m) = config_plaintext"
    using sample_called by metis
  let ?s = "goto ReaderTask (Reporting ClientIdleTimeout) sample_session"
  let ?m1 = "put_session [] ?s [] (ma_client m) m"
  have 1: "client_step X sh m ?m1"
    by (rule client_step.session [OF session_step.read_ends [of _ _ _ _ _ TimedOut]]) (simp_all add: m(3) sample_session_def client_read_def)
  have ok: "client_ok (ma_client m)"
    using machine_ok_reach [OF m(1)] by (simp add: machine_ok_def calls_ok_def)
  have eff: "takes_effect (se_generation ?s) (ma_client m)"
    by (simp add: takes_effect_def is_connection_generation_active_def m sample_session_def)
  let ?cl = "handle_disconnect sh (se_generation ?s) ClientIdleTimeout (ma_client m)"
  let ?m2 = "put_session [] (goto ReaderTask (Signalling ClientIdleTimeout) ?s) [] ?cl ?m1"
  have 2: "client_step X sh ?m1 ?m2"
    using client_step.session [OF session_step.report [of ?m1 "[]" ?s "[]" ReaderTask ClientIdleTimeout X sh]] eff by simp
  have "(client_step X sh)\<^sup>*\<^sup>* sample_connect ?m2"
    by (rule rtranclp.rtrancl_into_rtrancl [OF rtranclp.rtrancl_into_rtrancl [OF m(1) 1] 2])
  then show ?thesis
    using m disconnect_effect(2) [OF ok eff, of sh ClientIdleTimeout] by (intro exI [of _ ?m2]) simp
qed


theorem client_calls_accounted_witness:
  "\<exists>m. (client_step sample_externals (\<lambda>_. []))\<^sup>*\<^sup>* (connect ''ws://a'' config_plaintext) m \<and>
     ma_calls m = [Waiting (RequestKey 1) 1 0] \<and> waiting (ma_client m) (RequestKey 1) = None \<and> cl_results (ma_client m) 1 \<noteq> None"
proof -
  obtain m where m: "(client_step sample_externals (\<lambda>_. []))\<^sup>*\<^sup>* (connect ''ws://a'' config_plaintext) m"
      "ma_calls m = [Waiting (RequestKey 1) 1 0]" "\<not> cl_is_connected (ma_client m)"
    using sample_disconnected by metis
  have r: "cl_results (ma_client m) 1 \<noteq> None" using client_calls_accounted [OF m(1)] m(2,3) by auto
  have t: "tables_ok (ma_client m)" using machine_ok_reach [OF m(1)] by (simp add: machine_ok_def calls_ok_def client_ok_def)
  have "waiting (ma_client m) (RequestKey 1) = None"
  proof (rule ccontr)
    assume "waiting (ma_client m) (RequestKey 1) \<noteq> None"
    then obtain w where w: "waiting (ma_client m) (RequestKey 1) = Some w" by auto
    have "distinct (map fst (entries (ma_calls m @ ma_dropped m)))" "(RequestKey 1, w) \<in> set (entries (ma_calls m @ ma_dropped m))"
      using client_calls_accounted [OF m(1)] w by blast+
    then have "w = 1" using m(2) by (auto simp: rev_image_eqI)
    then show False using waiting_no_result [OF t w] r by simp
  qed
  then show ?thesis using m(1,2) r by blast
qed

theorem client_returns_own_answers_witness:
  "\<exists>m reason. (client_step sample_externals (\<lambda>_. []))\<^sup>*\<^sup>* (connect ''ws://a'' config_plaintext) m \<and>
     ma_returned m = [(Some (RequestKey 1), Inl (ConnectionClosed reason))]"
proof -
  obtain m where m: "(client_step sample_externals (\<lambda>_. []))\<^sup>*\<^sup>* (connect ''ws://a'' config_plaintext) m"
      "ma_calls m = [Waiting (RequestKey 1) 1 0]" "\<not> cl_is_connected (ma_client m)" "ma_received m = []" "ma_returned m = []"
      "ma_ready m = Some (Inr ())"
    using sample_disconnected by metis
  have c: "calls_ok m" using machine_ok_reach [OF m(1)] by (simp add: machine_ok_def)
  then have "cl_writer (ma_client m) = None" using m(3) by (auto simp: calls_ok_def client_ok_def session_ok_def)
  then have "cl_results (ma_client m) 1 \<noteq> None" using c m(2) by (auto simp: calls_ok_def)
  then obtain r where r: "cl_results (ma_client m) 1 = Some r" by auto
  let ?m = "returns (Some (RequestKey 1)) r (m\<lparr>ma_client := ma_client m, ma_calls := [] @ []\<rparr>)"
  have "client_step sample_externals (\<lambda>_. []) m ?m"
    by (rule client_step.call [OF _ call_step.outcome [of _ _ "RequestKey 1" 1 0]]) (simp_all only: m(2,6) outcome_result [OF r] append.simps)
  with m(1) have run: "(client_step sample_externals (\<lambda>_. []))\<^sup>*\<^sup>* (connect ''ws://a'' config_plaintext) ?m"
    by (rule rtranclp.rtrancl_into_rtrancl)
  have "justified [] (RequestKey 1) r"
    using c m(2,4) r waiting_no_result [of "ma_client m" "RequestKey 1" 1] by (auto simp: calls_ok_def tracked_def client_ok_def)
  then have "r \<noteq> Inl Disconnected" "r \<noteq> Inl Timeout" by (auto simp: justified_def)
  from client_returns_own_answers [OF run _ this, of "Some (RequestKey 1)"] obtain reason where "r = Inl (ConnectionClosed reason)"
    using m(4) by auto
  then show ?thesis using run m(5) by (intro exI [of _ ?m] exI [of _ reason]) simp
qed

theorem client_one_session_witness:
  "\<exists>m s. (client_step sample_externals (\<lambda>_. []))\<^sup>*\<^sup>* (connect ''ws://a'' config_plaintext) m \<and>
     ma_sessions m = [s] \<and> cl_writer (ma_client m) = Some (se_channel s) \<and> queue_open (ma_client m) (se_channel s)"
proof -
  have run: "(client_step sample_externals (\<lambda>_. []))\<^sup>*\<^sup>* (connect ''ws://a'' config_plaintext) (sample_established)"
    by (rule sample_reached)
  show ?thesis
    using client_one_session [OF run] run by (auto simp: established_simps)
qed

theorem supervisor_is_woken_witness:
  "\<exists>m m'. (client_step sample_externals (\<lambda>_. []))\<^sup>*\<^sup>* (connect ''ws://a'' config_plaintext) m \<and>
     \<not> cl_is_connected (ma_client m) \<and> ma_stage m = SuWaiting \<and> (client_step sample_externals (\<lambda>_. []))\<^sup>*\<^sup>* m m' \<and> ma_stage m' \<in> {SuConnecting 2, SuDone}"
proof -
  obtain m where m: "(client_step sample_externals (\<lambda>_. []))\<^sup>*\<^sup>* (connect ''ws://a'' config_plaintext) m"
      "ma_stage m = SuWaiting" "\<not> cl_is_connected (ma_client m)" "\<not> cl_shutdown (ma_client m)" "cl_connection_generation (ma_client m) = 1"
    using sample_disconnected by metis
  have "cl_connection_generation (ma_client m) \<noteq> - 1" by (simp add: m(5))
  from supervisor_is_woken [OF m(1-4) this] m show ?thesis by (auto split: if_splits)
qed


subsection \<open>A closed client\<close>

lemma shutdown_sends: "send_on ch msg cl = Some (r, cl') \<Longrightarrow> cl_shutdown cl' = cl_shutdown cl"
  by (auto simp: send_on_def split: option.splits sum.splits)

lemma shutdown_packet: "handle_packet p cl = Some cl' \<Longrightarrow> client_read X c nxt = Dispatch p \<Longrightarrow> cl_shutdown cl' = cl_shutdown cl"
  using inline_packet [of X c nxt p cl cl'] by auto

lemma shutdown_outcome: "call_outcome k w cl = (r, cl') \<Longrightarrow> cl_shutdown cl' = cl_shutdown cl"
  by (cases k) (auto simp: call_end_def send_event_end_def call_withdraw_def event_withdraw_def split: option.splits if_splits)

lemma shutdown_establish:
  "establish_connection X r1 r2 reach n1 f1 n2 f2 w cl = (r, cl') \<Longrightarrow> cl_shutdown cl' = cl_shutdown cl"
  by (auto simp: establish_connection_def connect_any_def install_session_def emit_connected_def Let_def split: sum.splits)

lemma shutdown_task_ends [simp]: "cl_shutdown (task_ends r s cl) = cl_shutdown cl"
  by (simp add: task_ends_def)

definition connecting :: "machine \<Rightarrow> bool" where
  "connecting m \<longleftrightarrow> (\<exists>g. ma_stage m = SuConnecting g)"

lemma call_step_closed: "call_step m m' \<Longrightarrow> cl_shutdown (ma_client m') = cl_shutdown (ma_client m) \<and> ma_stage m' = ma_stage m"
  by (induction rule: call_step.induct) (simp_all add: shutdown_sends shutdown_outcome register_call_simps)

lemma session_step_closed: "session_step X sh m m' \<Longrightarrow> cl_shutdown (ma_client m') = cl_shutdown (ma_client m) \<and> ma_stage m' = ma_stage m"
  by (induction rule: session_step.induct) (simp_all add: shutdown_sends shutdown_packet)

lemma close_step_closed: "close_step sh m m' \<Longrightarrow> cl_shutdown (ma_client m) \<Longrightarrow> cl_shutdown (ma_client m') \<and> ma_stage m' = ma_stage m"
  by (induction rule: close_step.induct) (simp_all add: shutdown_sends)

lemma supervisor_step_closed:
  "supervisor_step X m m' \<Longrightarrow> cl_shutdown (ma_client m) \<Longrightarrow> cl_shutdown (ma_client m') \<and> \<not> connecting m'"
  by (induction rule: supervisor_step.induct)
    (auto simp: connecting_def begin_round_def shutdown_establish split: option.splits)

lemma client_step_closed:
  assumes "client_step X sh m m'" "cl_shutdown (ma_client m)"
  shows "cl_shutdown (ma_client m') \<and> (connecting m' \<longrightarrow> connecting m)"
  using assms
proof (induction rule: client_step.induct)
  case (supervisor m m')
  then show ?case using supervisor_step_closed by blast
qed (use call_step_closed session_step_closed close_step_closed in
    \<open>force simp: connecting_def on_event_def client_on_connected_def client_on_disconnected_def Let_def\<close>)+

interpretation closed: step_invariant "client_step X sh" "\<lambda>m. cl_shutdown (ma_client m) \<and> \<not> connecting m" for X sh
  using client_step_closed by unfold_locales blast

text \<open>
  C27. A closed client makes no new attempt: once \<open>close\<close> has set its flag, the flag stays set, and if the supervisor was not in
  the middle of connecting at that moment it never connects again, whatever else happens.
\<close>

theorem closed_client_stays_closed:
  assumes "(client_step X sh)\<^sup>*\<^sup>* m m'" "cl_shutdown (ma_client m)" "\<not> connecting m"
  shows "cl_shutdown (ma_client m') \<and> \<not> connecting m'"
  using closed.run_kept [OF assms(1)] assms(2,3) by blast

theorem closed_client_stays_closed_witness:
  "\<exists>m m'. (client_step sample_externals (\<lambda>_. []))\<^sup>*\<^sup>* sample_connect m \<and> (client_step sample_externals (\<lambda>_. []))\<^sup>*\<^sup>* m m' \<and>
     ma_closers m = [CloseSend 0] \<and> ma_closers m' = [CloseReport] \<and> cl_shutdown (ma_client m') \<and> \<not> connecting m'"
proof -
  define e where "e = sample_established"
  note s = established_simps [folded e_def]
  define m where "m = e\<lparr>ma_client := (ma_client e)\<lparr>cl_shutdown := True\<rparr>, ma_closers := [CloseSend 0]\<rparr>"
  have "close_step (\<lambda>_. []) e m" using close_step.close [of "\<lambda>_. []" e] by (simp add: m_def s)
  then have "client_step sample_externals (\<lambda>_. []) e m" using s(7) by (intro client_step.closing)
  then have run: "(client_step sample_externals (\<lambda>_. []))\<^sup>*\<^sup>* sample_connect m"
    using sample_reached unfolding e_def by (rule rtranclp.rtrancl_into_rtrancl [rotated])
  obtain r cl where send: "send_on 0 ClientClose (ma_client m) = Some (r, cl)"
    by (simp add: send_on_def m_def s send_def try_send_def) (simp add: channel_new_def)
  define m' where "m' = m\<lparr>ma_client := cl, ma_closers := [] @ CloseReport # []\<rparr>"
  have "close_step (\<lambda>_. []) m m'" unfolding m'_def by (rule close_step.close_sent [OF _ send]) (simp add: m_def)
  then have "client_step sample_externals (\<lambda>_. []) m m'" by (intro client_step.closing) (simp add: m_def s)
  then have step: "(client_step sample_externals (\<lambda>_. []))\<^sup>*\<^sup>* m m'" by (rule rtranclp.rtrancl_into_rtrancl [OF rtranclp.rtrancl_refl])
  have "cl_shutdown (ma_client m)" "\<not> connecting m" by (simp_all add: m_def s connecting_def)
  from closed_client_stays_closed [OF step this] run step show ?thesis
    by (intro exI [of _ m] exI [of _ m']) (simp add: m_def m'_def)
qed

text \<open>
  C26. But \<open>close\<close> can be missed. A \<open>close\<close> that runs while the supervisor is connecting again finds no session, so nothing is
  closed, and the supervisor does not look at the flag again before it installs the session: from every such state the client can
  get to be closed (\<open>close\<close> has returned) and yet connected, with a live session.
\<close>

theorem close_can_be_missed:
  assumes "(client_step X sh)\<^sup>*\<^sup>* (connect url config) m" "ma_stage m = SuConnecting g" "ma_ready m = Some (Inr ())" "ma_closers m = []"
    and "\<not> cc_use_ecdh (cl_config (ma_client m))" "cc_credential (cl_config (ma_client m)) = None"
  shows "\<exists>m'. (client_step X sh)\<^sup>*\<^sup>* m m' \<and> cl_shutdown (ma_client m') \<and> ma_closers m' = [] \<and>
    cl_is_connected (ma_client m') \<and> ma_stage m' = SuWaiting \<and> live (last (ma_sessions m'))"
proof -
  have ok: "client_ok (ma_client m)" "\<not> cl_is_connected (ma_client m)"
    using machine_ok_reach [OF assms(1)] assms(2) by (simp_all add: machine_ok_def calls_ok_def sup_ok_def stage_ok_def Let_def)
  then have w: "cl_writer (ma_client m) = None" by (auto simp: client_ok_def session_ok_def)
  define cl where "cl = (ma_client m)\<lparr>cl_shutdown := True\<rparr>"
  define m1 where "m1 = m\<lparr>ma_client := cl, ma_closers := [] @ CloseReport # []\<rparr>"
  define m2 where "m2 = m1\<lparr>ma_client := cl, ma_closers := [] @ []\<rparr>"
  define m3 where "m3 = m2\<lparr>ma_client := install_session (ma_next m2) cl, ma_next := Suc (ma_next m2),
    ma_stage := SuEmitting g (ma_next m2) (cc_codec (cl_config cl))\<rparr>"
  have ok': "client_ok cl" using ok(1) quiet_fields(5) [of "ma_client m"] by (simp add: quiet_def cl_def)
  have 1: "close_step sh m m1" using close_step.close [of sh m] assms(4) w by (simp add: m1_def cl_def)
  have "handle_disconnect sh (cl_connection_generation cl) Disconnected cl = cl"
    by (rule disconnect_ignored) (simp add: takes_effect_def cl_def ok(2))
  then have 2: "close_step sh m1 m2" using close_step.closed [of m1 "[]" "[]" sh] by (simp add: m2_def m1_def)
  have "establish_connection X (Inr []) (Inr []) (\<lambda>_. Inr ()) (Inr ()) TimedOut (Inr ()) TimedOut (ma_next m2) cl =
      (Inr (cc_codec (cl_config cl)), install_session (ma_next m2) cl)"
    by (rule establish_plain [OF _ _ ok']) (use assms(5,6) in \<open>simp_all add: cl_def\<close>)
  then have 3: "supervisor_step X m2 m3"
    unfolding m3_def by (intro supervisor_step.establishes) (simp_all add: m2_def m1_def assms(2))
  obtain m4 where 4: "supervisor_step X m3 m4" "ma_client m4 = ma_client m3" "ma_closers m4 = []" "ma_stage m4 = SuWaiting" "live (last (ma_sessions m4))"
    using supervisor_step.spawn [of m3 g "ma_next m2" "cc_codec (cl_config cl)" X] by (simp add: m3_def m2_def live_def)
  have "ma_ready m1 = Some (Inr ())" using assms(3) by (simp add: m1_def)
  with 1 2 3 4(1) assms(3) have "(client_step X sh)\<^sup>*\<^sup>* m m4"
    by (meson client_step.closing client_step.supervisor r_into_rtranclp rtranclp_trans)
  then show ?thesis
    using 4(2-5) install_effect(5,7) [OF ok', of "ma_next m2"] by (intro exI [of _ m4]) (simp add: m3_def cl_def)
qed

theorem close_can_be_missed_witness:
  "\<exists>m. (client_step sample_externals (\<lambda>_. []))\<^sup>*\<^sup>* sample_connect m \<and> cl_shutdown (ma_client m) \<and> ma_closers m = [] \<and>
     cl_is_connected (ma_client m) \<and> live (last (ma_sessions m))"
proof -
  obtain m where m: "(client_step sample_externals (\<lambda>_. []))\<^sup>*\<^sup>* sample_connect m" "ma_stage m = SuWaiting" "\<not> cl_is_connected (ma_client m)"
      "\<not> cl_shutdown (ma_client m)" "cl_connection_generation (ma_client m) = 1" "ma_ready m = Some (Inr ())" "ma_closers m = []"
      "cl_config (ma_client m) = config_plaintext"
    using sample_disconnected by metis
  have "cl_connection_generation (ma_client m) \<noteq> - 1" by (simp add: m(5))
  from supervisor_goes_on [OF m(1-4) this] obtain m2 where m2: "(client_step sample_externals (\<lambda>_. []))\<^sup>*\<^sup>* m m2" "kept m m2" "ma_stage m2 = SuConnecting 2"
    using m(5,8) by (auto simp: config_plaintext_def)
  have run: "(client_step sample_externals (\<lambda>_. []))\<^sup>*\<^sup>* sample_connect m2" by (rule rtranclp_trans [OF m(1) m2(1)])
  have "ma_ready m2 = Some (Inr ())" "ma_closers m2 = []" "\<not> cc_use_ecdh (cl_config (ma_client m2))" "cc_credential (cl_config (ma_client m2)) = None"
    using m(6-8) m2(2) by (simp_all add: kept_def config_plaintext_def)
  from close_can_be_missed [OF run m2(3) this] show ?thesis using rtranclp_trans [OF run] by blast
qed

text \<open>
  C28. The client's record is well-formed in every reachable state: the current URL is one of the configured ones; it is connected
  exactly when it has a writer, and that is an existing queue; no queue holds more than 256 messages; no id is in a
  table twice, and none beyond the counter that hands them out.
\<close>

theorem client_record_well_formed:
  assumes "(client_step X sh)\<^sup>*\<^sup>* (connect url config) m"
  defines "cl \<equiv> ma_client m"
  shows "cl_last_url_idx cl < length (cl_urls cl) \<and> (cl_is_connected cl \<longleftrightarrow> cl_writer cl \<noteq> None) \<and>
    (\<forall>ch. cl_writer cl = Some ch \<longrightarrow> cl_channels cl ch \<noteq> None) \<and>
    (\<forall>ch q. cl_channels cl ch = Some q \<longrightarrow> length (ch_queue q) \<le> 256) \<and>
    distinct (map fst (cl_pending_api cl)) \<and> distinct (map fst (cl_pending_event cl)) \<and>
    (\<forall>i \<in> fst ` set (cl_pending_api cl). i \<le> cl_next_request_id cl) \<and> (\<forall>i \<in> fst ` set (cl_pending_event cl). i \<le> cl_next_event_id cl)"
proof -
  have ok: "client_ok cl" using machine_ok_reach [OF assms(1)] by (simp add: machine_ok_def calls_ok_def cl_def)
  then have "channel_ok q \<and> ch_capacity q = 256" if "cl_channels cl ch = Some q" for ch q
    using that by (auto simp: client_ok_def session_ok_def CLIENT_OUTBOUND_QUEUE_CAPACITY_def)
  then have "length (ch_queue q) \<le> 256" if "cl_channels cl ch = Some q" for ch q
    using that by (metis channel_ok_def)
  then show ?thesis using ok by (auto simp: client_ok_def session_ok_def tables_ok_def waits_ok_def)
qed

theorem client_record_well_formed_witness:
  "let cl = ma_client (sample_established) in cl_is_connected cl \<and> cl_writer cl = Some 0 \<and> cl_channels cl 0 \<noteq> None"
  using client_record_well_formed [OF sample_reached [of sample_externals "\<lambda>_. []"]]
  by (simp add: established_simps)


subsection \<open>The pieces and the whole\<close>

text \<open>What an event's own task does, step by step, is what \<open>handle_packet\<close> does when nothing intervenes.\<close>

lemma dispatch_is_handle_packet:
  assumes "pe_body packet = EventEmit event_id name data atts meta expect_ack"
  shows "handle_packet packet cl =
    (case dispatch_next packet cl of Acking ch msg # _ \<Rightarrow> map_option snd (send_on ch msg cl) | _ \<Rightarrow> Some cl)"
  using assms by (simp add: handle_packet_def send_outbound_def split: outcome.split option.split)

text \<open>Likewise the start of a call: \<open>call_begin\<close> is the run of its steps with nothing in between.\<close>

lemma send_steps:
  assumes "ma_calls m = cs @ [Registered key w p]" "send_outbound (ClientPacket p) (ma_client m) = Some (r, cl)"
  shows "\<exists>m'. call_step\<^sup>*\<^sup>* m m' \<and>
    (case r of
       Inl e \<Rightarrow> ma_client m' = withdraw_key key cl \<and> ma_calls m' = cs \<and> ma_returned m' = ma_returned m @ [(Some key, Inl Disconnected)]
     | Inr _ \<Rightarrow> ma_client m' = cl \<and> ma_returned m' = ma_returned m \<and> (\<exists>ch. ma_calls m' = cs @ [Waiting key w ch]))"
proof (cases "cl_writer (ma_client m)")
  case None
  then have "r = Inl Disconnected" "cl = ma_client m" using assms(2) by (auto simp: send_outbound_def)
  then show ?thesis
    using r_into_rtranclp [of call_step, OF call_step.no_writer [OF assms(1) None]] by (intro exI) auto
next
  case (Some ch)
  define m1 where "m1 = m\<lparr>ma_calls := cs @ [Sending key w p ch]\<rparr>"
  have 1: "call_step m m1" unfolding m1_def by (rule call_step.writer [OF assms(1) Some])
  have so: "send_on ch (ClientPacket p) (ma_client m1) = Some (r, cl)" "ma_calls m1 = cs @ [Sending key w p ch]"
    using assms(2) Some by (simp_all add: send_outbound_def m1_def)
  show ?thesis
  proof (cases r)
    case (Inl e)
    from converse_rtranclp_into_rtranclp [of call_step, OF 1 r_into_rtranclp [of call_step, OF call_step.unsent [OF so(2) so(1) [unfolded Inl]]]]
    show ?thesis using Inl by (intro exI) (auto simp: m1_def)
  next
    case (Inr u)
    from converse_rtranclp_into_rtranclp [of call_step, OF 1 r_into_rtranclp [of call_step, OF call_step.sent [OF so(2)]]] so(1) Inr
    show ?thesis by (intro exI [of _ "m1\<lparr>ma_client := cl, ma_calls := cs @ [Waiting key w ch]\<rparr>"]) (simp add: m1_def)
  qed
qed

lemma call_begin_steps:
  assumes "call_begin (ma_next m) rt params atts (ma_client m) = Some (r, cl')" "cl_next_request_id (ma_client m) \<noteq> - 1"
  shows "\<exists>m'. call_step\<^sup>*\<^sup>* m m' \<and> ma_client m' = cl' \<and>
    (case r of
       Inl e \<Rightarrow> ma_calls m' = ma_calls m \<and> (\<exists>key. ma_returned m' = ma_returned m @ [(key, Inl e)])
     | Inr i \<Rightarrow> ma_returned m' = ma_returned m \<and> (\<exists>ch. ma_calls m' = ma_calls m @ [Waiting (RequestKey i) (ma_next m) ch]))"
proof (cases "cl_is_connected (ma_client m)")
  case False
  then have "r = Inl Disconnected" "cl' = ma_client m" using assms(1) by (auto simp: call_begin_def)
  then show ?thesis
    using r_into_rtranclp [of call_step, OF call_step.refused [OF False]]
    by (intro exI [of _ "returns None (Inl Disconnected) (m\<lparr>ma_started := Suc (ma_started m)\<rparr>)"]) simp
next
  case True
  let ?k = "ApiCall rt params atts"
  obtain i cl where reg: "call_register (ma_next m) (ma_client m) = (i, cl)" by fastforce
  define p where "p = request_packet cl i rt params atts"
  define m1 where "m1 = m\<lparr>ma_started := Suc (ma_started m), ma_calls := ma_calls m @ [Checked ?k]\<rparr>"
  define m2 where "m2 = m1\<lparr>ma_client := cl, ma_next := Suc (ma_next m1), ma_calls := ma_calls m @ [Registered (RequestKey i) (ma_next m) p]\<rparr>"
  have 1: "call_step m m1" unfolding m1_def by (rule call_step.checked [OF True])
  have 2: "call_step m1 m2"
    using call_step.register [of m1 "ma_calls m" ?k "[]" "RequestKey i" p cl] reg assms(2) by (simp add: m1_def m2_def p_def)
  have start: "call_step\<^sup>*\<^sup>* m m2" using 1 2 by (meson r_into_rtranclp rtranclp_trans)
  have send: "(case send_outbound (ClientPacket p) (ma_client m2) of None \<Rightarrow> None | Some (Inl _, cl) \<Rightarrow> Some (Inl Disconnected, call_withdraw i cl)
      | Some (Inr _, cl) \<Rightarrow> Some (Inr i, cl)) = Some (r, cl')"
    using assms(1) True by (simp add: call_begin_def reg p_def m2_def)
  then obtain r0 cl1 where so: "send_outbound (ClientPacket p) (ma_client m2) = Some (r0, cl1)" by (auto split: option.splits)
  have "ma_calls m2 = ma_calls m @ [Registered (RequestKey i) (ma_next m) p]" by (simp add: m2_def)
  from send_steps [OF this so] obtain m' where m': "call_step\<^sup>*\<^sup>* m2 m'"
    "case r0 of Inl e \<Rightarrow> ma_client m' = withdraw_key (RequestKey i) cl1 \<and> ma_calls m' = ma_calls m \<and> ma_returned m' = ma_returned m2 @ [(Some (RequestKey i), Inl Disconnected)]
     | Inr _ \<Rightarrow> ma_client m' = cl1 \<and> ma_returned m' = ma_returned m2 \<and> (\<exists>ch. ma_calls m' = ma_calls m @ [Waiting (RequestKey i) (ma_next m) ch])"
    by blast
  have "ma_returned m2 = ma_returned m" by (simp add: m2_def m1_def)
  then show ?thesis
    using rtranclp_trans [OF start m'(1)] m'(2) send so by (intro exI [of _ m']) (auto split: sum.splits)
qed


subsection \<open>What connect returns\<close>

definition ready_ok :: "machine \<Rightarrow> bool" where
  "ready_ok m \<longleftrightarrow>
     (case ma_ready m of
        None \<Rightarrow> su_ready (ma_supervisor m) \<and> ma_sessions m = [] \<and> \<not> cl_shutdown (ma_client m) \<and> ma_stage m \<noteq> SuDone
      | Some (Inr _) \<Rightarrow> \<not> su_ready (ma_supervisor m) \<and> ma_sessions m \<noteq> []
      | Some (Inl _) \<Rightarrow> ma_stage m = SuDone \<and> ma_sessions m = [])"

lemma session_step_frame:
  "session_step X sh m m' \<Longrightarrow> ma_ready m' = ma_ready m \<and> ma_supervisor m' = ma_supervisor m \<and> (ma_sessions m' = [] \<longleftrightarrow> ma_sessions m = [])"
  by (induction rule: session_step.induct) simp_all

lemma call_step_frame:
  "call_step m m' \<Longrightarrow> ma_ready m' = ma_ready m \<and> ma_supervisor m' = ma_supervisor m \<and> ma_sessions m' = ma_sessions m"
  by (induction rule: call_step.induct) (simp_all add: returns_def)

lemma close_step_frame:
  "close_step sh m m' \<Longrightarrow> ma_ready m' = ma_ready m \<and> ma_supervisor m' = ma_supervisor m \<and> ma_sessions m' = ma_sessions m"
  by (induction rule: close_step.induct) simp_all

lemma ready_ok_supervisor:
  assumes "supervisor_step X m m'" "ready_ok m"
  shows "ready_ok m'"
  using assms(1)
proof (cases rule: supervisor_step.cases)
  case over
  then show ?thesis
    using assms(2) by (auto simp: ready_ok_def begin_round_def Let_def split: option.splits sum.splits if_splits)
next
  case (round g cl)
  then show ?thesis
    using assms(2) by (auto simp: ready_ok_def begin_round_def Let_def split: option.splits sum.splits if_splits)
next
  case (fails g r1 r2 reach n1 f1 n2 f2 e cl buf ready next')
  have "ready = (if su_ready (ma_supervisor m) then Some (Inl e) else None)" "su_ready (ma_supervisor m) \<Longrightarrow> next' = None"
      "next' = Some (su, d) \<Longrightarrow> \<not> su_ready su" for su d
    using fails(4) by (auto simp: end_round_def Let_def split: if_splits)
  then show ?thesis
    using assms(2) fails(1,2) by (auto simp: ready_ok_def after_round_def split: option.splits sum.splits)
next
  case (establishes g r1 r2 reach n1 f1 n2 f2 codec cl)
  then show ?thesis
    using assms(2) shutdown_establish [OF establishes(3)] by (auto simp: ready_ok_def split: option.splits sum.splits)
next
  case (spawn g ch codec)
  then show ?thesis using assms(2) by (auto simp: ready_ok_def split: option.splits sum.splits)
next
  case (wakes ss s buf ready next')
  have "next' = Some (su, d) \<Longrightarrow> \<not> su_ready su" for su d
    using wakes(5) by (auto simp: end_round_def Let_def split: if_splits)
  then show ?thesis
    using assms(2) wakes(1-3) by (auto simp: ready_ok_def after_round_def split: option.splits sum.splits)
next
  case (slept d)
  then show ?thesis using assms(2) by (auto simp: ready_ok_def split: option.splits sum.splits)
qed

lemma ready_ok_step:
  assumes "client_step X sh m m'" "ready_ok m"
  shows "ready_ok m'"
  using assms(1)
proof (cases rule: client_step.cases)
  case session
  then show ?thesis
    using assms(2) session_step_frame [OF session] session_step_closed [OF session]
    by (auto simp: ready_ok_def split: option.splits sum.splits)
next
  case supervisor
  then show ?thesis by (rule ready_ok_supervisor [OF _ assms(2)])
next
  case call
  then show ?thesis using assms(2) call_step_frame [OF call(2)] by (auto simp: ready_ok_def)
next
  case closing
  then show ?thesis using assms(2) close_step_frame [OF closing(2)] by (auto simp: ready_ok_def)
qed (use assms(2) in \<open>auto simp: ready_ok_def\<close>)

interpretation reports: step_invariant "client_step X sh" ready_ok for X sh
  by unfold_locales (rule ready_ok_step)

lemma ready_ok_reach: "(client_step X sh)\<^sup>*\<^sup>* (connect url config) m \<Longrightarrow> ready_ok m"
  by (rule reports.run_kept, assumption) (simp add: ready_ok_def connect_def machine_init_def supervisor_new_def client_new_def)

text \<open>
  C25. What \<open>connect\<close> returns is what the supervisor reports of its first attempt: \<open>Ok\<close> only after a session was established, and
  an error only when there never was one and the supervisor has ended, so that no connection is opened behind the caller's back. The case that
  the supervisor ends without a report does not occur.
\<close>

theorem connect_reports_first_attempt:
  assumes "(client_step X sh)\<^sup>*\<^sup>* (connect url config) m"
  shows "connect_result m = ma_ready m \<and> (connect_result m = Some (Inr ()) \<longrightarrow> ma_sessions m \<noteq> []) \<and>
    (\<forall>e. connect_result m = Some (Inl e) \<longrightarrow> ma_stage m = SuDone \<and> ma_sessions m = [] \<and> \<not> cl_is_connected (ma_client m))"
proof -
  have r: "ready_ok m" by (rule ready_ok_reach [OF assms])
  have "stage_ok m" using machine_ok_reach [OF assms] by (simp add: machine_ok_def sup_ok_def)
  then have "ma_stage m = SuDone \<Longrightarrow> \<not> cl_is_connected (ma_client m)" by (simp add: stage_ok_def Let_def)
  then show ?thesis using r by (auto simp: ready_ok_def connect_result_def split: option.splits sum.splits)
qed

theorem connect_reports_first_attempt_witness:
  "\<exists>m. (client_step sample_externals (\<lambda>_. []))\<^sup>*\<^sup>* sample_connect m \<and> connect_result m = Some (Inr ()) \<and> ma_sessions m \<noteq> []"
proof -
  have "connect_result sample_established = Some (Inr ())" by (simp add: connect_result_def established_simps)
  then show ?thesis
    using sample_reached connect_reports_first_attempt [OF sample_reached] by blast
qed

end
