(* ===== verification/Server_Machine.thy ===== *)
theory Server_Machine
  imports Server_Connection
begin

section \<open>The tasks of a connection\<close>

text \<open>
  The concurrent part of \<open>serve_connection\<close>: the reader loop, the handler tasks it spawns under the in-flight
  semaphore, the writer task and the outbound queue between them, as a step relation. One step is one
  stretch of code between two await points: reading and classifying a message, taking a permit, running
  a handler, cloning the sender and building the message, the end of a waiting \<open>send\<close>, one message shipped. The rest of the
  server acts in between (\<open>outside\<close>). The lists \<open>cn_accepted\<close>, \<open>cn_answered\<close> and \<open>cn_lost\<close> are a
  record of what happened to data messages and influence no step. The invariant bounds the running
  handlers, accounts for every accepted message exactly once and ties every reply to its message; a live
  connection in ECDH mode loses no reply; and a connection's own steps always end, with no message pending.
\<close>

subsection \<open>State\<close>

datatype task_stage = Run packet_body | Reply packet_envelope | Send string server_outbound

record task =
  tk_key :: msg_key
  tk_stage :: task_stage

datatype reader_state =
    Reading
  | AwaitPermit msg_key packet_body
  | ReplyStage "msg_key option" packet_envelope
  | SendStage "msg_key option" string server_outbound
  | PongStage bytes
  | Ended "server_error + unit"
  | Closing "server_error + unit"
  | Gone

record conn =
  cn_reader :: reader_state
  cn_tasks :: "task list"
  cn_writing :: bool
  cn_wire :: "ws_message list"
  cn_accepted :: "msg_key list"
  cn_answered :: "(msg_key \<times> server_outbound) list"
  cn_lost :: "msg_key list"

definition conn_init :: conn where
  "conn_init = \<lparr>cn_reader = Reading, cn_tasks = [], cn_writing = True, cn_wire = [],
     cn_accepted = [], cn_answered = [], cn_lost = []\<rparr>"

type_synonym conn_state = "conn \<times> server_state \<times> limiter_state option"

subsection \<open>Effects of the reader's actions\<close>

definition opt_list :: "'a option \<Rightarrow> 'a list" where
  "opt_list x = (case x of Some a \<Rightarrow> [a] | None \<Rightarrow> [])"

text \<open>The key of a data message that passed the frame checks and decoded.\<close>

definition arrived_key :: "externals \<Rightarrow> wscall_server \<Rightarrow> frame_codec \<Rightarrow> ws_next \<Rightarrow> msg_key option" where
  "arrived_key X S c nxt =
     (case nxt of
        Received (Binary bytes) \<Rightarrow>
          (if frame_check S bytes \<noteq> None then None
           else case decode X c bytes of Inr packet \<Rightarrow> key_of (pe_body packet) | Inl _ \<Rightarrow> None)
      | _ \<Rightarrow> None)"

definition apply_action :: "reader_action \<Rightarrow> msg_key option \<Rightarrow> conn \<Rightarrow> conn" where
  "apply_action act key cn =
     (let cn' = cn\<lparr>cn_accepted := cn_accepted cn @ opt_list key\<rparr> in
      case act of
        ReplyNow packet \<Rightarrow> cn'\<lparr>cn_reader := ReplyStage key packet\<rparr>
      | SpawnHandler packet \<Rightarrow> (case key of
            Some k \<Rightarrow> cn'\<lparr>cn_reader := AwaitPermit k (pe_body packet)\<rparr> | None \<Rightarrow> cn')
      | ProcessInline packet \<Rightarrow> cn'
      | QueuePong payload \<Rightarrow> cn'\<lparr>cn_reader := PongStage payload\<rparr>
      | Ignore \<Rightarrow> cn'
      | EndReader r \<Rightarrow> cn'\<lparr>cn_reader := Ended r\<rparr>)"

definition answered :: "msg_key option \<Rightarrow> server_outbound \<Rightarrow> server_error + unit \<Rightarrow> conn \<Rightarrow> conn" where
  "answered key msg r cn =
     (case r of
        Inr _ \<Rightarrow> cn\<lparr>cn_answered := cn_answered cn @ map (\<lambda>k. (k, msg)) (opt_list key)\<rparr>
      | Inl _ \<Rightarrow> cn\<lparr>cn_lost := cn_lost cn @ opt_list key\<rparr>)"

text \<open>What the writer does with one message of the queue: the frames it ships and whether it goes on.\<close>

definition write_out :: "externals \<Rightarrow> random \<Rightarrow> frame_codec \<Rightarrow> server_outbound \<Rightarrow> ws_message list \<times> bool" where
  "write_out X rnd c msg =
     (case msg of
        PreEncoded bytes \<Rightarrow> ([Binary bytes], True)
      | OutPacket packet \<Rightarrow> (case encode X rnd c packet of Inr f \<Rightarrow> ([Binary f], True) | Inl _ \<Rightarrow> ([], False))
      | OutPong payload \<Rightarrow> ([Pong payload], True)
      | OutClose \<Rightarrow> ([CloseFrame], False))"

definition outside :: "string \<Rightarrow> server_state \<Rightarrow> server_state \<Rightarrow> bool" where
  "outside cid st st' \<longleftrightarrow> (state_ok st \<longrightarrow> state_ok st') \<and>
     map_of (ss_clients st') cid = map_of (ss_clients st) cid \<and>
     rel_option queue_grows (ss_channels st cid) (ss_channels st' cid)"

subsection \<open>Steps\<close>

text \<open>What the connection's tasks do on their own: a socket write that completes is the last step of \<open>ship\<close>.\<close>

inductive internal_step ::
  "externals \<Rightarrow> (server_error \<Rightarrow> string) \<Rightarrow> wscall_server \<Rightarrow> frame_codec \<Rightarrow> string \<Rightarrow> socket_addr \<Rightarrow> conn_state \<Rightarrow> conn_state \<Rightarrow> bool"
  for X sh S c cid peer where
  permit: "\<lbrakk>cn_reader cn = AwaitPermit k body; length (cn_tasks cn) < sv_max_in_flight S\<rbrakk> \<Longrightarrow>
    internal_step X sh S c cid peer (cn, st, lim)
      (cn\<lparr>cn_reader := Reading, cn_tasks := cn_tasks cn @ [\<lparr>tk_key = k, tk_stage = Run body\<rparr>]\<rparr>, st, lim)"
| reply_target: "\<lbrakk>cn_reader cn = ReplyStage key p; queue_target X rnd S cid p st = Inr (s, msg)\<rbrakk> \<Longrightarrow>
    internal_step X sh S c cid peer (cn, st, lim) (cn\<lparr>cn_reader := SendStage key s msg\<rparr>, st, lim)"
| reply_fails: "\<lbrakk>cn_reader cn = ReplyStage key p; queue_target X rnd S cid p st = Inl e\<rbrakk> \<Longrightarrow>
    internal_step X sh S c cid peer (cn, st, lim)
      (cn\<lparr>cn_reader := Reading, cn_lost := cn_lost cn @ opt_list key\<rparr>, st, lim)"
| reply_sent: "\<lbrakk>cn_reader cn = SendStage key s msg; queue_send s msg st = Some (r, st')\<rbrakk> \<Longrightarrow>
    internal_step X sh S c cid peer (cn, st, lim) ((answered key msg r cn)\<lparr>cn_reader := Reading\<rparr>, st', lim)"
| pong_sent: "\<lbrakk>cn_reader cn = PongStage b; queue_send cid (OutPong b) st = Some (r, st')\<rbrakk> \<Longrightarrow>
    internal_step X sh S c cid peer (cn, st, lim)
      (cn\<lparr>cn_reader := (case r of Inr _ \<Rightarrow> Reading | Inl _ \<Rightarrow> Ended (Inr ()))\<rparr>, st', lim)"
| run: "\<lbrakk>cn_tasks cn = ts @ t # ts'; tk_stage t = Run body;
    reply_to S cid (Some peer) body st = (Returned (Some p), st')\<rbrakk> \<Longrightarrow>
    internal_step X sh S c cid peer (cn, st, lim) (cn\<lparr>cn_tasks := ts @ t\<lparr>tk_stage := Reply p\<rparr> # ts'\<rparr>, st', lim)"
| run_panics: "\<lbrakk>cn_tasks cn = ts @ t # ts'; tk_stage t = Run body;
    reply_to S cid (Some peer) body st = (Panicked, st')\<rbrakk> \<Longrightarrow>
    internal_step X sh S c cid peer (cn, st, lim)
      (cn\<lparr>cn_tasks := ts @ ts', cn_lost := cn_lost cn @ [tk_key t]\<rparr>, st', lim)"
| task_target: "\<lbrakk>cn_tasks cn = ts @ t # ts'; tk_stage t = Reply p; queue_target X rnd S cid p st = Inr (s, msg)\<rbrakk> \<Longrightarrow>
    internal_step X sh S c cid peer (cn, st, lim) (cn\<lparr>cn_tasks := ts @ t\<lparr>tk_stage := Send s msg\<rparr> # ts'\<rparr>, st, lim)"
| task_fails: "\<lbrakk>cn_tasks cn = ts @ t # ts'; tk_stage t = Reply p; queue_target X rnd S cid p st = Inl e\<rbrakk> \<Longrightarrow>
    internal_step X sh S c cid peer (cn, st, lim)
      (cn\<lparr>cn_tasks := ts @ ts', cn_lost := cn_lost cn @ [tk_key t]\<rparr>, st, lim)"
| task_sent: "\<lbrakk>cn_tasks cn = ts @ t # ts'; tk_stage t = Send s msg; queue_send s msg st = Some (r, st')\<rbrakk> \<Longrightarrow>
    internal_step X sh S c cid peer (cn, st, lim)
      ((answered (Some (tk_key t)) msg r cn)\<lparr>cn_tasks := ts @ ts'\<rparr>, st', lim)"
| ship: "\<lbrakk>cn_writing cn; ss_channels st cid = Some ch; recv ch = Some (msg, ch'); write_out X rnd c msg = (frames, goes_on)\<rbrakk> \<Longrightarrow>
    internal_step X sh S c cid peer (cn, st, lim)
      (cn\<lparr>cn_wire := cn_wire cn @ frames, cn_writing := goes_on\<rparr>,
       st\<lparr>ss_channels := (ss_channels st)(cid \<mapsto> if goes_on then ch' else close_channel ch')\<rparr>, lim)"
| close: "cn_reader cn = Ended r \<Longrightarrow>
    internal_step X sh S c cid peer (cn, st, lim) (cn\<lparr>cn_reader := Closing r\<rparr>, teardown cid st, lim)"
| finish: "cn_reader cn = Closing r \<Longrightarrow>
    internal_step X sh S c cid peer (cn, st, lim) (cn\<lparr>cn_reader := Gone, cn_writing := False\<rparr>,
      notify_disconnected S cid (Some peer) (disconnect_reason sh r) (abort_writer cid st), lim)"

text \<open>With the messages of the client, the ticker of the writer and failures of the socket.\<close>

inductive task_step ::
  "externals \<Rightarrow> (server_error \<Rightarrow> string) \<Rightarrow> wscall_server \<Rightarrow> frame_codec \<Rightarrow> string \<Rightarrow> socket_addr \<Rightarrow> conn_state \<Rightarrow> conn_state \<Rightarrow> bool"
  for X sh S c cid peer where
  internal: "internal_step X sh S c cid peer s s' \<Longrightarrow> task_step X sh S c cid peer s s'"
| read: "\<lbrakk>cn_reader cn = Reading; read_next X S c cid peer now nxt lim = (act, lim')\<rbrakk> \<Longrightarrow>
    task_step X sh S c cid peer (cn, st, lim) (apply_action act (arrived_key X S c nxt) cn, st, lim')"
| heartbeat: "cn_writing cn \<Longrightarrow>
    task_step X sh S c cid peer (cn, st, lim) (cn\<lparr>cn_wire := cn_wire cn @ [Ping []]\<rparr>, st, lim)"
| writer_fails: "cn_writing cn \<Longrightarrow>
    task_step X sh S c cid peer (cn, st, lim) (cn\<lparr>cn_writing := False\<rparr>, abort_writer cid st, lim)"

text \<open>With everything the rest of the server does in between.\<close>

inductive conn_step ::
  "externals \<Rightarrow> (server_error \<Rightarrow> string) \<Rightarrow> wscall_server \<Rightarrow> frame_codec \<Rightarrow> string \<Rightarrow> socket_addr \<Rightarrow> conn_state \<Rightarrow> conn_state \<Rightarrow> bool"
  for X sh S c cid peer where
  own: "task_step X sh S c cid peer s s' \<Longrightarrow> conn_step X sh S c cid peer s s'"
| elsewhere: "outside cid st st' \<Longrightarrow> conn_step X sh S c cid peer (cn, st, lim) (cn, st', lim')"

lemmas task_intros = internal_step.intros [THEN task_step.internal] task_step.read task_step.heartbeat task_step.writer_fails

subsection \<open>Invariants\<close>

fun reader_key :: "reader_state \<Rightarrow> msg_key option" where
  "reader_key (AwaitPermit k _) = Some k"
| "reader_key (ReplyStage key _) = key"
| "reader_key (SendStage key _ _) = key"
| "reader_key _ = None"

definition pending :: "conn \<Rightarrow> msg_key multiset" where
  "pending cn = mset (map tk_key (cn_tasks cn)) + mset (opt_list (reader_key (cn_reader cn)))"

text \<open>A queued message is the reply to a key: the packet itself, or its frame.\<close>

definition carries :: "externals \<Rightarrow> wscall_server \<Rightarrow> msg_key \<Rightarrow> server_outbound \<Rightarrow> bool" where
  "carries X S k msg \<longleftrightarrow> (\<exists>p. reply_key (pe_body p) = Some k \<and>
     (if sv_is_ecdh S then msg = OutPacket p else \<exists>rnd f. encode X rnd (sv_codec S) p = Inr f \<and> msg = PreEncoded f))"

definition task_ok :: "externals \<Rightarrow> wscall_server \<Rightarrow> task \<Rightarrow> bool" where
  "task_ok X S t \<longleftrightarrow>
     (case tk_stage t of
        Run body \<Rightarrow> key_of body = Some (tk_key t)
      | Reply p \<Rightarrow> reply_key (pe_body p) = Some (tk_key t)
      | Send s msg \<Rightarrow> carries X S (tk_key t) msg)"

fun reader_ok :: "externals \<Rightarrow> wscall_server \<Rightarrow> reader_state \<Rightarrow> bool" where
  "reader_ok X S (AwaitPermit k body) \<longleftrightarrow> key_of body = Some k"
| "reader_ok X S (ReplyStage key p) \<longleftrightarrow> (\<forall>k. key = Some k \<longrightarrow> reply_key (pe_body p) = Some k)"
| "reader_ok X S (SendStage key s msg) \<longleftrightarrow> (\<forall>k. key = Some k \<longrightarrow> carries X S k msg)"
| "reader_ok X S _ \<longleftrightarrow> True"

definition accounted :: "conn \<Rightarrow> bool" where
  "accounted cn \<longleftrightarrow> mset (cn_accepted cn) = mset (map fst (cn_answered cn)) + mset (cn_lost cn) + pending cn"

definition tied :: "externals \<Rightarrow> wscall_server \<Rightarrow> conn \<Rightarrow> bool" where
  "tied X S cn \<longleftrightarrow> (\<forall>t \<in> set (cn_tasks cn). task_ok X S t) \<and> reader_ok X S (cn_reader cn) \<and>
     (\<forall>(k, msg) \<in> set (cn_answered cn). carries X S k msg)"

definition bounded :: "wscall_server \<Rightarrow> conn \<Rightarrow> bool" where
  "bounded S cn \<longleftrightarrow> length (cn_tasks cn) \<le> sv_max_in_flight S"

inductive_cases internal_stepE: "internal_step X sh S c cid peer (cn, st, lim) (cn', st', lim')"
inductive_cases task_stepE: "task_step X sh S c cid peer (cn, st, lim) (cn', st', lim')"
inductive_cases conn_stepE: "conn_step X sh S c cid peer (cn, st, lim) (cn', st', lim')"

lemma opt_list_simps [simp]: "opt_list None = []" "opt_list (Some x) = [x]"
  by (simp_all add: opt_list_def)

lemma read_action:
  assumes "read_next X S c cid peer now nxt lim = (act, lim')"
  shows "case act of
      ReplyNow p \<Rightarrow> \<forall>k. arrived_key X S c nxt = Some k \<longrightarrow> reply_key (pe_body p) = Some k
    | SpawnHandler p \<Rightarrow> \<exists>k. arrived_key X S c nxt = Some k \<and> key_of (pe_body p) = Some k
    | _ \<Rightarrow> arrived_key X S c nxt = None"
proof (cases "\<exists>bytes. nxt = Received (Binary bytes)")
  case True
  then obtain bytes where nxt: "nxt = Received (Binary bytes)" by blast
  show ?thesis
  proof (cases "frame_check S bytes")
    case None
    show ?thesis
    proof (cases "decode X c bytes")
      case (Inr packet)
      then show ?thesis
        using assms None
        by (cases "pe_body packet")
          (auto simp: nxt read_next_def on_binary_def arrived_key_def service_busy_packet_def silent_ack_packet_def
            split: option.splits prod.splits verdict.splits)
    qed (use assms None in \<open>auto simp: nxt read_next_def on_binary_def arrived_key_def\<close>)
  qed (use assms in \<open>auto simp: nxt read_next_def on_binary_def arrived_key_def\<close>)
next
  case False
  then have "arrived_key X S c nxt = None"
    by (auto simp: arrived_key_def split: ws_next.splits ws_message.splits)
  then show ?thesis
    using assms False by (auto simp: read_next_def split: ws_next.splits ws_message.splits)
qed

lemma step_bounded:
  assumes "conn_step X sh S c cid peer (cn, st, lim) (cn', st', lim')" "bounded S cn"
  shows "bounded S cn'"
  using assms
  by (elim conn_stepE task_stepE internal_stepE)
    (auto simp: bounded_def apply_action_def answered_def Let_def split: reader_action.splits option.splits sum.splits)

lemma accounted_read:
  assumes "read_next X S c cid peer now nxt lim = (act, lim')" "cn_reader cn = Reading" "accounted cn"
  shows "accounted (apply_action act (arrived_key X S c nxt) cn)"
  using read_action [OF assms(1)] assms(2,3)
  by (auto simp: accounted_def pending_def apply_action_def Let_def split: reader_action.splits)

lemma step_accounted:
  assumes "conn_step X sh S c cid peer (cn, st, lim) (cn', st', lim')" "accounted cn"
  shows "accounted cn'"
  using assms
  by (elim conn_stepE task_stepE internal_stepE)
    (auto simp: accounted_read, auto simp: accounted_def pending_def answered_def opt_list_def
      split: option.splits sum.splits)

lemma carries_target:
  "queue_target X rnd S cid p st = Inr (s, msg) \<Longrightarrow> reply_key (pe_body p) = Some k \<Longrightarrow> carries X S k msg"
  by (auto simp: queue_target_def carries_def split: option.splits if_splits)

lemma reply_to_key:
  assumes "reply_to S cid peer body st = (Returned (Some p), st')" "key_of body = Some k"
  shows "reply_key (pe_body p) = Some k"
proof (cases body)
  case (ApiRequest i rt ps as m)
  then show ?thesis
    using assms run_api_request_shape [of S cid peer "\<lparr>ar_request_id = i, ar_route = rt, ar_params = ps, ar_attachments = as, ar_metadata = m\<rparr>" st p]
    by (auto simp: ubind_Returned)
next
  case (EventEmit i n d as m x)
  then show ?thesis
    using assms run_event_shape [of S cid peer "\<lparr>ei_event_id = i, ei_name = n, ei_data = d, ei_attachments = as, ei_metadata = m\<rparr>" st p]
    by (auto simp: ubind_Returned)
qed (use assms in auto)

lemma tied_read:
  assumes "read_next X S c cid peer now nxt lim = (act, lim')" "cn_reader cn = Reading" "tied X S cn"
  shows "tied X S (apply_action act (arrived_key X S c nxt) cn)"
  using read_action [OF assms(1)] assms(2,3)
  by (auto simp: tied_def apply_action_def Let_def split: reader_action.splits)

lemma step_tied:
  assumes "conn_step X sh S c cid peer (cn, st, lim) (cn', st', lim')" "tied X S cn"
  shows "tied X S cn'"
  using assms
  by (elim conn_stepE task_stepE internal_stepE)
    (simp_all add: tied_read, auto simp: tied_def task_ok_def answered_def opt_list_def
      dest: carries_target reply_to_key split: option.splits sum.splits)


subsection \<open>User code in the machine\<close>

definition pushing :: "'a user \<Rightarrow> bool" where
  "pushing m \<longleftrightarrow> (\<forall>st. state_ok st \<longrightarrow> only_pushes st (snd (m st)))"

lemma pushing_ureturn [simp]: "pushing (ureturn x)"
  by (simp add: pushing_def)

lemma pushing_confined: "confined h \<Longrightarrow> pushing (h ctx)"
  by (simp add: pushing_def confined_def)

lemma pushing_catch_unwind: "pushing m \<Longrightarrow> pushing (catch_unwind m)"
  unfolding pushing_def catch_unwind_def by (auto simp: split_beta split: outcome.splits)

lemma pushing_bind:
  assumes "pushing m" "\<And>x st st'. m st = (Returned x, st') \<Longrightarrow> pushing (f x)"
  shows "pushing (ubind m f)"
  unfolding pushing_def
proof (intro allI impI)
  fix st assume ok: "state_ok st"
  obtain o' st1 where m: "m st = (o', st1)" by fastforce
  then have p: "only_pushes st st1" using assms(1) ok by (metis pushing_def snd_conv)
  show "only_pushes st (snd (ubind m f st))"
  proof (cases o')
    case (Returned x)
    then show ?thesis
      using m p assms(2) [of st x st1] only_pushes_ok [OF p ok] by (auto simp: pushing_def intro: only_pushes_trans)
  next
    case Panicked
    then show ?thesis using m p by simp
  qed
qed

lemma pushing_ubind: "pushing m \<Longrightarrow> (\<And>x. pushing (f x)) \<Longrightarrow> pushing (ubind m f)"
  by (rule pushing_bind)

lemma pushing_call:
  assumes "confined_call h" "\<And>r. pushing (f r)"
  shows "pushing (ubind (h ctx) (\<lambda>future. ubind (catch_unwind future) f))"
proof (rule pushing_bind)
  show "pushing (h ctx)" using assms(1) by (simp add: confined_call_def pushing_confined)
  fix future st st' assume "h ctx st = (Returned future, st')"
  then have "confined (\<lambda>_ :: unit. future)" using assms(1) by (auto simp: confined_call_def)
  then have "pushing future" by (rule pushing_confined)
  then show "pushing (ubind (catch_unwind future) f)" by (intro pushing_ubind pushing_catch_unwind assms(2))
qed

lemma pushing_map_exception: "server_confined S \<Longrightarrow> pushing (map_exception S xc)"
  by (auto simp: map_exception_def server_confined_def pushing_confined split: option.splits)

lemma pushing_errors:
  assumes "server_confined S"
  shows "pushing (api_error_packet S cid i rt e)" "pushing (event_error_ack S cid ev e)"
  by (simp_all add: api_error_packet_def event_error_ack_def Let_def pushing_ubind pushing_map_exception [OF assms])

lemma pushing_case_sum: "(\<And>a. pushing (f a)) \<Longrightarrow> (\<And>b. pushing (g b)) \<Longrightarrow> pushing (case x of Inl a \<Rightarrow> f a | Inr b \<Rightarrow> g b)"
  by (cases x) auto

lemma pushing_case_option: "pushing f \<Longrightarrow> (\<And>b. x = Some b \<Longrightarrow> pushing (g b)) \<Longrightarrow> pushing (case x of None \<Rightarrow> f | Some b \<Rightarrow> g b)"
  by (cases x) auto

lemmas pushing_intros = pushing_ubind pushing_catch_unwind pushing_case_sum pushing_case_option pushing_ureturn

lemma pushing_filters: "\<forall>f \<in> set fs. confined f \<Longrightarrow> pushing (run_filters fs ctx)"
proof (induction fs arbitrary: ctx)
  case (Cons f fs)
  then have "pushing (f ctx)" by (simp add: pushing_confined)
  then show ?case using Cons by (simp add: pushing_intros)
qed simp

lemma pushing_api:
  assumes "server_confined S" shows "pushing (run_api_request S cid peer req)"
proof -
  have routes: "map_of (sv_routes S) r = Some h \<Longrightarrow> confined_call h" for r h
    using assms by (force simp: server_confined_def dest!: map_of_SomeD)
  have filters: "pushing (run_filters (sv_filters S) ctx)" for ctx
    using assms by (intro pushing_filters) (simp add: server_confined_def)
  let ?m = "\<lambda>st. ubind (run_filters (sv_filters S) (api_context_of S cid peer req st)) (\<lambda>filtered.
        case filtered of
          Inl err \<Rightarrow> api_error_packet S cid (Some (ar_request_id req)) (ar_route req) err
        | Inr ctx \<Rightarrow>
            (case map_of (sv_routes S) (ac_route ctx) of
               None \<Rightarrow> api_error_packet S cid (Some (ar_request_id req)) (ar_route req) (not_found ''route not found'')
             | Some handler \<Rightarrow>
                 ubind (handler ctx) (\<lambda>future. ubind (catch_unwind future) (\<lambda>r. case r of
                   None \<Rightarrow> api_error_packet S cid (Some (ar_request_id req)) (ar_route req) (internal ''handler panicked'')
                 | Some s \<Rightarrow> (case s of
                     Inl err \<Rightarrow> api_error_packet S cid (Some (ar_request_id req)) (ar_route req) err
                   | Inr data \<Rightarrow> ureturn (with_encryption
                      (ApiResponse (ar_request_id req) True 200 data None (Object [])) (sv_default_encryption S)))))))"
  have "pushing (?m st)" for st
    by (rule pushing_ubind [OF filters], rule pushing_case_sum, rule pushing_errors [OF assms], rule pushing_case_option,
        rule pushing_errors [OF assms], rule pushing_call, erule routes) (intro pushing_intros pushing_errors [OF assms])
  then show ?thesis
    by (simp add: pushing_def [of "run_api_request S cid peer req"] pushing_def [of "?m _"] run_api_request_def Let_def)
qed

lemma pushing_event:
  assumes "server_confined S" shows "pushing (run_event S cid peer ev)"
proof -
  have hs: "map_of (sv_event_handlers S) n = Some h \<Longrightarrow> confined_call h" for n h
    using assms by (force simp: server_confined_def dest!: map_of_SomeD)
  have "only_pushes st (snd (run_event S cid peer ev st))" if ok: "state_ok st" for st
  proof (cases "map_of (sv_event_handlers S) (ei_name ev)")
    case (Some h)
    have "pushing (ubind (h (event_context_of S cid peer ev st)) (\<lambda>future. ubind (catch_unwind future) (\<lambda>r. case r of
            None \<Rightarrow> event_error_ack S cid ev (internal ''event handler panicked'')
          | Some s \<Rightarrow> (case s of
              Inl err \<Rightarrow> event_error_ack S cid ev err
            | Inr receipt \<Rightarrow> ureturn (with_encryption
              (EventAck (ei_event_id ev) True receipt None) (sv_default_encryption S))))))"
      by (rule pushing_call [OF hs [OF Some]]) (intro pushing_intros pushing_errors [OF assms])
    then show ?thesis using ok by (simp add: pushing_def run_event_def Some)
  qed (simp add: run_event_def)
  then show ?thesis by (simp add: pushing_def)
qed

lemma reply_to_pushes:
  assumes "server_confined S" "state_ok st" "reply_to S cid peer body st = (r, st')"
  shows "only_pushes st st'"
proof -
  have "pushing (reply_to S cid peer body)"
    by (cases body) (simp_all add: pushing_ubind pushing_api pushing_event assms(1))
  then show ?thesis using assms(2,3) by (metis pushing_def snd_conv)
qed


subsection \<open>The connection's entry and channel\<close>

fun alive :: "reader_state \<Rightarrow> bool" where
  "alive (Closing _) = False"
| "alive Gone = False"
| "alive _ = True"

fun sends_to :: "string \<Rightarrow> reader_state \<Rightarrow> bool" where
  "sends_to cid (SendStage _ s _) \<longleftrightarrow> s = cid"
| "sends_to cid _ \<longleftrightarrow> True"

definition linked :: "string \<Rightarrow> conn \<Rightarrow> server_state \<Rightarrow> bool" where
  "linked cid cn st \<longleftrightarrow> state_ok st \<and>
     (alive (cn_reader cn) \<longrightarrow> map_of (ss_clients st) cid \<noteq> None) \<and>
     (\<exists>ch. ss_channels st cid = Some ch \<and> ch_capacity ch = 256 \<and> ch_open ch = cn_writing cn) \<and>
     sends_to cid (cn_reader cn) \<and> (\<forall>t \<in> set (cn_tasks cn). \<forall>s msg. tk_stage t = Send s msg \<longrightarrow> s = cid)"

lemma queue_send_pushes: "queue_send s msg st = Some (r, st') \<Longrightarrow> only_pushes st st'"
proof -
  assume q: "queue_send s msg st = Some (r, st')"
  have "ss_channels st s = Some ch \<Longrightarrow> try_send msg ch = Inr ch' \<Longrightarrow> queue_grows ch ch'" for ch ch'
    by (auto simp: try_send_Inr queue_grows_def channel_ok_def)
  then show ?thesis
    using q by (auto simp: queue_send_def send_Inr only_pushes_def option.rel_refl split: option.splits sum.splits)
qed

lemma linked_outside:
  assumes "outside cid st st'" "linked cid cn st" shows "linked cid cn st'"
proof -
  obtain ch where ch: "ss_channels st cid = Some ch" "ch_capacity ch = 256" "ch_open ch = cn_writing cn"
    using assms(2) by (auto simp: linked_def)
  obtain ch' where "ss_channels st' cid = Some ch'" "queue_grows ch ch'"
    using assms(1) ch(1) by (auto simp: outside_def option_rel_Some1)
  then show ?thesis
    using assms ch by (auto simp: linked_def outside_def queue_grows_def)
qed

lemma linked_pushes: "only_pushes st st' \<Longrightarrow> linked cid cn st \<Longrightarrow> linked cid cn st'"
  by (rule linked_outside) (auto simp: outside_def only_pushes_def intro: only_pushes_ok [unfolded only_pushes_def])

lemma close_channel_simps [simp]:
  "ch_open (close_channel ch) = False" "ch_capacity (close_channel ch) = ch_capacity ch"
  by (simp_all add: close_channel_def)

lemma linked_abort: "linked cid cn st \<Longrightarrow> linked cid (cn\<lparr>cn_writing := False\<rparr>) (abort_writer cid st)"
  by (auto simp: linked_def state_ok_abort) (auto simp: abort_writer_def)

lemma target_is_cid: "queue_target X rnd S cid p st = Inr (s, msg) \<Longrightarrow> state_ok st \<Longrightarrow> s = cid"
  by (auto simp: queue_target_def state_ok_map_of split: option.splits if_splits)

lemma linked_teardown:
  "linked cid cn st \<Longrightarrow> linked cid (cn\<lparr>cn_reader := Closing r\<rparr>) (teardown cid st)"
proof -
  assume l: "linked cid cn st"
  let ?st = "st\<lparr>ss_clients := map_remove cid (ss_clients st)\<rparr>"
  have "linked cid (cn\<lparr>cn_reader := Closing r\<rparr>) ?st"
    using l by (auto simp: linked_def state_ok_map_of map_ok_map_remove)
  then show ?thesis
    unfolding teardown_def by (rule linked_pushes [OF only_pushes_try_send])
qed

lemma linked_ship:
  assumes "linked cid cn st" "cn_writing cn" "ss_channels st cid = Some ch" "recv ch = Some (msg, ch')"
  shows "linked cid (cn\<lparr>cn_wire := w, cn_writing := b\<rparr>)
    (st\<lparr>ss_channels := (ss_channels st)(cid \<mapsto> if b then ch' else close_channel ch')\<rparr>)"
proof -
  have "channel_ok ch" using assms(1,3) by (auto simp: linked_def state_ok_def)
  then have "channel_ok ch'" using assms(4) by (rule channel_ok_recv)
  moreover have "ch_open ch' = ch_open ch" "ch_capacity ch' = ch_capacity ch"
    using assms(4) by (auto simp: recv_def split: list.splits)
  ultimately show ?thesis
    using assms(1-3) by (auto simp: linked_def state_ok_map_of)
qed

lemma linked_cn:
  "linked cid cn st \<Longrightarrow> cn_writing cn' = cn_writing cn \<Longrightarrow> sends_to cid (cn_reader cn') \<Longrightarrow>
   (alive (cn_reader cn') \<longrightarrow> alive (cn_reader cn)) \<Longrightarrow>
   (\<forall>t \<in> set (cn_tasks cn'). \<forall>s msg. tk_stage t = Send s msg \<longrightarrow> s = cid) \<Longrightarrow> linked cid cn' st"
  by (auto simp: linked_def)

lemma linked_reply:
  assumes "linked cid cn st" "server_confined S" "reply_to S cid peer body st = (r, st')"
  shows "linked cid cn st'"
proof (rule linked_pushes [OF _ assms(1)])
  have "state_ok st" using assms(1) by (simp add: linked_def)
  then show "only_pushes st st'" by (rule reply_to_pushes [OF assms(2) _ assms(3)])
qed

lemma internal_linked:
  assumes "internal_step X sh S c cid peer s s'" "linked cid (fst s) (fst (snd s))" "server_confined S"
  shows "linked cid (fst s') (fst (snd s'))"
  using assms(1)
proof (cases rule: internal_step.cases)
  case (reply_target cn key p rnd st s1 msg lim)
  then show ?thesis using assms(2) target_is_cid by (fastforce simp: linked_def)
next
  case (reply_sent cn key s1 msg st r st' lim)
  have "linked cid cn st'"
    using linked_pushes [OF queue_send_pushes [OF reply_sent(4)]] assms(2) reply_sent(1) by simp
  then show ?thesis
    using reply_sent(2,3) by (auto intro: linked_cn simp: answered_def linked_def split: sum.split)
next
  case (pong_sent cn b st r st' lim)
  have "linked cid cn st'"
    using linked_pushes [OF queue_send_pushes [OF pong_sent(4)]] assms(2) pong_sent(1) by simp
  then show ?thesis using pong_sent(2,3) by (auto simp: linked_def split: sum.split)
next
  case (run cn ts t ts' body st p st' lim)
  have "linked cid cn st'"
    by (rule linked_reply [OF _ assms(3) run(5)]) (use assms(2) run(1) in simp)
  then show ?thesis using run(2,3) by (auto simp: linked_def)
next
  case (run_panics cn ts t ts' body st st' lim)
  have "linked cid cn st'"
    by (rule linked_reply [OF _ assms(3) run_panics(5)]) (use assms(2) run_panics(1) in simp)
  then show ?thesis using run_panics(2,3) by (auto simp: linked_def)
next
  case (task_target cn ts t ts' p rnd st s1 msg lim)
  then show ?thesis using assms(2) target_is_cid by (fastforce simp: linked_def)
next
  case (task_sent cn ts t ts' s1 msg st r st' lim)
  have "linked cid cn st'"
    using linked_pushes [OF queue_send_pushes [OF task_sent(5)]] assms(2) task_sent(1) by simp
  then show ?thesis using task_sent(2,3) by (auto simp: answered_def linked_def split: sum.split)
next
  case (finish cn r st lim)
  let ?cn = "cn\<lparr>cn_reader := Gone, cn_writing := False\<rparr>"
  have l: "linked cid ?cn (abort_writer cid st)"
    using linked_abort [of cid cn st] assms(2) finish(1) by (auto simp: linked_def)
  have "only_pushes (abort_writer cid st)
      (notify_disconnected S cid (Some peer) (disconnect_reason sh r) (abort_writer cid st))"
    unfolding notify_disconnected_def
    using assms(3) l by (intro notify_all_pushes) (auto simp: server_confined_def linked_def)
  then show ?thesis using linked_pushes l finish(2) by simp
next
  case (ship cn st ch msg ch' rnd frames goes_on lim)
  then show ?thesis using assms(2) linked_ship by simp
next
  case (close cn r st lim)
  then show ?thesis using assms(2) linked_teardown by simp
qed (use assms(2) in \<open>auto simp: linked_def\<close>)

lemma task_linked:
  assumes "task_step X sh S c cid peer s s'" "linked cid (fst s) (fst (snd s))" "server_confined S"
  shows "linked cid (fst s') (fst (snd s'))"
  using assms(1)
proof (cases rule: task_step.cases)
  case internal
  then show ?thesis by (rule internal_linked [OF _ assms(2,3)])
next
  case (read cn now nxt lim act lim' st)
  then show ?thesis
    using assms(2) by (auto simp: apply_action_def Let_def linked_def
        split: reader_action.split option.split)
next
  case (writer_fails cn st lim)
  then show ?thesis using assms(2) linked_abort by simp
qed (use assms(2) in \<open>auto simp: linked_def\<close>)

lemma step_linked:
  assumes "conn_step X sh S c cid peer s s'" "linked cid (fst s) (fst (snd s))" "server_confined S"
  shows "linked cid (fst s') (fst (snd s'))"
  using assms(1)
proof (cases rule: conn_step.cases)
  case own
  then show ?thesis by (rule task_linked [OF _ assms(2,3)])
next
  case (elsewhere st st' cn lim lim')
  then show ?thesis using assms(2) linked_outside by simp
qed


subsection \<open>What every run keeps\<close>

interpretation conn_accounts: step_invariant "conn_step X sh S c cid peer"
    "\<lambda>s. bounded S (fst s) \<and> accounted (fst s) \<and> tied X S (fst s)" for X sh S c cid peer
proof
  fix s s' assume "conn_step X sh S c cid peer s s'" "bounded S (fst s) \<and> accounted (fst s) \<and> tied X S (fst s)"
  then show "bounded S (fst s') \<and> accounted (fst s') \<and> tied X S (fst s')"
    using step_bounded step_accounted step_tied by (cases s, cases s') (metis fst_conv)
qed

interpretation conn_links: step_invariant "conn_step X sh S c cid peer"
    "\<lambda>s. server_confined S \<longrightarrow> linked cid (fst s) (fst (snd s))" for X sh S c cid peer
  by unfold_locales (blast intro: step_linked)

lemma run_invariants:
  assumes "(conn_step X sh S c cid peer)\<^sup>*\<^sup>* s s'"
    and "bounded S (fst s)" "accounted (fst s)" "tied X S (fst s)"
  shows "bounded S (fst s') \<and> accounted (fst s') \<and> tied X S (fst s')"
  using conn_accounts.run_kept [OF assms(1)] assms(2-4) by blast

lemma run_linked:
  assumes "(conn_step X sh S c cid peer)\<^sup>*\<^sup>* s s'" "linked cid (fst s) (fst (snd s))" "server_confined S"
  shows "linked cid (fst s') (fst (snd s'))"
  using conn_links.run_kept [OF assms(1)] assms(2,3) by blast

lemma init_invariants [simp]: "bounded S conn_init" "accounted conn_init" "tied X S conn_init"
  by (simp_all add: bounded_def accounted_def tied_def conn_init_def pending_def)

lemma init_linked:
  assumes "state_ok st" shows "linked cid conn_init (register_client cid t a st)"
  using state_ok_register [OF assms, of cid t a]
  by (simp add: linked_def conn_init_def)
    (simp add: register_client_def channel_new_def SERVER_OUTBOUND_QUEUE_CAPACITY_def)

text \<open>
  C2. Accounting of messages: in every state a connection can reach, under every interleaving of its reader,
  handler tasks, writer and the rest of the server, at most \<open>max_in_flight\<close> handlers are in flight, every accepted request
  and event is accounted for exactly once (answered, lost, or still pending), so none is answered
  twice and no answer appears without a message, and every queued answer is the reply with the key of its message.
\<close>

theorem connection_accounts:
  assumes "(conn_step X sh S c cid peer)\<^sup>*\<^sup>* (conn_init, st0, lim0) (cn, st, lim)"
  shows "length (cn_tasks cn) \<le> sv_max_in_flight S \<and>
    mset (cn_accepted cn) = mset (map fst (cn_answered cn)) + mset (cn_lost cn) + pending cn \<and>
    (\<forall>(k, msg) \<in> set (cn_answered cn). carries X S k msg)"
proof -
  have "bounded S cn \<and> accounted cn \<and> tied X S cn"
    using run_invariants [OF assms] by simp
  then show ?thesis by (simp add: bounded_def accounted_def tied_def)
qed

theorem connection_accounts_witness:
  "\<exists>cn st lim. (conn_step sample_externals (\<lambda>_. []) server_new codec_plaintext ''c'' \<lparr>sa_ip = IpV4 1, sa_port = 80\<rparr>)\<^sup>*\<^sup>*
      (conn_init, register_client ''c'' None None server_state_new, None) (cn, st, lim) \<and>
     cn_accepted cn = [RequestKey 8] \<and> length (cn_tasks cn) \<le> 64 \<and>
     mset (cn_accepted cn) = mset (map fst (cn_answered cn)) + mset (cn_lost cn) + pending cn"
proof -
  let ?step = "conn_step sample_externals (\<lambda>_. []) server_new codec_plaintext ''c'' \<lparr>sa_ip = IpV4 1, sa_port = 80\<rparr>"
  let ?st = "register_client ''c'' None None server_state_new"
  obtain frame where f: "decode sample_externals codec_plaintext frame = Inr (envelope_new (ApiRequest 8 ''echo'' Null [] Null))"
      "frame_check server_new frame = None"
    using sample_request_received by blast
  let ?nxt = "Received (Binary frame)"
  have "read_next sample_externals server_new codec_plaintext ''c'' \<lparr>sa_ip = IpV4 1, sa_port = 80\<rparr> 0 ?nxt None =
      (SpawnHandler (envelope_new (ApiRequest 8 ''echo'' Null [] Null)), None)"
    by (simp add: read_next_def on_binary_def f)
  moreover have key: "arrived_key sample_externals server_new codec_plaintext ?nxt = Some (RequestKey 8)"
    by (simp add: arrived_key_def f)
  ultimately have "?step (conn_init, ?st, None)
      (apply_action (SpawnHandler (envelope_new (ApiRequest 8 ''echo'' Null [] Null))) (Some (RequestKey 8)) conn_init, ?st, None)"
    using task_step.read [THEN conn_step.own, of conn_init sample_externals server_new codec_plaintext "''c''" _ 0 ?nxt None] by (simp add: conn_init_def)
  then have run: "?step\<^sup>*\<^sup>* (conn_init, ?st, None)
      (apply_action (SpawnHandler (envelope_new (ApiRequest 8 ''echo'' Null [] Null))) (Some (RequestKey 8)) conn_init, ?st, None)"
    by (rule r_into_rtranclp)
  show ?thesis
    by (intro exI conjI, rule run)
      (use connection_accounts [OF run] in \<open>auto simp: apply_action_def conn_init_def server_new_def SERVER_DEFAULT_MAX_IN_FLIGHT_def\<close>)
qed

subsection \<open>Nothing is lost while the connection lives\<close>

definition lossless :: "conn \<Rightarrow> bool" where
  "lossless cn \<longleftrightarrow> (alive (cn_reader cn) \<and> cn_writing cn \<longrightarrow> cn_lost cn = [])"

lemma target_alive:
  "sv_is_ecdh S \<Longrightarrow> map_of (ss_clients st) cid \<noteq> None \<Longrightarrow> queue_target X rnd S cid p st \<noteq> Inl e"
  by (auto simp: queue_target_def)

lemma send_alive:
  "ss_channels st cid = Some ch \<Longrightarrow> ch_open ch \<Longrightarrow> queue_send cid msg st = Some (r, st') \<Longrightarrow> r = Inr ()"
  by (auto simp: queue_send_def send_Inl split: option.splits sum.splits)

lemma internal_lossless:
  assumes "internal_step X sh S c cid peer s s'" "linked cid (fst s) (fst (snd s))" "tied X S (fst s)" "lossless (fst s)"
    and "sv_is_ecdh S" "unguarded_ok S"
  shows "lossless (fst s')"
  using assms(1)
proof (cases rule: internal_step.cases)
  case (reply_fails cn key p rnd st e lim)
  then show ?thesis
    using target_alive [OF assms(5)] assms(2) by (auto simp: linked_def)
next
  case (task_fails cn ts t ts' p rnd st e lim)
  then show ?thesis
    using target_alive [OF assms(5)] assms(2,4) by (auto simp: linked_def lossless_def)
next
  case (reply_sent cn key s1 msg st r st' lim)
  then have "cn_writing cn \<Longrightarrow> r = Inr ()"
    using assms(2) send_alive [of st cid] by (auto simp: linked_def)
  then show ?thesis
    using reply_sent assms(4) by (auto simp: lossless_def answered_def split: sum.splits)
next
  case (task_sent cn ts t ts' s1 msg st r st' lim)
  then have "cn_writing cn \<Longrightarrow> r = Inr ()"
    using assms(2) send_alive [of st cid] by (fastforce simp: linked_def)
  then show ?thesis
    using task_sent assms(4) by (auto simp: lossless_def answered_def split: sum.splits)
next
  case (run_panics cn ts t ts' body st st' lim)
  obtain r st1 where "reply_to S cid (Some peer) body st = (Returned r, st1)"
    using reply_to_returns [OF assms(6)] by blast
  then show ?thesis using run_panics by simp
next
  case (ship cn st ch msg ch' rnd frames goes_on lim)
  then show ?thesis using assms(4) by (auto simp: lossless_def)
qed (use assms(4) in \<open>auto simp: lossless_def\<close>)

lemma step_lossless:
  assumes "conn_step X sh S c cid peer s s'" "linked cid (fst s) (fst (snd s))" "tied X S (fst s)" "lossless (fst s)"
    and "sv_is_ecdh S" "unguarded_ok S"
  shows "lossless (fst s')"
  using assms(1)
proof (cases rule: conn_step.cases)
  case own
  then show ?thesis
  proof (cases rule: task_step.cases)
    case internal
    then show ?thesis by (rule internal_lossless [OF _ assms(2-6)])
  next
    case (read cn now nxt lim act lim' st)
    then show ?thesis
      using assms(4) by (auto simp: lossless_def apply_action_def Let_def split: reader_action.splits option.splits)
  qed (use assms(4) in \<open>auto simp: lossless_def\<close>)
qed (use assms(4) in simp)

text \<open>
  C8. No reply is lost on a live connection in ECDH mode, provided that user code outside the panic guard (filters, the exception handler, the calls of route and event
  handlers) does not panic and user code acts on the server only through its handle: as long as the reader has not finished and the writer runs, every
  accepted message has been answered into the connection's queue or is still pending, and the queue is open and holds at most 256 messages.
\<close>

theorem live_connection_loses_nothing:
  assumes "(conn_step X sh S c cid peer)\<^sup>*\<^sup>* (conn_init, register_client cid t a st0, lim0) (cn, st, lim)"
    and "state_ok st0" "server_confined S" "sv_is_ecdh S" "unguarded_ok S"
    and "alive (cn_reader cn)" "cn_writing cn"
  shows "mset (cn_accepted cn) = mset (map fst (cn_answered cn)) + pending cn \<and>
    (\<exists>ch. ss_channels st cid = Some ch \<and> ch_open ch \<and> length (ch_queue ch) \<le> 256)"
proof -
  let ?s0 = "(conn_init, register_client cid t a st0, lim0)"
  have inv: "linked cid (fst s) (fst (snd s)) \<and> tied X S (fst s) \<and> lossless (fst s)"
    if "(conn_step X sh S c cid peer)\<^sup>*\<^sup>* ?s0 s" for s
    using that
  proof (induction rule: rtranclp_induct)
    case base
    have "lossless conn_init" by (simp add: lossless_def conn_init_def)
    then show ?case using init_linked [OF assms(2)] by simp
  next
    case (step s1 s2)
    then show ?case
      using step_linked [OF step.hyps(2) _ assms(3)] step_lossless [OF step.hyps(2) _ _ _ assms(4,5)]
        step_tied [of X sh S c cid peer "fst s1" "fst (snd s1)" "snd (snd s1)" "fst s2" "fst (snd s2)" "snd (snd s2)"]
      by simp
  qed
  have "linked cid cn st" "lossless cn" using inv [OF assms(1)] by simp_all
  moreover have "accounted cn" using run_invariants [OF assms(1)] by simp
  moreover from \<open>linked cid cn st\<close> obtain ch where
    "ss_channels st cid = Some ch" "ch_capacity ch = 256" "ch_open ch = cn_writing cn" "channel_ok ch"
    by (auto simp: linked_def state_ok_def)
  ultimately show ?thesis
    using assms(6,7) by (simp add: lossless_def accounted_def channel_ok_def)
qed

definition ecdh_server :: wscall_server where
  "ecdh_server = server_with_ecdh (route ''echo'' (\<lambda>ctx. ureturn (ureturn (Inr (String ''pong'')))) server_new)"

lemma ecdh_server_ok: "server_confined ecdh_server" "sv_is_ecdh ecdh_server" "unguarded_ok ecdh_server" "sv_max_frame_bytes ecdh_server = sv_max_frame_bytes server_new"
    "sv_rate_limiter ecdh_server = None" "sv_max_in_flight ecdh_server = 64"
  by (auto simp: ecdh_server_def server_with_ecdh_def route_def server_new_def server_confined_def unguarded_ok_def never_panics_def
      confined_call_def confined_def SERVER_DEFAULT_MAX_IN_FLIGHT_def)

definition ecdh_request :: packet_envelope where
  "ecdh_request = envelope_new (ApiRequest 8 ''echo'' Null [] Null)"

definition ecdh_reply :: packet_envelope where
  "ecdh_reply = with_encryption (ApiResponse 8 True 200 (String ''pong'') None (Object [])) ChaCha20"

text \<open>One request of a client, read, handled and answered.\<close>

lemma ecdh_run:
  assumes "decode sample_externals codec_plaintext frame = Inr ecdh_request" "frame_check ecdh_server frame = None"
  shows "\<exists>st. (conn_step sample_externals (\<lambda>_. []) ecdh_server codec_plaintext ''c'' peer)\<^sup>*\<^sup>* (conn_init, register_client ''c'' None None server_state_new, None)
    (conn_init\<lparr>cn_accepted := [RequestKey 8], cn_answered := [(RequestKey 8, OutPacket ecdh_reply)]\<rparr>, st, None)"
proof -
  let ?step = "conn_step sample_externals (\<lambda>_. []) ecdh_server codec_plaintext ''c'' peer"
  let ?st = "register_client ''c'' None None server_state_new" and ?k = "RequestKey 8"
  let ?ch = "(channel_new 256 :: server_outbound channel)\<lparr>ch_queue := [OutPacket ecdh_reply]\<rparr>"
  let ?c0 = "conn_init\<lparr>cn_accepted := [?k]\<rparr>" let ?t = "\<lambda>g. ?c0\<lparr>cn_tasks := [\<lparr>tk_key = ?k, tk_stage = g\<rparr>]\<rparr>"
  let ?body = "pe_body ecdh_request"
  have "read_next sample_externals ecdh_server codec_plaintext ''c'' peer 0 (Received (Binary frame)) None = (SpawnHandler ecdh_request, None)"
      "arrived_key sample_externals ecdh_server codec_plaintext (Received (Binary frame)) = Some ?k"
    by (simp_all add: read_next_def on_binary_def arrived_key_def assms ecdh_request_def)
  then have 1: "?step (conn_init, ?st, None) (?c0\<lparr>cn_reader := AwaitPermit ?k ?body\<rparr>, ?st, None)"
    using task_step.read [THEN conn_step.own, of conn_init sample_externals ecdh_server codec_plaintext "''c''" peer 0 "Received (Binary frame)" None "SpawnHandler ecdh_request" None]
    by (simp add: conn_init_def apply_action_def Let_def)
  have 2: "?step (?c0\<lparr>cn_reader := AwaitPermit ?k ?body\<rparr>, ?st, None) (?t (Run ?body), ?st, None)"
    using internal_step.permit [THEN task_step.internal, THEN conn_step.own, of "?c0\<lparr>cn_reader := AwaitPermit ?k ?body\<rparr>" ?k ?body ecdh_server]
    by (simp add: conn_init_def ecdh_server_ok)
  have "reply_to ecdh_server ''c'' (Some peer) ?body ?st = (Returned (Some ecdh_reply), ?st)"
    by (simp add: ecdh_request_def envelope_new_def ecdh_server_def server_with_ecdh_def route_def server_new_def run_api_request_def
        catch_unwind_def ubind_def api_context_of_def ecdh_reply_def Let_def)
  then have 3: "?step (?t (Run ?body), ?st, None) (?t (Reply ecdh_reply), ?st, None)"
    using internal_step.run [THEN task_step.internal, THEN conn_step.own, of "?t (Run ?body)" "[]" "\<lparr>tk_key = ?k, tk_stage = Run ?body\<rparr>" "[]" ?body ecdh_server "''c''" peer ?st]
    by simp
  have "queue_target sample_externals (Inr []) ecdh_server ''c'' ecdh_reply ?st = Inr (''c'', OutPacket ecdh_reply)"
    by (simp add: queue_target_def ecdh_server_ok register_client_def)
  then have 4: "?step (?t (Reply ecdh_reply), ?st, None) (?t (Send ''c'' (OutPacket ecdh_reply)), ?st, None)"
    using internal_step.task_target [THEN task_step.internal, THEN conn_step.own, of "?t (Reply ecdh_reply)" "[]" "\<lparr>tk_key = ?k, tk_stage = Reply ecdh_reply\<rparr>" "[]"]
    by simp
  have "queue_send ''c'' (OutPacket ecdh_reply) ?st = Some (Inr (), ?st\<lparr>ss_channels := (ss_channels ?st)(''c'' \<mapsto> ?ch)\<rparr>)"
    by (simp add: queue_send_def register_client_def send_def try_send_def channel_new_def SERVER_OUTBOUND_QUEUE_CAPACITY_def)
  then have 5: "?step (?t (Send ''c'' (OutPacket ecdh_reply)), ?st, None)
      (?c0\<lparr>cn_answered := [(?k, OutPacket ecdh_reply)]\<rparr>, ?st\<lparr>ss_channels := (ss_channels ?st)(''c'' \<mapsto> ?ch)\<rparr>, None)"
    using internal_step.task_sent [THEN task_step.internal, THEN conn_step.own, of "?t (Send ''c'' (OutPacket ecdh_reply))" "[]"
        "\<lparr>tk_key = ?k, tk_stage = Send ''c'' (OutPacket ecdh_reply)\<rparr>" "[]" "''c''" "OutPacket ecdh_reply" ?st "Inr ()"]
    by (simp add: answered_def conn_init_def)
  have "?step\<^sup>*\<^sup>* (conn_init, ?st, None) (?c0\<lparr>cn_answered := [(?k, OutPacket ecdh_reply)]\<rparr>, ?st\<lparr>ss_channels := (ss_channels ?st)(''c'' \<mapsto> ?ch)\<rparr>, None)"
    using 1 2 3 4 5 by (meson rtranclp.rtrancl_into_rtrancl r_into_rtranclp)
  then show ?thesis by blast
qed

theorem live_connection_loses_nothing_witness:
  "\<exists>cn st lim ch. (conn_step sample_externals (\<lambda>_. []) ecdh_server codec_plaintext ''c'' \<lparr>sa_ip = IpV4 1, sa_port = 80\<rparr>)\<^sup>*\<^sup>*
       (conn_init, register_client ''c'' None None server_state_new, None) (cn, st, lim) \<and>
     cn_accepted cn = [RequestKey 8] \<and> map fst (cn_answered cn) = [RequestKey 8] \<and> pending cn = {#} \<and>
     ss_channels st ''c'' = Some ch \<and> ch_open ch \<and> length (ch_queue ch) \<le> 256"
proof -
  obtain frame where "decode sample_externals codec_plaintext frame = Inr ecdh_request" "frame_check server_new frame = None"
    using sample_request_received by (auto simp: ecdh_request_def)
  moreover from this(2) have "frame_check ecdh_server frame = None"
    by (auto simp: frame_check_def ecdh_server_ok Let_def split: if_splits)
  ultimately obtain st where run: "(conn_step sample_externals (\<lambda>_. []) ecdh_server codec_plaintext ''c'' \<lparr>sa_ip = IpV4 1, sa_port = 80\<rparr>)\<^sup>*\<^sup>*
      (conn_init, register_client ''c'' None None server_state_new, None)
      (conn_init\<lparr>cn_accepted := [RequestKey 8], cn_answered := [(RequestKey 8, OutPacket ecdh_reply)]\<rparr>, st, None)"
    using ecdh_run by blast
  have "state_ok server_state_new" by (simp add: state_ok_def server_state_new_def map_ok_def)
  from live_connection_loses_nothing [OF run this ecdh_server_ok(1-3)]
  obtain ch where "ss_channels st ''c'' = Some ch" "ch_open ch" "length (ch_queue ch) \<le> 256"
      "pending (conn_init\<lparr>cn_accepted := [RequestKey 8], cn_answered := [(RequestKey 8, OutPacket ecdh_reply)]\<rparr>) = {#}"
    by (auto simp: conn_init_def)
  with run show ?thesis by (intro exI conjI) auto
qed

subsection \<open>A connection finishes its work\<close>

text \<open>
  Work left in a state: the stages tasks and reader still have before them, then the queued messages.
\<close>

fun stage_work :: "task_stage \<Rightarrow> nat" where
  "stage_work (Run _) = 3"
| "stage_work (Reply _) = 2"
| "stage_work (Send _ _) = 1"

fun reader_work :: "reader_state \<Rightarrow> nat" where
  "reader_work (AwaitPermit _ _) = 4"
| "reader_work (ReplyStage _ _) = 2"
| "reader_work (SendStage _ _ _) = 1"
| "reader_work (PongStage _) = 3"
| "reader_work (Ended _) = 2"
| "reader_work (Closing _) = 1"
| "reader_work _ = 0"

definition conn_work :: "conn \<Rightarrow> nat" where
  "conn_work cn = sum_list (map (\<lambda>t. stage_work (tk_stage t)) (cn_tasks cn)) + reader_work (cn_reader cn)"

definition queue_work :: "string \<Rightarrow> server_state \<Rightarrow> nat" where
  "queue_work cid st = (case ss_channels st cid of Some ch \<Rightarrow> length (ch_queue ch) | None \<Rightarrow> 0)"

definition less_work :: "string \<Rightarrow> (conn_state \<times> conn_state) set" where
  "less_work cid = measures [\<lambda>s. conn_work (fst s), \<lambda>s. queue_work cid (fst (snd s))]"

lemma answered_simps [simp]:
  "cn_tasks (answered key msg r cn) = cn_tasks cn" "cn_reader (answered key msg r cn) = cn_reader cn"
  "cn_accepted (answered key msg r cn) = cn_accepted cn" "cn_writing (answered key msg r cn) = cn_writing cn"
  by (simp_all add: answered_def split: sum.split)

lemma internal_less_work: "internal_step X sh S c cid peer s s' \<Longrightarrow> (s', s) \<in> less_work cid"
proof (induction rule: internal_step.induct)
  case (ship cn st ch msg ch' rnd frames goes_on lim)
  then show ?case
    by (auto simp: less_work_def conn_work_def queue_work_def recv_def close_channel_def split: list.splits)
qed (auto simp: less_work_def conn_work_def split: sum.splits)

lemma internal_terminates: "wfp (\<lambda>s' s. internal_step X sh S c cid peer s s')"
proof -
  have "wf (less_work cid)" by (simp add: less_work_def)
  then show ?thesis unfolding wfp_def by (rule wf_subset) (auto intro: internal_less_work)
qed

lemma internal_accepted: "internal_step X sh S c cid peer s s' \<Longrightarrow> cn_accepted (fst s') = cn_accepted (fst s)"
  by (induction rule: internal_step.induct) simp_all

lemma full_queue_ships:
  assumes "linked cid cn st" "queue_send cid msg st = None"
  shows "\<exists>s'. internal_step X sh S c cid peer (cn, st, lim) s'"
proof -
  obtain ch where ch: "ss_channels st cid = Some ch" "ch_capacity ch = 256" "ch_open ch = cn_writing cn"
    using assms(1) by (auto simp: linked_def)
  then have full: "ch_open ch" "256 \<le> length (ch_queue ch)"
    using assms(2) by (auto simp: queue_send_def send_waits split: option.splits sum.splits)
  then obtain m rest where q: "ch_queue ch = m # rest" by (cases "ch_queue ch") auto
  then have r: "recv ch = Some (m, ch\<lparr>ch_queue := rest\<rparr>)" by (simp add: recv_def)
  obtain frames b where w: "write_out X (Inr []) c m = (frames, b)" by fastforce
  show ?thesis
    using internal_step.ship [OF _ ch(1) r w] ch(3) full(1) by blast
qed

lemma reply_to_some:
  assumes "key_of body = Some k"
  shows "(\<exists>p st'. reply_to S cid peer body st = (Returned (Some p), st')) \<or> (\<exists>st'. reply_to S cid peer body st = (Panicked, st'))"
  using assms by (cases body) (auto simp: ubind_def split: prod.splits outcome.splits)

lemma send_progress:
  assumes "linked cid cn st"
    and "\<And>r st'. queue_send cid msg st = Some (r, st') \<Longrightarrow> \<exists>s'. internal_step X sh S c cid peer (cn, st, lim) s'"
  shows "\<exists>s'. internal_step X sh S c cid peer (cn, st, lim) s'"
  using assms full_queue_ships by (cases "queue_send cid msg st") (blast, fastforce)

lemma task_progress:
  assumes "linked cid cn st" "tied X S cn" "cn_tasks cn = t # ts"
  shows "\<exists>s'. internal_step X sh S c cid peer (cn, st, lim) s'"
proof (cases "tk_stage t")
  case (Run body)
  then have "key_of body = Some (tk_key t)" using assms(2,3) by (simp add: tied_def task_ok_def)
  then show ?thesis
    using reply_to_some [of body "tk_key t" S cid "Some peer" st] assms(3) Run
    by (metis append_Nil internal_step.run internal_step.run_panics)
next
  case (Reply p)
  then show ?thesis
    using assms(3) by (cases "queue_target X (Inr []) S cid p st")
      (metis append_Nil internal_step.task_fails, metis append_Nil internal_step.task_target prod.collapse)
next
  case (Send s msg)
  then have s: "s = cid" using assms(1,3) by (auto simp: linked_def)
  show ?thesis
    by (rule send_progress [OF assms(1), of msg]) (use Send s assms(3) internal_step.task_sent [of cn "[]"] in fastforce)
qed

lemma reader_progress:
  assumes "linked cid cn st" "cn_tasks cn = []" "0 < sv_max_in_flight S" "\<nexists>s'. internal_step X sh S c cid peer (cn, st, lim) s'"
  shows "cn_reader cn = Reading \<or> cn_reader cn = Gone"
proof (cases "cn_reader cn")
  case (AwaitPermit k body)
  then show ?thesis using assms(2-4) internal_step.permit [of cn k body S] by fastforce
next
  case (ReplyStage key p)
  then show ?thesis
    using assms(4) by (cases "queue_target X (Inr []) S cid p st")
      (metis internal_step.reply_fails, metis internal_step.reply_target prod.collapse)
next
  case (SendStage key s msg)
  then have s: "s = cid" using assms(1) by (simp add: linked_def)
  then show ?thesis
    using send_progress [OF assms(1), of msg X sh S c peer lim] internal_step.reply_sent SendStage assms(4) by metis
next
  case (PongStage b)
  then show ?thesis
    using send_progress [OF assms(1), of "OutPong b" X sh S c peer lim] internal_step.pong_sent assms(4) by metis
next
  case (Closing r)
  then show ?thesis using assms(4) internal_step.finish [of cn r] by blast
qed (use assms(4) internal_step.close in \<open>blast+\<close>)

text \<open>
  C19. A connection always finishes its work. Its own steps (permits, handlers, queueing, shipping, teardown) cannot go on
  forever without input; and when none is possible any more, in a reachable state with at least one in-flight permit, no
  accepted message is pending: every one accepted has been answered or lost, the queue is empty or the writer has
  ended, and the reader waits for the next message or is gone. So there is no deadlock between reader, handlers and writer.
\<close>

theorem connection_drains:
  assumes "(conn_step X sh S c cid peer)\<^sup>*\<^sup>* (conn_init, register_client cid t a st0, lim0) s"
    and "state_ok st0" "server_confined S" "0 < sv_max_in_flight S"
  shows "wfp (\<lambda>s' s. internal_step X sh S c cid peer s s') \<and>
    (\<forall>s'. (internal_step X sh S c cid peer)\<^sup>*\<^sup>* s s' \<and> (\<nexists>s''. internal_step X sh S c cid peer s' s'') \<longrightarrow>
       (let cn = fst s'; ch = the (ss_channels (fst (snd s')) cid) in
        cn_accepted cn = cn_accepted (fst s) \<and> pending cn = {#} \<and>
        mset (cn_accepted cn) = mset (map fst (cn_answered cn)) + mset (cn_lost cn) \<and>
        (cn_reader cn = Reading \<or> cn_reader cn = Gone) \<and> (ch_queue ch = [] \<or> \<not> cn_writing cn)))"
proof (intro conjI allI impI internal_terminates, elim conjE)
  fix s' assume run: "(internal_step X sh S c cid peer)\<^sup>*\<^sup>* s s'" and stuck: "\<nexists>s''. internal_step X sh S c cid peer s' s''"
  obtain cn st lim where s': "s' = (cn, st, lim)" by (cases s')
  have "(conn_step X sh S c cid peer)\<^sup>*\<^sup>* s s'"
    using run by (rule mono_rtranclp [rule_format, rotated]) (intro conn_step.own task_step.internal)
  with assms(1) have r: "(conn_step X sh S c cid peer)\<^sup>*\<^sup>* (conn_init, register_client cid t a st0, lim0) s'"
    by (rule rtranclp_trans)
  then have inv: "linked cid cn st" "tied X S cn" "accounted cn"
    using run_linked [OF r _ assms(3)] init_linked [OF assms(2)] run_invariants [OF r] by (simp_all add: s')
  have tasks: "cn_tasks cn = []" using task_progress [OF inv(1,2)] stuck s' by (cases "cn_tasks cn") auto
  then have reader: "cn_reader cn = Reading \<or> cn_reader cn = Gone"
    using reader_progress [OF inv(1) _ assms(4)] stuck s' by blast
  then have "pending cn = {#}" using tasks by (auto simp: pending_def)
  moreover have "cn_accepted (fst s') = cn_accepted (fst s)"
    using run by (induction rule: rtranclp_induct) (simp_all add: internal_accepted)
  moreover obtain ch where ch: "ss_channels st cid = Some ch" using inv(1) by (auto simp: linked_def)
  moreover have "ch_queue ch = [] \<or> \<not> cn_writing cn"
  proof (rule ccontr)
    assume "\<not> (ch_queue ch = [] \<or> \<not> cn_writing cn)"
    then obtain m ch' where "recv ch = Some (m, ch')" "cn_writing cn" by (auto simp: recv_def neq_Nil_conv)
    moreover obtain frames b where "write_out X (Inr []) c m = (frames, b)" by fastforce
    ultimately show False using internal_step.ship [OF _ ch] stuck s' by blast
  qed
  ultimately show "let cn = fst s'; ch = the (ss_channels (fst (snd s')) cid) in
        cn_accepted cn = cn_accepted (fst s) \<and> pending cn = {#} \<and>
        mset (cn_accepted cn) = mset (map fst (cn_answered cn)) + mset (cn_lost cn) \<and>
        (cn_reader cn = Reading \<or> cn_reader cn = Gone) \<and> (ch_queue ch = [] \<or> \<not> cn_writing cn)"
    using reader inv(3) by (simp add: s' accounted_def)
qed

theorem connection_drains_witness:
  "wfp (\<lambda>s' s. internal_step sample_externals (\<lambda>_. []) server_new codec_plaintext ''c'' \<lparr>sa_ip = IpV4 1, sa_port = 80\<rparr> s s') \<and>
   pending conn_init = {#}"
proof -
  let ?s = "(conn_init, register_client ''c'' None None server_state_new, None)"
  have "server_confined server_new" "state_ok server_state_new" "0 < sv_max_in_flight server_new"
    by (simp_all add: state_ok_def server_state_new_def map_ok_def server_confined_def server_new_def SERVER_DEFAULT_MAX_IN_FLIGHT_def)
  note drains = connection_drains [OF rtranclp.rtrancl_refl this(2,1,3), of sample_externals "\<lambda>_. []" codec_plaintext "''c''" "\<lparr>sa_ip = IpV4 1, sa_port = 80\<rparr>" None None None]
  moreover have "\<nexists>s'. internal_step sample_externals (\<lambda>_. []) server_new codec_plaintext ''c'' \<lparr>sa_ip = IpV4 1, sa_port = 80\<rparr> ?s s'"
    by (auto elim!: internal_step.cases simp: conn_init_def register_client_def channel_new_def recv_def)
  ultimately show ?thesis
    using drains [THEN conjunct2, rule_format, of ?s] by (auto simp: Let_def)
qed

end
