(* ===== verification/Server_Listener.thy ===== *)
theory Server_Listener
  imports Server_Machine
begin

section \<open>The server as a whole\<close>

text \<open>
  \<open>WscallServer::listen\<close> and the tasks it starts: the accept loop with its semaphore of \<open>max_connections\<close> permits, the
  set-up of accepted connections, their reader, handler and writer tasks, the clean-up task of the rate limiter and the
  application's pushes through the server handle, over the one shared state. A step of the server is a step of
  one of them. Every connection sees the others as the rest of the server in \<open>Server_Machine\<close>, so what was
  shown there of one connection holds of all connections of a running server.
\<close>

subsection \<open>State and steps\<close>

datatype accept_stage = AwaitConnection | Accepting | ListenEnded

record served =
  lv_id :: string
  lv_peer :: socket_addr
  lv_codec :: frame_codec
  lv_conn :: conn
  lv_done :: bool

record listener =
  ls_stage :: accept_stage
  ls_permits :: "nat option"
  ls_opening :: "socket_addr list"
  ls_live :: "served list"

type_synonym listen_state = "listener \<times> server_state \<times> limiter_state option"

definition listen_start :: "wscall_server \<Rightarrow> listener" where
  "listen_start S = \<lparr>ls_stage = AwaitConnection, ls_permits = sv_max_connections S, ls_opening = [], ls_live = []\<rparr>"

text \<open>Dropping a connection's permit, when connections are capped.\<close>

definition release :: "listener \<Rightarrow> listener" where
  "release ls = ls\<lparr>ls_permits := map_option Suc (ls_permits ls)\<rparr>"

text \<open>\<open>serve_connection\<close> has returned from its set-up: the connection is served, or its task ends.\<close>

definition opened ::
  "string \<Rightarrow> socket_addr \<Rightarrow> server_error + (frame_codec \<times> duration) option \<Rightarrow> listener \<Rightarrow> listener" where
  "opened cid peer r ls =
     (case r of
        Inr (Some (codec, idle)) \<Rightarrow> ls\<lparr>ls_live := ls_live ls @
          [\<lparr>lv_id = cid, lv_peer = peer, lv_codec = codec, lv_conn = conn_init, lv_done = False\<rparr>]\<rparr>
      | _ \<Rightarrow> release ls)"

inductive listen_step ::
  "externals \<Rightarrow> (server_error \<Rightarrow> string) \<Rightarrow> wscall_server \<Rightarrow> listen_state \<Rightarrow> listen_state \<Rightarrow> bool" for X sh S where
  permit: "\<lbrakk>ls_stage ls = AwaitConnection; ls_permits ls = Some (Suc n)\<rbrakk> \<Longrightarrow>
    listen_step X sh S (ls, st, lim) (ls\<lparr>ls_stage := Accepting, ls_permits := Some n\<rparr>, st, lim)"
| uncapped: "\<lbrakk>ls_stage ls = AwaitConnection; ls_permits ls = None\<rbrakk> \<Longrightarrow>
    listen_step X sh S (ls, st, lim) (ls\<lparr>ls_stage := Accepting\<rparr>, st, lim)"
| accept: "ls_stage ls = Accepting \<Longrightarrow>
    listen_step X sh S (ls, st, lim)
      (ls\<lparr>ls_stage := AwaitConnection, ls_opening := ls_opening ls @ [peer]\<rparr>, st, lim)"
| accept_fails: "ls_stage ls = Accepting \<Longrightarrow>
    listen_step X sh S (ls, st, lim) (release (ls\<lparr>ls_stage := ListenEnded\<rparr>), st, lim)"
| upgrade_fails: "\<lbrakk>ls_opening ls = ps @ peer # ps';
    lim' = map_option (\<lambda>rl. snd (is_ip_banned now (sa_ip peer) rl)) lim;
    \<forall>rl. lim = Some rl \<longrightarrow> \<not> fst (is_ip_banned now (sa_ip peer) rl)\<rbrakk> \<Longrightarrow>
    listen_step X sh S (ls, st, lim) (release (ls\<lparr>ls_opening := ps @ ps'\<rparr>), st, lim')"
| open_conn: "\<lbrakk>ls_opening ls = ps @ peer # ps'; ss_channels st cid = None; map_of (ss_clients st) cid = None;
    open_connection X sh r1 r2 r3 S cid peer now n1 n2 net lim st = (r, lim', st')\<rbrakk> \<Longrightarrow>
    listen_step X sh S (ls, st, lim) (opened cid peer r (ls\<lparr>ls_opening := ps @ ps'\<rparr>), st', lim')"
| serve: "\<lbrakk>ls_live ls = lvs @ lv # lvs';
    task_step X sh S (lv_codec lv) (lv_id lv) (lv_peer lv) (lv_conn lv, st, lim) (cn', st', lim')\<rbrakk> \<Longrightarrow>
    listen_step X sh S (ls, st, lim) (ls\<lparr>ls_live := lvs @ lv\<lparr>lv_conn := cn'\<rparr> # lvs'\<rparr>, st', lim')"
| served: "\<lbrakk>ls_live ls = lvs @ lv # lvs'; cn_reader (lv_conn lv) = Gone; \<not> lv_done lv\<rbrakk> \<Longrightarrow>
    listen_step X sh S (ls, st, lim) (release (ls\<lparr>ls_live := lvs @ lv\<lparr>lv_done := True\<rparr> # lvs'\<rparr>), st, lim)"
| purge: "listen_step X sh S (ls, st, lim) (ls, st, map_option (cleanup now) lim)"
| broadcast: "listen_step X sh S (ls, st, lim) (ls, snd (broadcast_event X rnd (handle S) name data atts st), lim)"
| push: "listen_step X sh S (ls, st, lim) (ls, snd (send_event_to X rnd (handle S) cid name data atts st), lim)"

subsection \<open>One connection seen from another\<close>

lemma outside_pushes: "only_pushes st st' \<Longrightarrow> outside cid st st'"
  by (auto simp: outside_def only_pushes_def intro: only_pushes_ok [unfolded only_pushes_def])

lemma outside_trans: "outside cid a b \<Longrightarrow> outside cid b c \<Longrightarrow> outside cid a c"
proof -
  assume ab: "outside cid a b" and bc: "outside cid b c"
  have "rel_option queue_grows (ss_channels a cid) (ss_channels c cid)"
    using ab bc queue_grows_trans unfolding outside_def
    by (cases "ss_channels a cid"; cases "ss_channels b cid"; cases "ss_channels c cid") auto
  then show ?thesis using ab bc by (simp add: outside_def)
qed

lemma outside_channel:
  assumes "cid' \<noteq> cid" "state_ok st \<Longrightarrow> state_ok st'" "map_of (ss_clients st') cid = map_of (ss_clients st) cid"
    and "ss_channels st' cid = ss_channels st cid"
  shows "outside cid st st'"
  using assms by (simp add: outside_def option.rel_refl)

lemma outside_abort: "cid' \<noteq> cid \<Longrightarrow> outside cid st (abort_writer cid' st)"
  by (rule outside_channel) (auto simp: state_ok_abort, auto simp: abort_writer_def)

lemma outside_teardown: "cid' \<noteq> cid \<Longrightarrow> outside cid st (teardown cid' st)"
  unfolding teardown_def
  by (rule outside_trans [OF outside_channel outside_pushes [OF only_pushes_try_send]])
    (auto simp: state_ok_map_of map_ok_map_remove)

lemma outside_finish:
  assumes "cid' \<noteq> cid" "server_confined S" "state_ok st"
  shows "outside cid st (notify_disconnected S cid' peer r (abort_writer cid' st))"
  unfolding notify_disconnected_def
  by (rule outside_trans [OF outside_abort [OF assms(1)] outside_pushes], rule notify_all_pushes)
    (use assms in \<open>auto simp: server_confined_def state_ok_abort\<close>)

lemma internal_outside:
  assumes "internal_step X sh S c cid' peer s s'" "cid' \<noteq> cid" "linked cid' (fst s) (fst (snd s))" "server_confined S"
  shows "outside cid (fst (snd s)) (fst (snd s'))"
proof -
  have ok: "state_ok (fst (snd s))" using assms(3) by (simp add: linked_def)
  have ok': "state_ok (fst (snd s'))" using internal_linked [OF assms(1,3,4)] by (simp add: linked_def)
  from assms(1) show ?thesis
  proof (cases rule: internal_step.cases)
    case (run cn ts t ts' body st p st' lim)
    then show ?thesis using reply_to_pushes [OF assms(4)] ok outside_pushes by simp
  next
    case (run_panics cn ts t ts' body st st' lim)
    then show ?thesis using reply_to_pushes [OF assms(4)] ok outside_pushes by simp
  next
    case (ship cn st ch msg ch' rnd frames goes_on lim)
    then show ?thesis using assms(2) ok' by (intro outside_channel [of cid']) simp_all
  next
    case (finish cn r st lim)
    then show ?thesis using outside_finish [OF assms(2,4)] ok by simp
  qed (auto simp: outside_pushes queue_send_pushes outside_teardown [OF assms(2)])
qed

lemma task_outside:
  assumes "task_step X sh S c cid' peer s s'" "cid' \<noteq> cid" "linked cid' (fst s) (fst (snd s))" "server_confined S"
  shows "outside cid (fst (snd s)) (fst (snd s'))"
  using assms(1)
proof (cases rule: task_step.cases)
  case internal
  then show ?thesis by (rule internal_outside [OF _ assms(2-4)])
qed (auto simp: outside_pushes outside_abort [OF assms(2)])


lemma open_outside:
  assumes "open_connection X sh r1 r2 r3 S cid' peer now n1 n2 net lim st = (r, lim', st')"
    and "cid' \<noteq> cid" "server_confined S" "state_ok st"
  shows "outside cid st st'"
  using assms(3,4,1)
proof (cases rule: open_connection_cases)
  case (ok t a st1 st2 hello st3)
  have "state_ok st1" by (rule only_pushes_ok [OF ok(1) assms(4)])
  then have ok': "state_ok (register_client cid' t a st1)" by (rule state_ok_register)
  have "outside cid st1 (register_client cid' t a st1)"
    by (rule outside_channel [OF assms(2)]) (use ok' assms(2) in \<open>simp_all add: register_client_def\<close>)
  then have o3: "outside cid st st3"
    using outside_trans [OF outside_trans [OF outside_pushes [OF ok(1)]] outside_pushes [OF ok(6)]] by blast
  have "state_ok st3" by (rule only_pushes_ok [OF ok(6) ok'])
  then have "outside cid st3 (finish_connection sh S cid' p r st3)" for p r
    unfolding finish_connection_def
    by (intro outside_trans [OF outside_teardown [OF assms(2)] outside_finish [OF assms(2,3)]] state_ok_teardown)
  then show ?thesis using ok(4) o3 outside_trans by (auto split: sum.splits)
qed (auto simp: outside_pushes)

subsection \<open>Every connection of the server runs as shown of one\<close>

definition runs :: "externals \<Rightarrow> (server_error \<Rightarrow> string) \<Rightarrow> wscall_server \<Rightarrow> server_state \<Rightarrow> limiter_state option \<Rightarrow> served \<Rightarrow> bool" where
  "runs X sh S st lim lv \<longleftrightarrow> linked (lv_id lv) (lv_conn lv) st \<and>
     (\<exists>t a st0 lim0. state_ok st0 \<and> (conn_step X sh S (lv_codec lv) (lv_id lv) (lv_peer lv))\<^sup>*\<^sup>*
        (conn_init, register_client (lv_id lv) t a st0, lim0) (lv_conn lv, st, lim))"

lemma runsI:
  assumes "linked (lv_id lv) (lv_conn lv) st" "state_ok st0"
    and "(conn_step X sh S (lv_codec lv) (lv_id lv) (lv_peer lv))\<^sup>*\<^sup>*
      (conn_init, register_client (lv_id lv) t a st0, lim0) (lv_conn lv, st, lim)"
  shows "runs X sh S st lim lv"
  using assms unfolding runs_def by (intro conjI exI)

lemma runsE:
  assumes "runs X sh S st lim lv"
  obtains t a st0 lim0 where "linked (lv_id lv) (lv_conn lv) st" "state_ok st0"
    "(conn_step X sh S (lv_codec lv) (lv_id lv) (lv_peer lv))\<^sup>*\<^sup>*
      (conn_init, register_client (lv_id lv) t a st0, lim0) (lv_conn lv, st, lim)"
  using assms unfolding runs_def by (elim conjE exE) (rule that)

lemma runs_outside:
  assumes "runs X sh S st lim lv" "outside (lv_id lv) st st'"
  shows "runs X sh S st' lim' lv"
  using assms(1)
proof (rule runsE)
  fix t a st0 lim0
  assume l: "linked (lv_id lv) (lv_conn lv) st" "state_ok st0"
    and r: "(conn_step X sh S (lv_codec lv) (lv_id lv) (lv_peer lv))\<^sup>*\<^sup>*
      (conn_init, register_client (lv_id lv) t a st0, lim0) (lv_conn lv, st, lim)"
  show ?thesis
    by (rule runsI [OF linked_outside [OF assms(2) l(1)] l(2) rtranclp.rtrancl_into_rtrancl [OF r]])
      (rule conn_step.elsewhere [OF assms(2)])
qed

lemma runs_own:
  assumes "runs X sh S st lim lv" "server_confined S"
    and "task_step X sh S (lv_codec lv) (lv_id lv) (lv_peer lv) (lv_conn lv, st, lim) (cn', st', lim')"
  shows "runs X sh S st' lim' (lv\<lparr>lv_conn := cn'\<rparr>)"
  using assms(1)
proof (rule runsE)
  fix t a st0 lim0
  assume l: "linked (lv_id lv) (lv_conn lv) st" "state_ok st0"
    and r: "(conn_step X sh S (lv_codec lv) (lv_id lv) (lv_peer lv))\<^sup>*\<^sup>*
      (conn_init, register_client (lv_id lv) t a st0, lim0) (lv_conn lv, st, lim)"
  have r': "(conn_step X sh S (lv_codec lv) (lv_id lv) (lv_peer lv))\<^sup>*\<^sup>*
      (conn_init, register_client (lv_id lv) t a st0, lim0) (cn', st', lim')"
    by (rule rtranclp.rtrancl_into_rtrancl [OF r conn_step.own [OF assms(3)]])
  have l': "linked (lv_id lv) cn' st'" using task_linked [OF assms(3) _ assms(2)] l(1) by simp
  show ?thesis by (rule runsI [of _ _ st0 X sh S t a lim0]) (simp_all add: l' l(2) r')
qed

lemma runs_opened:
  assumes "open_connection X sh r1 r2 r3 S cid peer now n1 n2 net lim st = (Inr (Some (codec, idle)), lim', st')"
    and "server_confined S" "state_ok st"
  shows "runs X sh S st' lim' \<lparr>lv_id = cid, lv_peer = peer, lv_codec = codec, lv_conn = conn_init, lv_done = False\<rparr>"
  using assms(2,3,1)
proof (cases rule: open_connection_cases)
  case (ok t a st1 st2 hello st3)
  have s1: "state_ok st1" by (rule only_pushes_ok [OF ok(1) assms(3)])
  have o: "outside cid (register_client cid t a st1) st'"
    using ok(4,6) outside_pushes by (auto split: sum.splits)
  have "(conn_step X sh S codec cid peer)\<^sup>*\<^sup>* (conn_init, register_client cid t a st1, lim') (conn_init, st', lim')"
    by (intro r_into_rtranclp conn_step.elsewhere o)
  then show ?thesis
    by (intro runsI [of _ _ st1 _ _ _ t a lim']) (simp_all only: served.simps linked_outside [OF o init_linked [OF s1]] s1)
qed simp_all

definition server_runs :: "externals \<Rightarrow> (server_error \<Rightarrow> string) \<Rightarrow> wscall_server \<Rightarrow> listen_state \<Rightarrow> bool" where
  "server_runs X sh S s \<longleftrightarrow> (case s of (ls, st, lim) \<Rightarrow>
     state_ok st \<and> distinct (map lv_id (ls_live ls)) \<and> (\<forall>lv \<in> set (ls_live ls). runs X sh S st lim lv))"

lemma runs_id: "runs X sh S st lim lv \<Longrightarrow> ss_channels st (lv_id lv) \<noteq> None"
  by (auto simp: runs_def linked_def)

lemma release_simps [simp]:
  "ls_live (release ls) = ls_live ls" "ls_opening (release ls) = ls_opening ls" "ls_stage (release ls) = ls_stage ls"
  "ls_permits (release ls) = map_option Suc (ls_permits ls)"
  by (simp_all add: release_def)

lemma runs_done [simp]: "runs X sh S st lim (lv\<lparr>lv_done := b\<rparr>) = runs X sh S st lim lv"
  by (simp add: runs_def)

lemma server_runs_outside:
  assumes "server_runs X sh S (ls, st, lim)" "only_pushes st st'"
  shows "server_runs X sh S (ls, st', lim')"
  using assms(1) runs_outside [OF _ outside_pushes [OF assms(2)]] only_pushes_ok [OF assms(2)]
  by (auto simp: server_runs_def)

lemma server_runs_step:
  assumes "listen_step X sh S s s'" "server_confined S" "server_runs X sh S s"
  shows "server_runs X sh S s'"
  using assms(1)
proof (cases rule: listen_step.cases)
  case (open_conn ls ps peer ps' st cid r1 r2 r3 now n1 n2 net lim r lim' st')
  have inv: "state_ok st" "distinct (map lv_id (ls_live ls))" "\<forall>lv \<in> set (ls_live ls). runs X sh S st lim lv"
    using assms(3) open_conn(1) by (simp_all add: server_runs_def)
  have new: "cid \<notin> lv_id ` set (ls_live ls)" using inv(3) open_conn(4) runs_id by fastforce
  have old: "\<forall>lv \<in> set (ls_live ls). runs X sh S st' lim' lv"
  proof
    fix lv assume lv: "lv \<in> set (ls_live ls)"
    with new have "cid \<noteq> lv_id lv" by blast
    from open_outside [OF open_conn(6) this assms(2) inv(1)] show "runs X sh S st' lim' lv"
      using inv(3) lv runs_outside by blast
  qed
  have "state_ok st'" using open_outside [OF open_conn(6) _ assms(2) inv(1), of "''x'' @ cid"] inv(1) by (simp add: outside_def)
  then show ?thesis
    using old new inv(2) runs_opened [OF _ assms(2) inv(1)] open_conn(2,6)
    by (auto simp: server_runs_def opened_def split: sum.split option.split)
next
  case (serve ls lvs lv lvs' st lim cn' st' lim')
  have inv: "distinct (map lv_id (ls_live ls))" "\<forall>lv \<in> set (ls_live ls). runs X sh S st lim lv"
    using assms(3) serve(1) by (simp_all add: server_runs_def)
  have lv: "runs X sh S st lim lv" using inv(2) serve(3) by simp
  have own: "runs X sh S st' lim' (lv\<lparr>lv_conn := cn'\<rparr>)" by (rule runs_own [OF lv assms(2) serve(4)])
  have link: "linked (lv_id lv) (lv_conn lv) st" using lv by (simp add: runs_def)
  have "\<forall>l \<in> set (lvs @ lvs'). runs X sh S st' lim' l"
  proof
    fix l assume l: "l \<in> set (lvs @ lvs')"
    with inv(1) serve(3) have "lv_id lv \<noteq> lv_id l" by auto
    from task_outside [OF serve(4) this _ assms(2)] link have "outside (lv_id l) st st'" by simp
    moreover from l inv(2) serve(3) have "runs X sh S st lim l" by auto
    ultimately show "runs X sh S st' lim' l" by (rule runs_outside [rotated])
  qed
  moreover have "state_ok st'" using own by (simp add: runs_def linked_def)
  ultimately show ?thesis using own inv(1) serve(2,3) by (auto simp: server_runs_def)
next
  case (served ls lvs lv lvs' st lim)
  then show ?thesis using assms(3) by (auto simp: server_runs_def)
next
  case (broadcast ls st lim rnd name data atts)
  then show ?thesis using server_runs_outside [OF assms(3) [unfolded broadcast(1)] broadcast.pushes] assms(3)
    by (simp add: server_runs_def)
next
  case (push ls st lim rnd cid name data atts)
  then show ?thesis using server_runs_outside [OF assms(3) [unfolded push(1)] direct.pushes] assms(3)
    by (simp add: server_runs_def)
next
  case (upgrade_fails ls ps peer ps' lim' now lim st)
  then show ?thesis
    using server_runs_outside [OF assms(3) [unfolded upgrade_fails(1)] only_pushes_refl, of lim'] by (simp add: server_runs_def)
next
  case (purge ls st lim now)
  then show ?thesis using server_runs_outside [OF assms(3) [unfolded purge(1)] only_pushes_refl] by simp
qed (use assms(3) in \<open>auto simp: server_runs_def\<close>)


interpretation every_conn: step_invariant "listen_step X sh S" "\<lambda>s. server_confined S \<longrightarrow> server_runs X sh S s" for X sh S
  by unfold_locales (blast intro: server_runs_step)

lemma server_runs_reach:
  assumes "(listen_step X sh S)\<^sup>*\<^sup>* s s'" "server_confined S" "server_runs X sh S s"
  shows "server_runs X sh S s'"
  using every_conn.run_kept [OF assms(1)] assms(2,3) by blast

lemma server_runs_start: "server_runs X sh S (listen_start S, server_state_new, lim)"
  by (simp add: server_runs_def listen_start_def state_ok_def server_state_new_def map_ok_def)

subsection \<open>The table and the permits\<close>

lemma internal_gone:
  "internal_step X sh S c cid peer s s' \<Longrightarrow> cn_reader (fst s) = Gone \<Longrightarrow> cn_reader (fst s') = Gone"
  by (induction rule: internal_step.induct) simp_all

lemma task_gone:
  "task_step X sh S c cid peer s s' \<Longrightarrow> cn_reader (fst s) = Gone \<Longrightarrow> cn_reader (fst s') = Gone"
  by (induction rule: task_step.induct) (simp_all add: internal_gone)

definition ids :: "server_state \<Rightarrow> string set" where
  "ids st = dom (map_of (ss_clients st))"

lemma ids_pushes: "only_pushes st st' \<Longrightarrow> ids st' = ids st"
  by (simp add: ids_def only_pushes_def)

lemma ids_abort [simp]: "ids (abort_writer cid st) = ids st"
  by (simp add: ids_def abort_writer_def)

lemma ids_teardown [simp]: "ids (teardown cid st) = ids st - {cid}"
  unfolding teardown_def by (subst ids_pushes [OF only_pushes_try_send]) (auto simp: ids_def)

lemma ids_register [simp]: "ids (register_client cid t a st) = insert cid (ids st)"
  by (simp add: ids_def register_client_def)

lemma ids_notify: "server_confined S \<Longrightarrow> state_ok st \<Longrightarrow> ids (notify_disconnected S cid peer r st) = ids st"
  unfolding notify_disconnected_def by (rule ids_pushes, rule notify_all_pushes) (auto simp: server_confined_def)

lemma internal_ids:
  assumes "internal_step X sh S c cid peer s s'" "linked cid (fst s) (fst (snd s))" "server_confined S"
  shows "(alive (cn_reader (fst s')) \<longrightarrow> alive (cn_reader (fst s))) \<and> ids (fst (snd s')) =
    (if alive (cn_reader (fst s)) \<and> \<not> alive (cn_reader (fst s')) then ids (fst (snd s)) - {cid} else ids (fst (snd s)))"
  using assms(1)
proof (cases rule: internal_step.cases)
  case (run cn ts t ts' body st p st' lim)
  then show ?thesis using reply_to_pushes [OF assms(3)] assms(2) ids_pushes by (simp add: linked_def)
next
  case (run_panics cn ts t ts' body st st' lim)
  then show ?thesis using reply_to_pushes [OF assms(3)] assms(2) ids_pushes by (simp add: linked_def)
next
  case (ship cn st ch msg ch' rnd frames goes_on lim)
  then show ?thesis by (simp add: ids_def)
next
  case (finish cn r st lim)
  then show ?thesis using assms(2,3) by (simp add: linked_def ids_notify state_ok_abort)
qed (auto simp: ids_pushes queue_send_pushes split: sum.splits)

lemma task_ids:
  assumes "task_step X sh S c cid peer s s'" "linked cid (fst s) (fst (snd s))" "server_confined S"
  shows "(alive (cn_reader (fst s')) \<longrightarrow> alive (cn_reader (fst s))) \<and> ids (fst (snd s')) =
    (if alive (cn_reader (fst s)) \<and> \<not> alive (cn_reader (fst s')) then ids (fst (snd s)) - {cid} else ids (fst (snd s)))"
  using assms(1)
proof (cases rule: task_step.cases)
  case internal
  then show ?thesis by (rule internal_ids [OF _ assms(2,3)])
qed (auto simp: apply_action_def Let_def split: reader_action.splits option.splits)

lemma open_ids:
  assumes "open_connection X sh r1 r2 r3 S cid peer now n1 n2 net lim st = (r, lim', st')"
    and "server_confined S" "state_ok st" "cid \<notin> ids st"
  shows "ids st' = (case r of Inr (Some _) \<Rightarrow> insert cid (ids st) | _ \<Rightarrow> ids st)"
  using assms(2,3,1)
proof (cases rule: open_connection_cases)
  case (ok t a st1 st2 hello st3)
  have i3: "ids st3 = insert cid (ids st)" using ids_pushes [OF ok(1)] ids_pushes [OF ok(6)] by simp
  have "state_ok st3" by (rule only_pushes_ok [OF ok(6) state_ok_register [OF only_pushes_ok [OF ok(1) assms(3)]]])
  then have "ids (finish_connection sh S cid p r st3) = ids st" for p r
    using assms(2,4) i3 by (simp add: finish_connection_def ids_notify state_ok_abort state_ok_teardown)
  then show ?thesis using ok(4) i3 by (auto split: sum.splits)
next
  case early
  then show ?thesis by (auto split: sum.split option.split)
qed (simp add: ids_pushes)


text \<open>The permits in use: the one the accept loop holds while it waits, and those of connections not yet ended.\<close>

definition in_use :: "listener \<Rightarrow> nat" where
  "in_use ls = (if ls_stage ls = Accepting then 1 else 0) + length (ls_opening ls) + length (filter (\<lambda>lv. \<not> lv_done lv) (ls_live ls))"

definition live_ids :: "listener \<Rightarrow> string list" where
  "live_ids ls = map lv_id (filter (\<lambda>lv. alive (cn_reader (lv_conn lv))) (ls_live ls))"

definition server_counts :: "wscall_server \<Rightarrow> listen_state \<Rightarrow> bool" where
  "server_counts S s \<longleftrightarrow> (case s of (ls, st, lim) \<Rightarrow> ids st = set (live_ids ls) \<and>
     (\<forall>lv \<in> set (ls_live ls). lv_done lv \<longrightarrow> cn_reader (lv_conn lv) = Gone) \<and>
     map_option (\<lambda>n. n + in_use ls) (ls_permits ls) = sv_max_connections S)"

lemma live_ids_split:
  "ls_live ls = lvs @ lv # lvs' \<Longrightarrow> set (live_ids ls) =
     set (live_ids (ls\<lparr>ls_live := lvs @ lvs'\<rparr>)) \<union> (if alive (cn_reader (lv_conn lv)) then {lv_id lv} else {})"
  by (auto simp: live_ids_def)

lemma live_ids_opening [simp]: "live_ids (ls\<lparr>ls_opening := ps\<rparr>) = live_ids ls"
  by (simp add: live_ids_def)

lemma live_ids_opened:
  "live_ids (opened cid peer r ls) = (case r of Inr (Some _) \<Rightarrow> live_ids ls @ [cid] | _ \<Rightarrow> live_ids ls)"
  by (auto simp: opened_def live_ids_def conn_init_def split: sum.split option.split)

lemma in_use_opened:
  assumes "ls_opening ls = ps @ peer # ps'"
  shows "map_option (\<lambda>n. n + in_use (opened cid peer r (ls\<lparr>ls_opening := ps @ ps'\<rparr>)))
      (ls_permits (opened cid peer r (ls\<lparr>ls_opening := ps @ ps'\<rparr>))) =
    map_option (\<lambda>n. n + in_use ls) (ls_permits ls)"
  using assms by (auto simp: opened_def in_use_def option.map_comp comp_def split: sum.split option.split)

lemma filter_length_mono: "\<forall>x \<in> set xs. P x \<longrightarrow> Q x \<Longrightarrow> length (filter P xs) \<le> length (filter Q xs)"
  by (induction xs) auto

lemma server_counts_start: "server_counts S (listen_start S, server_state_new, lim)"
  by (simp add: server_counts_def listen_start_def ids_def server_state_new_def live_ids_def in_use_def option.map_ident)

lemma serve_counts:
  assumes "server_runs X sh S (ls, st, lim)" "server_counts S (ls, st, lim)" "server_confined S" "ls_live ls = lvs @ lv # lvs'"
    and "task_step X sh S (lv_codec lv) (lv_id lv) (lv_peer lv) (lv_conn lv, st, lim) (cn', st', lim')"
  shows "server_counts S (ls\<lparr>ls_live := lvs @ lv\<lparr>lv_conn := cn'\<rparr> # lvs'\<rparr>, st', lim')"
proof -
  let ?new = "ls\<lparr>ls_live := lvs @ lv\<lparr>lv_conn := cn'\<rparr> # lvs'\<rparr>"
  have d: "distinct (map lv_id (ls_live ls))" and l: "linked (lv_id lv) (lv_conn lv) st"
    using assms(1,4) by (auto simp: server_runs_def runs_def)
  have "lv_id lv \<notin> set (live_ids (ls\<lparr>ls_live := lvs @ lvs'\<rparr>))" using d assms(4) by (auto simp: live_ids_def)
  then have "ids st' = set (live_ids ?new)"
    using task_ids [OF assms(5) _ assms(3)] l assms(2) live_ids_split [OF assms(4)]
      live_ids_split [of ?new lvs "lv\<lparr>lv_conn := cn'\<rparr>" lvs']
    by (auto simp: server_counts_def split: if_splits)
  moreover have "lv_done lv \<Longrightarrow> cn_reader cn' = Gone"
    using task_gone [OF assms(5)] assms(2,4) by (simp add: server_counts_def)
  ultimately show ?thesis using assms(2,4) by (auto simp: server_counts_def in_use_def)
qed

lemma server_counts_step:
  assumes "listen_step X sh S s s'" "server_confined S" "server_runs X sh S s" "server_counts S s"
  shows "server_counts S s'"
  using assms(1)
proof (cases rule: listen_step.cases)
  case (open_conn ls ps peer ps' st cid r1 r2 r3 now n1 n2 net lim r lim' st')
  have "state_ok st" "cid \<notin> ids st" using assms(3) open_conn(1,5) by (auto simp: server_runs_def ids_def)
  then have "ids st' = (case r of Inr (Some _) \<Rightarrow> insert cid (ids st) | _ \<Rightarrow> ids st)"
    by (rule open_ids [OF open_conn(6) assms(2)])
  then show ?thesis
    using assms(4) in_use_opened [OF open_conn(3), of cid r] live_ids_opened [of cid peer r "ls\<lparr>ls_opening := ps @ ps'\<rparr>"]
    unfolding open_conn(1,2) server_counts_def
    by (auto simp: opened_def split: sum.splits option.splits)
next
  case (serve ls lvs lv lvs' st lim cn' st' lim')
  then show ?thesis using serve_counts assms(2-4) by simp
next
  case (served ls lvs lv lvs' st lim)
  have "live_ids (release (ls\<lparr>ls_live := lvs @ lv\<lparr>lv_done := True\<rparr> # lvs'\<rparr>)) = live_ids ls"
    using served(3) by (auto simp: live_ids_def)
  then show ?thesis
    using assms(4) served by (auto simp: server_counts_def in_use_def option.map_comp comp_def)
next
  case (broadcast ls st lim rnd name data atts)
  then show ?thesis using assms(3,4) ids_pushes [OF broadcast.pushes] by (simp add: server_counts_def server_runs_def)
next
  case (push ls st lim rnd cid name data atts)
  then show ?thesis using assms(3,4) ids_pushes [OF direct.pushes] by (simp add: server_counts_def server_runs_def)
qed (use assms(4) in \<open>auto simp: server_counts_def in_use_def live_ids_def option.map_comp comp_def\<close>)

interpretation counts: step_invariant "listen_step X sh S"
    "\<lambda>s. server_confined S \<longrightarrow> server_runs X sh S s \<and> server_counts S s" for X sh S
  by unfold_locales (blast intro: server_runs_step server_counts_step)

lemma server_counts_reach:
  assumes "(listen_step X sh S)\<^sup>*\<^sup>* (listen_start S, server_state_new, lim0) s" "server_confined S"
  shows "server_counts S s"
  using counts.run_kept [OF assms(1)] assms(2) server_runs_start server_counts_start by blast

text \<open>
  C6. The connection cap. In every state a running server can reach, the table of clients holds exactly the connections
  whose reader has not yet torn down, each once; when \<open>with_max_connections(m)\<close> is set, the free permits, the one held by the
  accept loop and those of connections being set up or served always sum to \<open>m\<close>: never more than \<open>m\<close> connections
  are set up or served together, \<open>connection_count\<close> never exceeds \<open>m\<close>, and no permit leaks - while fewer than
  \<open>m\<close> are in use the waiting accept loop can take another connection.
\<close>

theorem connection_cap:
  assumes "(listen_step X sh S)\<^sup>*\<^sup>* (listen_start S, server_state_new, lim0) (ls, st, lim)" "server_confined S"
  shows "distinct (live_ids ls) \<and> dom (map_of (ss_clients st)) = set (live_ids ls) \<and> connection_count st = length (live_ids ls) \<and>
    (\<forall>m. sv_max_connections S = Some m \<longrightarrow> (\<exists>n. ls_permits ls = Some n \<and> n + in_use ls = m) \<and> connection_count st \<le> m \<and>
       (ls_stage ls = AwaitConnection \<and> in_use ls < m \<longrightarrow>
          (\<exists>n. listen_step X sh S (ls, st, lim) (ls\<lparr>ls_stage := Accepting, ls_permits := Some n\<rparr>, st, lim))))"
proof -
  have r: "server_runs X sh S (ls, st, lim)" by (rule server_runs_reach [OF assms server_runs_start])
  have c: "server_counts S (ls, st, lim)" by (rule server_counts_reach [OF assms])
  have d: "distinct (live_ids ls)"
    using r by (auto simp: server_runs_def live_ids_def distinct_map intro: inj_on_subset)
  have t: "dom (map_of (ss_clients st)) = set (live_ids ls)" using c by (simp add: server_counts_def ids_def)
  have "distinct (map fst (ss_clients st))" using r by (simp add: server_runs_def state_ok_def map_ok_def strict_sorted_iff)
  then have count: "connection_count st = length (live_ids ls)"
    using t d distinct_card [of "map fst (ss_clients st)"] distinct_card [of "live_ids ls"]
    by (simp add: connection_count_def dom_map_of_conv_image_fst)
  have le: "length (live_ids ls) \<le> in_use ls"
  proof -
    have "\<forall>lv \<in> set (ls_live ls). alive (cn_reader (lv_conn lv)) \<longrightarrow> \<not> lv_done lv"
      using c by (auto simp: server_counts_def)
    from filter_length_mono [OF this] show ?thesis by (simp add: live_ids_def in_use_def)
  qed
  have p: "\<exists>n. ls_permits ls = Some n \<and> n + in_use ls = m" if "sv_max_connections S = Some m" for m
    using c that by (auto simp: server_counts_def)
  have "\<exists>n. listen_step X sh S (ls, st, lim) (ls\<lparr>ls_stage := Accepting, ls_permits := Some n\<rparr>, st, lim)"
    if u: "sv_max_connections S = Some m" "ls_stage ls = AwaitConnection" "in_use ls < m" for m
  proof -
    obtain n where "ls_permits ls = Some (Suc n)" using p [OF u(1)] u(3) by (auto simp: gr0_conv_Suc dest: less_imp_add_positive)
    then show ?thesis using listen_step.permit [OF u(2)] by blast
  qed
  then show ?thesis using d t count p le by fastforce
qed


theorem connection_cap_witness:
  "let S = server_with_max_connections 1 server_new; peer = \<lparr>sa_ip = IpV4 1, sa_port = 80\<rparr>;
     ls = (listen_start S)\<lparr>ls_permits := Some 0, ls_opening := [peer]\<rparr> in
   (listen_step sample_externals (\<lambda>_. []) S)\<^sup>*\<^sup>* (listen_start S, server_state_new, None) (ls, server_state_new, None) \<and>
   connection_count server_state_new = length (live_ids ls) \<and> (\<exists>n. ls_permits ls = Some n \<and> n + in_use ls = 1)"
proof -
  define S :: wscall_server where "S = server_with_max_connections 1 server_new"
  define peer :: socket_addr where "peer = \<lparr>sa_ip = IpV4 1, sa_port = 80\<rparr>"
  define ls where "ls = (listen_start S)\<lparr>ls_permits := Some 0, ls_opening := [peer]\<rparr>"
  have conf: "server_confined S" by (simp add: S_def server_with_max_connections_def server_confined_def server_new_def)
  have "listen_step sample_externals (\<lambda>_. []) S (listen_start S, server_state_new, None)
      ((listen_start S)\<lparr>ls_stage := Accepting, ls_permits := Some 0\<rparr>, server_state_new, None)"
    by (rule listen_step.permit) (simp_all add: listen_start_def S_def server_with_max_connections_def)
  moreover have "listen_step sample_externals (\<lambda>_. []) S
      ((listen_start S)\<lparr>ls_stage := Accepting, ls_permits := Some 0\<rparr>, server_state_new, None) (ls, server_state_new, None)"
    using listen_step.accept [of "(listen_start S)\<lparr>ls_stage := Accepting, ls_permits := Some 0\<rparr>" _ _ _ _ None peer]
    by (simp add: ls_def listen_start_def)
  ultimately have run: "(listen_step sample_externals (\<lambda>_. []) S)\<^sup>*\<^sup>*
      (listen_start S, server_state_new, None) (ls, server_state_new, None)"
    by (rule converse_rtranclp_into_rtranclp [OF _ r_into_rtranclp])
  have "sv_max_connections S = Some 1" by (simp add: S_def server_with_max_connections_def)
  with connection_cap [OF run conf] run show ?thesis
    unfolding Let_def S_def [symmetric] peer_def [symmetric] ls_def [symmetric] by blast
qed

subsection \<open>Every connection of a running server\<close>

text \<open>
  C3. Composition. However the accept loop, the connections' tasks, the limiter's clean-up and pushes through the
  handle interleave, every connection the server ever served satisfies what was shown of one connection: at most \<open>max_in_flight\<close>
  handlers in flight, every accepted message answered once, lost or pending, every answer the reply to its
  message; its queue is a channel of 256, open exactly while its writer runs; and two connections never share an identifier.
\<close>

theorem every_connection_accounts:
  assumes "(listen_step X sh S)\<^sup>*\<^sup>* (listen_start S, server_state_new, lim0) (ls, st, lim)" "server_confined S"
    and "lv \<in> set (ls_live ls)"
  shows "distinct (map lv_id (ls_live ls)) \<and> length (cn_tasks (lv_conn lv)) \<le> sv_max_in_flight S \<and>
    mset (cn_accepted (lv_conn lv)) =
      mset (map fst (cn_answered (lv_conn lv))) + mset (cn_lost (lv_conn lv)) + pending (lv_conn lv) \<and>
    (\<forall>(k, msg) \<in> set (cn_answered (lv_conn lv)). carries X S k msg) \<and>
    (\<exists>ch. ss_channels st (lv_id lv) = Some ch \<and> ch_open ch = cn_writing (lv_conn lv) \<and> length (ch_queue ch) \<le> 256)"
proof -
  have inv: "server_runs X sh S (ls, st, lim)" by (rule server_runs_reach [OF assms(1,2) server_runs_start])
  then have r: "runs X sh S st lim lv" using assms(3) by (simp add: server_runs_def)
  then have "bounded S (lv_conn lv) \<and> accounted (lv_conn lv) \<and> tied X S (lv_conn lv)"
  proof (rule runsE)
    fix t a st0 lim0'
    assume "(conn_step X sh S (lv_codec lv) (lv_id lv) (lv_peer lv))\<^sup>*\<^sup>*
      (conn_init, register_client (lv_id lv) t a st0, lim0') (lv_conn lv, st, lim)"
    from run_invariants [OF this] show ?thesis by simp
  qed
  moreover obtain ch where "ss_channels st (lv_id lv) = Some ch" "ch_capacity ch = 256"
      "ch_open ch = cn_writing (lv_conn lv)" "channel_ok ch"
    using r by (auto simp: runs_def linked_def state_ok_def)
  ultimately show ?thesis
    using inv by (auto simp: server_runs_def bounded_def accounted_def tied_def channel_ok_def)
qed


text \<open>A run of the server that has one connection, in ECDH mode, on the sample functions.\<close>

lemma sample_opens:
  "\<exists>codec idle st. open_connection sample_externals (\<lambda>_. []) (Inr (replicate 32 2)) (Inr []) (Inr []) (server_with_ecdh server_new)
     ''c'' \<lparr>sa_ip = IpV4 1, sa_port = 80\<rparr> 0 (Received (Binary (replicate 32 1))) TimedOut (Inr ()) None server_state_new =
     (Inr (Some (codec, idle)), None, st)"
  by (simp add: open_connection_def server_new_def server_with_ecdh_def auth_phase_def Let_def connected_notice_def
      perform_ecdh_handshake_def ecdh_generate_def parse_peer_public_def ECDH_KEY_LEN_def send_event_to_def register_client_def
      notify_connected_def notify_all_def server_state_new_def handle_def try_send_to_def channel_new_def try_send_def SERVER_OUTBOUND_QUEUE_CAPACITY_def)

lemma sample_server_run:
  "\<exists>ls st lv. (listen_step sample_externals (\<lambda>_. []) (server_with_ecdh server_new))\<^sup>*\<^sup>*
     (listen_start (server_with_ecdh server_new), server_state_new, None) (ls, st, None) \<and> ls_live ls = [lv]"
proof -
  let ?S = "server_with_ecdh server_new" and ?peer = "\<lparr>sa_ip = IpV4 1, sa_port = 80\<rparr>"
  let ?step = "listen_step sample_externals (\<lambda>_. []) ?S" and ?a = "(listen_start ?S)\<lparr>ls_stage := Accepting\<rparr>"
  obtain codec idle st where o: "open_connection sample_externals (\<lambda>_. []) (Inr (replicate 32 2)) (Inr []) (Inr []) ?S
     ''c'' ?peer 0 (Received (Binary (replicate 32 1))) TimedOut (Inr ()) None server_state_new = (Inr (Some (codec, idle)), None, st)"
    using sample_opens by blast
  have "?step (listen_start ?S, server_state_new, None) (?a, server_state_new, None)"
    by (rule listen_step.uncapped) (simp_all add: listen_start_def server_with_ecdh_def server_new_def)
  moreover have "?step (?a, server_state_new, None)
      ((listen_start ?S)\<lparr>ls_opening := [?peer]\<rparr>, server_state_new, None)"
    using listen_step.accept [of ?a _ _ _ _ None ?peer] by (simp add: listen_start_def)
  moreover have "?step ((listen_start ?S)\<lparr>ls_opening := [?peer]\<rparr>, server_state_new, None)
      (opened ''c'' ?peer (Inr (Some (codec, idle))) ((listen_start ?S)\<lparr>ls_opening := []\<rparr>), st, None)"
    using listen_step.open_conn [OF _ _ _ o, of "(listen_start ?S)\<lparr>ls_opening := [?peer]\<rparr>" "[]" "[]"]
    by (simp add: server_state_new_def)
  ultimately have "?step\<^sup>*\<^sup>* (listen_start ?S, server_state_new, None)
      (opened ''c'' ?peer (Inr (Some (codec, idle))) ((listen_start ?S)\<lparr>ls_opening := []\<rparr>), st, None)"
    by (meson r_into_rtranclp rtranclp.rtrancl_into_rtrancl)
  then show ?thesis by (intro exI conjI, assumption) (simp add: opened_def listen_start_def)
qed

theorem every_connection_accounts_witness:
  "\<exists>ls st lv. (listen_step sample_externals (\<lambda>_. []) (server_with_ecdh server_new))\<^sup>*\<^sup>*
     (listen_start (server_with_ecdh server_new), server_state_new, None) (ls, st, None) \<and> lv \<in> set (ls_live ls) \<and>
   (\<exists>ch. ss_channels st (lv_id lv) = Some ch \<and> ch_open ch = cn_writing (lv_conn lv) \<and> length (ch_queue ch) \<le> 256)"
proof -
  obtain ls st lv where run: "(listen_step sample_externals (\<lambda>_. []) (server_with_ecdh server_new))\<^sup>*\<^sup>*
      (listen_start (server_with_ecdh server_new), server_state_new, None) (ls, st, None)" and lv: "lv \<in> set (ls_live ls)"
    using sample_server_run by fastforce
  have "server_confined (server_with_ecdh server_new)"
    by (simp add: server_confined_def server_with_ecdh_def server_new_def)
  from every_connection_accounts [OF run this lv] run lv show ?thesis by blast
qed


subsection \<open>The end of the accept loop\<close>

lemma ended_stays:
  "listen_step X sh S s s' \<Longrightarrow> ls_stage (fst s) = ListenEnded \<Longrightarrow>
     ls_stage (fst s') = ListenEnded \<and> length (ls_opening (fst s')) + length (ls_live (fst s')) \<le> length (ls_opening (fst s)) + length (ls_live (fst s))"
  by (induction rule: listen_step.induct) (auto simp: opened_def split: sum.split option.split)

interpretation ended: step_invariant "listen_step X sh S"
    "\<lambda>s. ls_stage (fst s) = ListenEnded \<and> length (ls_opening (fst s)) + length (ls_live (fst s)) \<le> n" for X sh S n
  using ended_stays by unfold_locales (meson order_trans)

text \<open>
  A failed \<open>accept\<close> (\<open>listener.accept().await?\<close>) returns from \<open>listen\<close>: whatever happens later, no connection beyond those
  already accepted is ever served, although the connections that exist go on.
\<close>

lemma accept_error_ends_listening:
  assumes "ls_stage ls = Accepting"
    and "(listen_step X sh S)\<^sup>*\<^sup>* (release (ls\<lparr>ls_stage := ListenEnded\<rparr>), st, lim) (ls', st', lim')"
  shows "listen_step X sh S (ls, st, lim) (release (ls\<lparr>ls_stage := ListenEnded\<rparr>), st, lim)"
    and "ls_stage ls' = ListenEnded \<and> length (ls_opening ls') + length (ls_live ls') \<le> length (ls_opening ls) + length (ls_live ls)"
proof -
  show "listen_step X sh S (ls, st, lim) (release (ls\<lparr>ls_stage := ListenEnded\<rparr>), st, lim)"
    by (rule listen_step.accept_fails [OF assms(1)])
  show "ls_stage ls' = ListenEnded \<and> length (ls_opening ls') + length (ls_live ls') \<le> length (ls_opening ls) + length (ls_live ls)"
    using ended.run_kept [OF assms(2), of "length (ls_opening ls) + length (ls_live ls)"] by simp
qed

end
