(* ===== verification/Spec2Isabelle.thy ===== *)
theory Spec2Isabelle
  imports Client_Machine Server_Listener
begin

text \<open>
  wscall is an RPC and event library over WebSockets: a wire protocol (\<open>crates/wscall-protocol\<close>), a server
  (\<open>crates/wscall-server\<close>) and a client (\<open>crates/wscall-client\<close>). This development models the code of the three crates
  as executable definitions and proves the properties that make it correct. Names follow the sources.

  \<^bold>\<open>Parts and how they interact.\<close> A client connects to a server, the two agree on a session key (X25519), the client
  submits a credential when it has one, and from then on both exchange frames: a length, a type byte and a payload, encrypted or
  not, that holds the packet as JSON and its attachments as binary sections. The client sends requests and
  events under ids of its own and waits for the answer with the same id; the server runs filters and handlers for them
  on tasks of their own and queues the replies for the connection's writer. Server and handlers push events to
  one or all clients. A rate limiter decides which data messages reach a handler.

  \<^bold>\<open>Theories.\<close>
  \<^item> \<open>Wscall_Prelude\<close>: machine integers, bytes and strings, \<open>Result\<close> with \<open>?\<close>, big-endian words, slices, and the contract of
    an invariant of a step relation (locale \<open>step_invariant\<close>), interpreted for each of the step relations below.
  \<^item> \<open>Utf8\<close>: when a byte string is UTF-8, what \<open>str::from_utf8\<close> accepts. \<open>Json\<close>: \<open>serde_json::Value\<close> and its ordered map (locale \<open>keyed_store\<close>).
  \<^item> \<open>Packet\<close> (\<open>wscall-protocol/src/lib.rs\<close>, 108-814): message types, attachments and their wire sections, error payloads, packet
    bodies, and the hand-written (de)serialization, with the round trips of each.
  \<^item> \<open>Externals\<close>: the code outside the repository as a record of functions (JSON text, AEAD ciphers, X25519, SHA-256) with
    the laws relied on (\<open>json_law\<close>, \<open>cipher_law\<close>, \<open>x25519_law\<close>), and a concrete instance that satisfies them.
  \<^item> \<open>Frame_Codec\<close> (\<open>wscall-protocol/src/lib.rs\<close>, 28-106 and 817-1163): the codec and the key agreement. Round trip in all modes, size bounds,
    soundness of decoding, and where the one-byte lengths wrap.
  \<^item> \<open>Rate_Limiter\<close> (\<open>rate_limiter.rs\<close>): the limiter with the time as an argument, refined against an ideal limiter that never
    forgets (for frames within the byte limits), with the bound of twice the limit per period and the effect of bans.
  \<^item> \<open>Validation\<close> (\<open>validation.rs\<close>): the validators and the rendering of their errors, exact at every path and independent of hash order.
  \<^item> \<open>Channel\<close>: the bounded queues of tokio as both ends use them.
  \<^item> \<open>Server_Types\<close> (\<open>server_types.rs\<close>, the pushes of \<open>server_runtime.rs\<close>), \<open>Server_Runtime\<close> (\<open>server_runtime.rs\<close>: builders,
    filters, dispatch, replies), \<open>Server_Connection\<close> (the phases of \<open>serve_connection\<close>), \<open>Server_Machine\<close> (its concurrent
    tasks as a step relation, in three layers: what the tasks do on their own, with input, and within a server) and \<open>Server_Listener\<close>
    (\<open>listen\<close>: the accept loop, its semaphore and all connections over one shared state): one reply per message, errors as answers, the
    authentication gate, for every interleaving that messages are accounted for, not lost while an ECDH connection lives and unguarded user code does not
    panic, and that the tasks finish their work; that every connection of a running server behaves as shown of one, the exact client table and the connection cap.
  \<^item> \<open>Client_Types\<close> (\<open>client_types.rs\<close>), \<open>Client_Runtime\<close> and \<open>Client_Session\<close> (\<open>client_runtime.rs\<close>): the client's state, calls, dispatch,
    connecting, the bodies of its tasks, disconnecting and the supervisor. Answers reach exactly their callers, a disconnect tells every waiter,
    failover and reconnect delays follow their rules. \<open>Client_Machine\<close> (\<open>client_runtime.rs\<close>): callers, \<open>close\<close>, supervisor and the tasks of
    all sessions as a step relation: every call accounted for, own answers only, one live session, no missed end of a session, what \<open>connect\<close>
    returns, what a closed client may still do.
  \<^item> This theory: what holds of a client and a server together.

  \<^bold>\<open>Conventions.\<close> A \<open>Result\<close> is a sum with the error on the left. \<open>usize\<close> values are natural numbers, fixed-width integers are
  words where their width matters. A \<open>String\<close> is the list of its UTF-8 bytes. Randomness, the clock, what the socket yields next and whether a
  write succeeds are arguments. Shared state is a record; one operation is atomic between two await points. \<open>None\<close>
  from a sending operation means that the caller waits for space in the queue. User handlers are arguments: functions of the server's state
  that return or panic. A route or event handler is called, outside the panic guard, and returns a future, which is polled inside it; both may panic. The
  handlers of authentication, connections and disconnections, of the server and of the client, are modelled as futures only: a panic in the synchronous
  part of such a handler is outside the model. There is no fuel: every loop modelled here is structural recursion, and the unbounded loops of the
  tasks are step relations.

  Step relations cut the code at its await points. Three stretches with several await points are one step each, so that what others may see in the middle
  of them is not modelled: the set-up of a connection on the server (handshake, authentication, registration, notice), \<open>establish_connection\<close>
  up to the installed session, and \<open>handle_disconnect\<close> up to its signal. A call of the rate limiter, several operations on concurrent maps in the code, is one
  step too. In the client's step relation ids and generations are
  taken while their 64-bit counters have not reached the end (the rules \<open>register\<close> and \<open>round\<close>).

  \<^bold>\<open>Not modelled.\<close> Socket and TLS I/O, logging, and the read-only accessors of context types, which are record selectors
  here. User code that never returns is outside the model: handlers return or panic. The facade crate re-exports the others; examples and tests
  are programs over real sockets.
\<close>

section \<open>Properties of client and server together\<close>

text \<open>A connection may use different size limits at its two ends; the limit only decides which frames are refused.\<close>

lemma decode_other_limit:
  assumes "length frame \<le> m" "length frame \<le> max_frame_bytes c"
  shows "decode X (codec_with_max_frame_bytes m c) frame = decode X c frame"
  using assms
  by (simp add: decode_def codec_with_max_frame_bytes_def Let_def decrypt_chacha20_def decrypt_aes256_def cong: encryption_kind.case_cong)

lemma received_by_peer:
  assumes "link_ok X rnd c" "packet_ok p" "encode X rnd c p = Inr frame" "length frame \<le> m"
  shows "decode X (codec_with_max_frame_bytes m c) frame = Inr (envelope_received c p)"
  using decode_encode [OF assms(1-3)] decode_other_limit [OF assms(4)] encode_header [OF _ assms(3)] assms(1)
  by (simp add: link_ok_def)

lemma limit_twice: "codec_with_max_frame_bytes m (codec_with_max_frame_bytes m' c) = codec_with_max_frame_bytes m c"
  by (simp add: codec_with_max_frame_bytes_def)

lemma limit_encryption: "wire_encryption (codec_with_max_frame_bytes m c) = wire_encryption c"
  by (simp add: codec_with_max_frame_bytes_def)

lemma limit_own: "codec_with_max_frame_bytes (max_frame_bytes c) c = c"
  by (simp add: codec_with_max_frame_bytes_def)

lemma link_ok_limit: "link_ok X rnd c \<Longrightarrow> m \<le> 2 ^ 32 \<Longrightarrow> link_ok X rnd (codec_with_max_frame_bytes m c)"
  by (simp add: link_ok_def codec_ok_builders) (simp add: codec_with_max_frame_bytes_def)

lemma received_from_peer:
  assumes "link_ok X rnd (codec_with_max_frame_bytes m c)" "packet_ok p"
    and "encode X rnd (codec_with_max_frame_bytes m c) p = Inr frame" "length frame \<le> max_frame_bytes c"
  shows "decode X c frame = Inr (envelope_received c p)"
  using received_by_peer [OF assms] by (simp add: limit_twice limit_own envelope_received_def codec_with_max_frame_bytes_def)

text \<open>
  C20. A session over ECDH. A client and a server that generate keys and exchange their public keys both complete the
  handshake with the same codec, which encrypts with ChaCha20-Poly1305; and afterwards every packet either of them encodes
  is decoded by the other to the packet as received, whatever size limit the server set, as long as the frame is
  within the receiver's limit.
\<close>

theorem ecdh_sessions_agree:
  assumes "x25519_law X" "json_law X" "cipher_law X" "length sa = 32" "length sb = 32"
  shows "\<exists>client_key server_key c.
    client_ecdh X (Inr sa) (Inr ()) (Received (Binary server_key)) = Inr (client_key, c) \<and>
    perform_ecdh_handshake X (Inr sb) (Received (Binary client_key)) (Inr ()) = Inr (server_key, c, ChaCha20) \<and>
    wire_encryption c = ChaCha20 \<and>
    (\<forall>S rnd p frame. sv_is_ecdh S \<and> sv_max_frame_bytes S \<le> 2 ^ 32 \<and> random_ok rnd \<and> packet_ok p \<longrightarrow>
       (encode X rnd c p = Inr frame \<and> length frame \<le> sv_max_frame_bytes S \<longrightarrow>
          decode X (session_codec S c) frame = Inr (envelope_received c p)) \<and>
       (encode X rnd (session_codec S c) p = Inr frame \<and> length frame \<le> max_frame_bytes c \<longrightarrow>
          decode X c frame = Inr (envelope_received c p)))"
proof -
  let ?ka = "\<lparr>kp_secret = sa, kp_public = x25519_public X sa\<rparr>" and ?kb = "\<lparr>kp_secret = sb, kp_public = x25519_public X sb\<rparr>"
  let ?c = "codec_with_chacha20_key (keypair_derive_session_key X ?ka (public_bytes ?kb)) codec_plaintext"
  have gen: "ecdh_generate X (Inr sa) = Inr ?ka" "ecdh_generate X (Inr sb) = Inr ?kb" by (simp_all add: ecdh_generate_def)
  have same: "keypair_derive_session_key X ?ka (public_bytes ?kb) = keypair_derive_session_key X ?kb (public_bytes ?ka)"
      "length (keypair_derive_session_key X ?ka (public_bytes ?kb)) = 32"
    and pub: "parse_peer_public (public_bytes ?ka) = Inr (public_bytes ?ka)" "parse_peer_public (public_bytes ?kb) = Inr (public_bytes ?kb)"
    using assms(1,4,5)
    by (simp_all add: keypair_derive_session_key_def derive_session_key_def x25519_law_def public_bytes_def parse_peer_public_def ECDH_KEY_LEN_def)
  have client: "client_ecdh X (Inr sa) (Inr ()) (Received (Binary (public_bytes ?kb))) = Inr (public_bytes ?ka, ?c)"
    by (simp add: client_ecdh_def gen pub)
  have server: "perform_ecdh_handshake X (Inr sb) (Received (Binary (public_bytes ?ka))) (Inr ()) = Inr (public_bytes ?kb, ?c, ChaCha20)"
    by (simp add: perform_ecdh_handshake_def gen pub same)
  have c: "codec_ok ?c" "wire_encryption ?c = ChaCha20" "max_frame_bytes ?c \<le> 2 ^ 32"
    using same(2) by (simp_all add: codec_ok_builders) (simp_all add: codec_with_chacha20_key_def codec_plaintext_def DEFAULT_MAX_FRAME_BYTES_def)
  have "(encode X rnd ?c p = Inr frame \<and> length frame \<le> sv_max_frame_bytes S \<longrightarrow>
          decode X (session_codec S ?c) frame = Inr (envelope_received ?c p)) \<and>
       (encode X rnd (session_codec S ?c) p = Inr frame \<and> length frame \<le> max_frame_bytes ?c \<longrightarrow>
          decode X ?c frame = Inr (envelope_received ?c p))"
    if "sv_is_ecdh S \<and> sv_max_frame_bytes S \<le> 2 ^ 32 \<and> random_ok rnd \<and> packet_ok p" for S rnd p frame
  proof -
    have "link_ok X rnd ?c" using that assms(2,3) c by (simp add: link_ok_def)
    then show ?thesis
      using that received_by_peer [of X rnd ?c p frame "sv_max_frame_bytes S"]
        received_from_peer [OF link_ok_limit, of X rnd ?c "sv_max_frame_bytes S" p frame]
      by (simp add: session_codec_def)
  qed
  then show ?thesis using client server c(2) by blast
qed

theorem ecdh_sessions_agree_witness:
  "\<exists>client_key server_key c.
     client_ecdh sample_externals (Inr (replicate 32 1)) (Inr ()) (Received (Binary server_key)) = Inr (client_key, c) \<and>
     perform_ecdh_handshake sample_externals (Inr (replicate 32 2)) (Received (Binary client_key)) (Inr ()) = Inr (server_key, c, ChaCha20)"
  using ecdh_sessions_agree [OF sample_x25519_law sample_json_law sample_cipher_law, of "replicate 32 1" "replicate 32 2"] by auto

text \<open>
  C21. Authentication seen from both ends. When a client sends its credential over a link it shares with the server and the
  server's reply gets back to it, client and server agree on the verdict: the server lets the connection through exactly when its handler
  accepted that credential, and then the client's authentication succeeds; when the handler refused it, the client fails with
  \<open>AuthFailed\<close> and the handler's error.
\<close>

theorem authentication_agrees:
  assumes "link_ok X rnd_c c" "random_ok rnd_s" "sv_max_frame_bytes S \<le> 2 ^ 32" "\<not> sv_is_ecdh S \<longrightarrow> c = sv_codec S"
    and "sv_auth_handler S = Some h" "utf8_valid credential"
    and "auth_request_frame X rnd_c c credential = Inr frame" "length frame \<le> sv_max_frame_bytes S"
    and "auth_phase X rnd_s S (session_codec S c) cid peer (Received (Binary frame)) (Inr ()) st = ([reply], r, st')"
    and "length reply \<le> max_frame_bytes c"
  defines "verdict \<equiv> h \<lparr>au_credential = credential, au_peer_addr = peer, au_connection_id = cid\<rparr> st"
    and "client_sees \<equiv> client_auth X rnd_c c (Some credential) (Inr ()) (Received (Binary reply))"
  shows "(\<exists>out. verdict = (Returned (Inr out), st') \<and> r = Inr (ao_session_timeout out, if ao_context out \<noteq> [] then Some (ao_context out) else None) \<and>
       client_sees = Inr ()) \<or>
    (\<exists>err. verdict = (Returned (Inl err), st') \<and> r = Inl (AuthFailed ''authentication rejected'') \<and>
       (packet_ok (auth_rejected c err) \<longrightarrow> client_sees = Inl (ClientAuthFailed (error_payload_norm (into_payload err)))))"
proof -
  let ?m = "sv_max_frame_bytes S"
  have sc: "session_codec S c = codec_with_max_frame_bytes ?m c"
    using assms(4) by (auto simp: session_codec_def codec_with_max_frame_bytes_def)
  have link: "link_ok X rnd_s c" "link_ok X rnd_s (codec_with_max_frame_bytes ?m c)"
    using assms(1-3) link_ok_limit by (auto simp: link_ok_def)
  have "packet_ok (envelope_new (AuthRequest credential))"
    using assms(6) by (simp add: packet_ok_def json_tag_def json_u64_def)
  then have d: "decode X (session_codec S c) frame = Inr (envelope_received c (envelope_new (AuthRequest credential)))"
    using received_by_peer [OF assms(1) _ _ assms(8)] assms(7) unfolding sc by (simp add: auth_request_frame_def)
  have sees: "client_sees = auth_verdict X c (Received (Binary reply))"
    using assms(7) by (simp add: client_sees_def client_auth_def)
  from assms(5,9) show ?thesis
  proof (cases rule: auth_phase_cases)
    case (accepted bytes envelope credential' out frame')
    have "credential' = credential" "frame' = reply"
      using accepted d by (auto simp: envelope_received_def envelope_new_def)
    moreover have "decode X c reply = Inr (envelope_received c (auth_accepted c out))"
      using received_from_peer [OF link(2) auth_accepted_ok _ assms(10)] accepted(5) \<open>frame' = reply\<close>
      by (simp add: sc auth_accepted_def limit_encryption)
    then have "client_sees = Inr ()"
      by (simp add: sees auth_verdict_def envelope_received_def auth_accepted_def)
    ultimately show ?thesis using accepted by (auto simp: verdict_def)
  next
    case (rejected bytes envelope credential' err frame')
    have "credential' = credential" "frame' = reply"
      using rejected d by (auto simp: envelope_received_def envelope_new_def)
    moreover have "client_sees = Inl (ClientAuthFailed (error_payload_norm (into_payload err)))" if "packet_ok (auth_rejected c err)"
    proof -
      have "decode X c reply = Inr (envelope_received c (auth_rejected c err))"
        using received_from_peer [OF link(2) that _ assms(10)] rejected(5) \<open>frame' = reply\<close>
        by (simp add: sc auth_rejected_def limit_encryption)
      then show ?thesis by (simp add: sees auth_verdict_def envelope_received_def auth_rejected_def)
    qed
    ultimately show ?thesis using rejected by (auto simp: verdict_def)
  qed simp
qed

lemma token_link: "link_ok sample_externals (Inr (replicate 12 7)) (sv_codec token_server)"
    "session_codec token_server (sv_codec token_server) = codec_plaintext" "sv_max_frame_bytes token_server \<le> 2 ^ 32"
    "max_frame_bytes codec_plaintext = sv_max_frame_bytes token_server" "sv_codec token_server = codec_plaintext"
  using sample_plain_link
  by (simp_all add: session_codec_def codec_with_max_frame_bytes_def token_server_def server_auth_handler_def server_new_def
      codec_plaintext_def DEFAULT_MAX_FRAME_BYTES_def)

theorem authentication_agrees_witness:
  "\<exists>frame reply st. auth_phase sample_externals (Inr (replicate 12 7)) token_server codec_plaintext ''c'' None
       (Received (Binary frame)) (Inr ()) server_state_new = ([reply], Inr (None, None), st) \<and>
     client_auth sample_externals (Inr (replicate 12 7)) codec_plaintext (Some ''secret'') (Inr ()) (Received (Binary reply)) = Inr ()"
proof -
  let ?rnd = "Inr (replicate 12 7)" and ?p = "envelope_new (AuthRequest ''secret'')"
  have r: "random_ok ?rnd" by (simp add: random_ok_def)
  obtain frame where f: "encode sample_externals ?rnd codec_plaintext ?p = Inr frame"
    using sample_plain_encodes [of ?p] by (auto simp: json_tag_def json_u64_def put_string_def as_bytes_def)
  have "packet_ok ?p" by (simp add: packet_ok_def json_tag_def json_u64_def utf8_valid_literal)
  then have d: "decode sample_externals codec_plaintext frame = Inr ?p"
    using decode_encode [OF sample_plain_link _ f] by (simp add: envelope_received_def envelope_new_def codec_plaintext_def)
  obtain reply where e: "encode sample_externals ?rnd codec_plaintext (auth_accepted codec_plaintext auth_output_new) = Inr reply"
    using sample_plain_encodes [of "auth_accepted codec_plaintext auth_output_new"]
    by (auto simp: auth_accepted_def auth_output_new_def json_tag_def json_u64_def opt_error_def put_string_def as_bytes_def)
  have a: "auth_phase sample_externals ?rnd token_server codec_plaintext ''c'' None (Received (Binary frame)) (Inr ()) server_state_new
      = ([reply], Inr (None, None), server_state_new)"
    using d e by (simp add: auth_phase_def token_server_def server_auth_handler_def auth_accepted_def auth_output_new_def)
  have h: "sv_auth_handler token_server = Some (the (sv_auth_handler token_server))"
    by (simp add: token_server_def server_auth_handler_def)
  have "client_auth sample_externals ?rnd codec_plaintext (Some ''secret'') (Inr ()) (Received (Binary reply)) = Inr ()"
    using authentication_agrees [OF token_link(1) r token_link(3) _ h, of "''secret''" frame "''c''" None server_state_new reply "Inr (None, None)" server_state_new]
      f a encode_header [OF r f] encode_header [OF r e] token_link
    by (auto simp: auth_request_frame_def utf8_valid_literal)
  with a show ?thesis by blast
qed

text \<open>The server's two ways to a frame for a reply: the writer encodes it, or \<open>queue_for\<close> did.\<close>

lemma shipped_reply:
  assumes "queue_target X rnd1 S cid q st = Inr (s, msg)" "write_out X rnd2 (session_codec S c) msg = ([Binary f], True)"
    and "link_ok X rnd1 c" "random_ok rnd2" "sv_max_frame_bytes S \<le> 2 ^ 32" "\<not> sv_is_ecdh S \<longrightarrow> c = sv_codec S"
    and "packet_ok q" "length f \<le> max_frame_bytes c"
  shows "decode X c f = Inr (envelope_received c q)"
proof (cases "sv_is_ecdh S")
  case True
  then have "encode X rnd2 (codec_with_max_frame_bytes (sv_max_frame_bytes S) c) q = Inr f"
    using assms(1,2) by (auto simp: queue_target_def write_out_def session_codec_def split: option.splits sum.splits)
  moreover have "link_ok X rnd2 (codec_with_max_frame_bytes (sv_max_frame_bytes S) c)"
    using link_ok_limit [of X rnd2 c] assms(3-5) by (simp add: link_ok_def)
  ultimately show ?thesis using received_from_peer assms(7,8) by blast
next
  case False
  then have "encode X rnd1 c q = Inr f"
    using assms(1,2,6) by (auto simp: queue_target_def write_out_def split: option.splits sum.splits)
  then show ?thesis using decode_encode assms(3,7) by blast
qed

text \<open>
  C1. A call from end to end. A client waits under id \<open>i\<close>; its writer ships the request, the frame is within the server's
  limit and the limiter lets it pass; the server's reply is queued and shipped and is within the client's limit. Then the server's
  reader starts a handler for exactly the client's route, parameters and attachments; the reply of \<open>process_packet\<close> carries id \<open>i\<close>; the
  client's reader dispatches it; and the waiter, and no other, gets the data the server returned, or its error. This holds in ECDH mode
  and with a shared codec.
\<close>

theorem call_end_to_end:
  assumes "client_ok cl" "waiting cl (RequestKey i) = Some w"
    and "link_ok X rnd1 c" "random_ok rnd2" "random_ok rnd3" "sv_max_frame_bytes S \<le> 2 ^ 32" "\<not> sv_is_ecdh S \<longrightarrow> c = sv_codec S"
    and "packet_ok (request_packet cl i rt params atts)"
    and "client_write X rnd1 c (Inr ()) (ClientPacket (request_packet cl i rt params atts)) = ([Binary frame], None)"
    and "length frame \<le> sv_max_frame_bytes S"
    and "\<forall>rl. lim = Some rl \<longrightarrow> fst (check_and_record now cid (sa_ip peer) (length frame) rl) = Allowed"
    and "reply_to S cid (Some peer) (ApiRequest i rt params atts client_metadata) st = (Returned (Some q), st')"
    and "queue_target X rnd2 S cid q st' = Inr (s, msg)" "write_out X rnd3 (session_codec S c) msg = ([Binary f], True)"
    and "packet_ok q" "length f \<le> max_frame_bytes c"
  shows "\<exists>p lim' okay status data err q' cl'.
    read_next X S (session_codec S c) cid peer now (Received (Binary frame)) lim = (SpawnHandler p, lim') \<and>
    pe_body p = ApiRequest i rt params atts client_metadata \<and>
    pe_body q = ApiResponse i okay status data err (Object []) \<and> (okay \<longleftrightarrow> err = None) \<and>
    client_read X c (Received (Binary f)) = Dispatch q' \<and> handle_packet q' cl = Some cl' \<and>
    cl_results cl' = (cl_results cl)(w \<mapsto> if okay then Inr data else Inl (Remote (error_payload_norm (the err)))) \<and>
    waiting cl' = (waiting cl)(RequestKey i := None)"
proof -
  let ?m = "sv_max_frame_bytes S" and ?rq = "request_packet cl i rt params atts"
  have enc: "encode X rnd1 c ?rq = Inr frame"
    using assms(9) by (auto simp: client_write_def split: sum.splits)
  have sc: "session_codec S c = codec_with_max_frame_bytes ?m c" using assms(7) by (auto simp: session_codec_def)
  define p where "p = envelope_received c ?rq"
  have p: "decode X (session_codec S c) frame = Inr p" "pe_body p = ApiRequest i rt params atts client_metadata"
    using received_by_peer [OF assms(3,8) enc assms(10)]
    by (simp_all add: p_def sc envelope_received_def request_packet_def meta_norm_def client_metadata_def)
  have "frame_check S frame = None"
    using encode_header [OF _ enc] assms(3,10) by (auto simp: frame_check_def link_ok_def Let_def)
  then obtain lim' where read: "read_next X S (session_codec S c) cid peer now (Received (Binary frame)) lim = (SpawnHandler p, lim')"
    using p assms(11) by (cases lim) (auto simp: read_next_def on_binary_def split_beta)
  obtain okay status data err where q: "q = with_encryption (ApiResponse i okay status data err (Object [])) (sv_default_encryption S)"
      "okay \<longleftrightarrow> err = None"
    using assms(12) run_api_request_shape by (fastforce simp: ubind_Returned)
  have "link_ok X rnd2 c" using assms(3,4) by (simp add: link_ok_def)
  from shipped_reply [OF assms(13,14) this assms(5-7,15,16)]
  have d: "decode X c f = Inr (envelope_received c q)" .
  let ?q = "envelope_received c q"
  have b: "pe_body ?q = ApiResponse i okay status data (map_option error_payload_norm err) Null"
    by (simp add: q envelope_received_def meta_norm_def)
  then have disp: "client_read X c (Received (Binary f)) = Dispatch ?q" by (simp add: client_read_def d)
  let ?r = "if okay then Inr data else Inl (Remote (error_payload_norm (the err)))"
  have "answer_of (pe_body ?q) = Some (RequestKey i, ?r)" using q(2) by (auto simp: b remote_result_def)
  from handle_answer [OF this, of cl]
  obtain cl' where cl': "handle_packet ?q cl = Some cl'" "cl' = resolve_key (RequestKey i) ?r cl" by blast
  have res: "cl_results cl' = (cl_results cl)(w \<mapsto> ?r)" "waiting cl' = (waiting cl)(RequestKey i := None)"
    unfolding cl'(2) using resolve_key_waiting [of "RequestKey i" ?r cl] resolve_key_results [of "RequestKey i" ?r cl]
    by (simp_all only: assms(2) option.case)
  have "pe_body q = ApiResponse i okay status data err (Object [])" by (simp add: q)
  with read p(2) q(2) disp cl'(1) res show ?thesis by blast
qed

definition echo_server :: wscall_server where
  "echo_server = route ''echo'' (\<lambda>ctx. ureturn (ureturn (Inr (ac_params ctx)))) server_new"

lemma echo_replies:
  "reply_to echo_server ''c'' peer (ApiRequest i ''echo'' params atts meta) st =
     (Returned (Some (with_encryption (ApiResponse i True 200 params None (Object [])) NoEncryption)), st)"
  by (simp add: run_api_request_def echo_server_def route_def server_new_def api_context_of_def ubind_def ureturn_def
      catch_unwind_def Let_def)

theorem call_end_to_end_witness:
  "\<exists>frame f p q cl'.
     read_next sample_externals echo_server codec_plaintext ''c'' \<lparr>sa_ip = IpV4 1, sa_port = 80\<rparr> 0 (Received (Binary frame)) None = (SpawnHandler p, None) \<and>
     client_read sample_externals codec_plaintext (Received (Binary f)) = Dispatch q \<and>
     handle_packet q sample_client = Some cl' \<and> cl_results cl' 5 = Some (Inr (Bool True))"
proof -
  let ?X = sample_externals and ?rnd = "Inr (replicate 12 7)" and ?peer = "\<lparr>sa_ip = IpV4 1, sa_port = 80\<rparr>"
  let ?rq = "request_packet sample_client 1 ''echo'' (Bool True) []"
  let ?q = "with_encryption (ApiResponse 1 True 200 (Bool True) None (Object [])) NoEncryption"
  let ?st = "register_client ''c'' None None server_state_new"
  have S: "sv_codec echo_server = codec_plaintext" "\<not> sv_is_ecdh echo_server" "sv_max_frame_bytes echo_server = max_frame_bytes codec_plaintext"
      "session_codec echo_server codec_plaintext = codec_plaintext"
    by (simp_all add: echo_server_def route_def server_new_def session_codec_def codec_with_max_frame_bytes_def codec_plaintext_def)
  have r: "random_ok ?rnd" by (simp add: random_ok_def)
  have w: "waiting sample_client (RequestKey 1) = Some 5" by (simp add: sample_client_simps)
  have ok: "packet_ok ?rq" "packet_ok ?q"
    by (simp_all add: request_packet_def packet_ok_def json_tag_def json_u64_def utf8_valid_literal opt_meta_def opt_error_def client_metadata_def map_ok_def)
  obtain frame where f: "encode ?X ?rnd codec_plaintext ?rq = Inr frame"
    using sample_plain_encodes [of ?rq]
    by (auto simp: request_packet_def client_metadata_def json_tag_def json_u64_def put_string_def as_bytes_def opt_meta_def)
  obtain g where g: "encode ?X ?rnd codec_plaintext ?q = Inr g"
    using sample_plain_encodes [of ?q] by (auto simp: json_tag_def json_u64_def put_string_def as_bytes_def opt_meta_def opt_error_def)
  have qt: "queue_target ?X ?rnd echo_server ''c'' ?q ?st = Inr (''c'', PreEncoded g)"
    using g S by (simp add: queue_target_def register_client_def server_state_new_def)
  have wo: "write_out ?X ?rnd (session_codec echo_server codec_plaintext) (PreEncoded g) = ([Binary g], True)"
    by (simp add: write_out_def)
  have cw: "client_write ?X ?rnd codec_plaintext (Inr ()) (ClientPacket ?rq) = ([Binary frame], None)"
    by (simp add: client_write_def f)
  have m: "sv_max_frame_bytes echo_server \<le> 2 ^ 32" "\<not> sv_is_ecdh echo_server \<longrightarrow> codec_plaintext = sv_codec echo_server"
    using S sample_plain_link by (simp_all add: link_ok_def)
  have len: "length frame \<le> sv_max_frame_bytes echo_server" "length g \<le> max_frame_bytes codec_plaintext"
    using encode_header [OF r f] encode_header [OF r g] S by simp_all
  have lim: "\<forall>rl. None = Some rl \<longrightarrow> fst (check_and_record 0 ''c'' (sa_ip ?peer) (length frame) rl) = Allowed" by simp
  obtain p lim' okay status data err q' cl' where e:
      "read_next ?X echo_server codec_plaintext ''c'' ?peer 0 (Received (Binary frame)) None = (SpawnHandler p, lim')"
      "pe_body ?q = ApiResponse 1 okay status data err (Object [])"
      "client_read ?X codec_plaintext (Received (Binary g)) = Dispatch q'" "handle_packet q' sample_client = Some cl'"
      "cl_results cl' = (cl_results sample_client)(5 \<mapsto> if okay then Inr data else Inl (Remote (error_payload_norm (the err))))"
    using call_end_to_end [OF sample_client_ok w sample_plain_link r r m ok(1) cw len(1) lim echo_replies qt wo ok(2) len(2)]
    unfolding S(4) by blast
  have "lim' = None" using e(1) by (auto simp: read_next_def on_binary_def split: option.splits sum.splits if_splits)
  moreover have "cl_results cl' 5 = Some (Inr (Bool True))" using e(2,5) by auto
  ultimately show ?thesis using e(1,3,4) by blast
qed

end
